(* ===== verification/Prelude.thy ===== *)
theory Prelude
  imports Main "HOL-Library.Word"
begin

text \<open>
  What every component of the development shares: the widths of the C integers, the faults a C
  execution can end in, the effect type of the modelled functions (the text they print and either
  a fault or a value), and the generic lemmas and fact collections the component proofs use.
\<close>

unbundle bit_operations_syntax

text \<open>Offsets stay sums: \<open>a + 2\<close> is not unfolded to successors.\<close>

declare add_2_eq_Suc [simp del] add_2_eq_Suc' [simp del]

named_theorems io_simps \<open>equations that run the effect type\<close>
named_theorems load_simps \<open>reads of a byte block\<close>
named_theorems buf_simps \<open>C string buffers\<close>

section \<open>Types\<close>

type_synonym u8 = "8 word"
type_synonym u16 = "16 word"
type_synonym u32 = "32 word"
type_synonym u64 = "64 word"

text \<open>
  A byte block is the object a pointer points into; a pointer is an offset in it. Reads past the
  block's end, writes past a buffer's end, a null dereference, a failed \<open>assert\<close>, a call of
  \<open>exit\<close>, of \<open>abort\<close> and a loop that never leaves its state are the ways an execution ends without a value.
\<close>

type_synonym mem = "u8 list"

datatype fault =
    Exit int
  | Assert_Fail
  | Null_Deref
  | Read_OOB
  | Write_OOB
  | Diverge
  | Abort

datatype stream = Std_out | Std_err

text \<open>One call of \<open>fprintf\<close> is one event; \<open>Put_ptr\<close> is a printed pointer (\<open>%p\<close>), kept as its offset.\<close>

datatype event = Put stream string | Put_ptr stream nat

text \<open>The effects of a program: what it did, in order, and how it ended.\<close>

type_synonym ('e, 'a) eff = "'e list \<times> (fault + 'a)"
type_synonym 'a io = "(event, 'a) eff"

section \<open>Effects\<close>

definition ret :: "'a \<Rightarrow> ('e, 'a) eff" where
  "ret a = ([], Inr a)"

definition stop :: "fault \<Rightarrow> ('e, 'a) eff" where
  "stop e = ([], Inl e)"

definition put :: "stream \<Rightarrow> string \<Rightarrow> unit io" where
  "put s t = ([Put s t], Inr ())"

definition put_ptr :: "stream \<Rightarrow> nat \<Rightarrow> unit io" where
  "put_ptr s p = ([Put_ptr s p], Inr ())"

definition io_bind :: "('e, 'a) eff \<Rightarrow> ('a \<Rightarrow> ('e, 'b) eff) \<Rightarrow> ('e, 'b) eff" where
  "io_bind m f =
     (case snd m of
        Inl e \<Rightarrow> (fst m, Inl e)
      | Inr a \<Rightarrow> (fst m @ fst (f a), snd (f a)))"

abbreviation io_seq :: "('e, unit) eff \<Rightarrow> ('e, 'b) eff \<Rightarrow> ('e, 'b) eff" where
  "io_seq m n \<equiv> io_bind m (\<lambda>_. n)"

definition io_assert :: "bool \<Rightarrow> ('e, unit) eff" where
  "io_assert b = (if b then ret () else stop Assert_Fail)"

fun io_each :: "('a \<Rightarrow> ('e, unit) eff) \<Rightarrow> 'a list \<Rightarrow> ('e, unit) eff" where
  "io_each f [] = ret ()"
| "io_each f (x # xs) = io_seq (f x) (io_each f xs)"

lemma io_bind_ret [io_simps, simp]: "io_bind (ret a) f = f a"
  by (simp add: io_bind_def ret_def)

lemma io_bind_stop [io_simps, simp]: "io_bind (stop e) f = stop e"
  by (simp add: io_bind_def stop_def)

lemma io_bind_assoc [io_simps, simp]: "io_bind (io_bind m f) g = io_bind m (\<lambda>x. io_bind (f x) g)"
  by (simp add: io_bind_def split: sum.splits)

lemma io_bind_ret_right [simp]: "io_bind m ret = m"
  by (cases m) (simp add: io_bind_def ret_def split: sum.splits)

lemma io_bind_ret_unit [simp]: "io_bind m (\<lambda>_. ret ()) = m"
  by (cases m) (simp add: io_bind_def ret_def split: sum.splits)

lemma fst_ret [simp]: "fst (ret a) = []" and snd_ret [simp]: "snd (ret a) = Inr a"
  by (simp_all add: ret_def)

lemma fst_stop [simp]: "fst (stop e) = []" and snd_stop [simp]: "snd (stop e) = Inl e"
  by (simp_all add: stop_def)

lemma fst_put [simp]: "fst (put s t) = [Put s t]" and snd_put [simp]: "snd (put s t) = Inr ()"
  by (simp_all add: put_def)

lemma fst_put_ptr [simp]: "fst (put_ptr s p) = [Put_ptr s p]"
  and snd_put_ptr [simp]: "snd (put_ptr s p) = Inr ()"
  by (simp_all add: put_ptr_def)

lemma ret_eq_iff [simp]: "ret a = ret b \<longleftrightarrow> a = b" and stop_eq_iff [simp]: "stop e = stop e' \<longleftrightarrow> e = e'"
  by (simp_all add: ret_def stop_def)

lemma ret_neq_stop [simp]: "ret a \<noteq> stop e" and stop_neq_ret [simp]: "stop e \<noteq> ret a"
  by (simp_all add: ret_def stop_def)

lemma snd_io_bind:
  "snd (io_bind m f) = (case snd m of Inl e \<Rightarrow> Inl e | Inr a \<Rightarrow> snd (f a))"
  by (simp add: io_bind_def split: sum.splits)

lemma snd_io_bind_Inr [simp]: "snd m = Inr a \<Longrightarrow> snd (io_bind m f) = snd (f a)"
  by (simp add: snd_io_bind)

lemma fst_io_bind_Inr [simp]: "snd m = Inr a \<Longrightarrow> fst (io_bind m f) = fst m @ fst (f a)"
  by (simp add: io_bind_def)

lemma snd_io_bind_Inl [simp]: "snd m = Inl e \<Longrightarrow> snd (io_bind m f) = Inl e"
  by (simp add: snd_io_bind)

lemma snd_io_bind_InrE:
  assumes "snd (io_bind m f) = Inr b"
  obtains a where "snd m = Inr a" and "snd (f a) = Inr b"
  using assms by (cases "snd m") (auto simp: snd_io_bind)

lemma io_bind_put [simp]: "snd (io_bind (put s t) f) = snd (f ())"
  and fst_io_bind_put [simp]: "fst (io_bind (put s t) f) = Put s t # fst (f ())"
  by (simp_all add: io_bind_def put_def)

lemma io_assert_simps [simp]: "io_assert True = ret ()" "io_assert False = stop Assert_Fail"
  by (simp_all add: io_assert_def)

lemma snd_io_each:
  "(\<And>x. x \<in> set xs \<Longrightarrow> snd (f x) = Inr ()) \<Longrightarrow> snd (io_each f xs) = Inr ()"
  by (induction xs) auto

lemma fst_io_each:
  "(\<And>x. x \<in> set xs \<Longrightarrow> snd (f x) = Inr ()) \<Longrightarrow> fst (io_each f xs) = concat (map (\<lambda>x. fst (f x)) xs)"
  by (induction xs) auto

lemma io_each_append: "io_each f (xs @ ys) = io_seq (io_each f xs) (io_each f ys)"
  by (induction xs) auto

text \<open>The text a stream received, in order.\<close>

fun event_text :: "stream \<Rightarrow> event \<Rightarrow> string" where
  "event_text s (Put t str) = (if s = t then str else [])"
| "event_text s (Put_ptr t p) = []"

definition text_on :: "stream \<Rightarrow> event list \<Rightarrow> string" where
  "text_on s es = concat (map (event_text s) es)"

lemma text_on_Nil [simp]: "text_on s [] = []"
  and text_on_Cons [simp]: "text_on s (e # es) = event_text s e @ text_on s es"
  and text_on_append [simp]: "text_on s (es @ es') = text_on s es @ text_on s es'"
  by (simp_all add: text_on_def)

lemma text_on_concat: "text_on s (concat ess) = concat (map (text_on s) ess)"
  by (induction ess) auto

section \<open>Lists\<close>

lemma takeWhile_append_stop:
  "(\<And>x. x \<in> set xs \<Longrightarrow> P x) \<Longrightarrow> \<not> P y \<Longrightarrow> takeWhile P (xs @ y # ys) = xs"
  by (induction xs) auto

lemma take_drop_nth_append:
  "i = length xs \<Longrightarrow> take n (drop i (xs @ ys)) = take n ys"
  by simp

lemma length_concat_const:
  "(\<And>x. x \<in> set xs \<Longrightarrow> length (f x) = k) \<Longrightarrow> length (concat (map f xs)) = k * length xs"
  by (induction xs) auto

lemma list4: "length xs = 4 \<Longrightarrow> \<exists>a b c d. xs = [a, b, c, d]"
  by (auto simp: length_Suc_conv eval_nat_numeral)

lemma list2: "length xs = 2 \<Longrightarrow> \<exists>a b. xs = [a, b]"
  by (auto simp: length_Suc_conv eval_nat_numeral)

section \<open>Rounding up\<close>

definition round_up4 :: "nat \<Rightarrow> nat" where
  "round_up4 n = 4 * ((n + 3) div 4)"

lemma round_up4_ge [simp]: "n \<le> round_up4 n"
  unfolding round_up4_def by arith

lemma round_up4_lt: "round_up4 n < n + 4"
  unfolding round_up4_def by arith

lemma round_up4_dvd [simp]: "4 dvd round_up4 n"
  by (simp add: round_up4_def)

lemma round_up4_of_dvd: "4 dvd n \<Longrightarrow> round_up4 n = n"
  by (auto simp: round_up4_def)

lemma round_up4_eq_0 [simp]: "round_up4 n = 0 \<longleftrightarrow> n = 0"
  by (auto simp: round_up4_def)

lemma round_up4_pos: "0 < n \<Longrightarrow> 4 \<le> round_up4 n"
  unfolding round_up4_def by arith

section \<open>Masks\<close>

lemma unat_word_less: "unat (w :: 'a::len word) < 2 ^ LENGTH('a)"
  by (rule unsigned_less)

lemma unat_ucast_up:
  "LENGTH('a) \<le> LENGTH('b) \<Longrightarrow> unat (ucast (w :: 'a::len word) :: 'b::len word) = unat w"
proof -
  assume "LENGTH('a) \<le> LENGTH('b)"
  then have "(2::nat) ^ LENGTH('a) \<le> 2 ^ LENGTH('b)" by (rule power_increasing) simp
  with unat_word_less [of w] have "unat w < 2 ^ LENGTH('b)" by (rule less_le_trans)
  then show ?thesis by (simp add: unsigned_ucast_eq take_bit_nat_eq_self)
qed

lemma unat_of_nat_small: "n < 2 ^ LENGTH('a) \<Longrightarrow> unat (word_of_nat n :: 'a::len word) = n"
  by (simp add: unsigned_of_nat take_bit_nat_eq_self)

lemma unat_plus: "unat (d :: u64) + n < 2 ^ 64 \<Longrightarrow> unat (d + of_nat n) = unat d + n"
  by (subst unat_add_lem [THEN iffD1]) (simp_all add: unat_of_nat_small)

lemma and_not_mask_eq: "w AND NOT (mask k) = w - take_bit k w" for w :: "'a::len word"
proof -
  have "push_bit k (drop_bit k w) = w AND NOT (mask k)"
    by (rule bit_eqI) (auto simp: bit_simps)
  then show ?thesis
    using bits_ident [of k w] by (metis add_diff_cancel_right')
qed

lemma unat_and_not_mask: "unat (w AND NOT (mask k)) = unat w - unat w mod 2 ^ k" for w :: "'a::len word"
proof -
  have t: "unat (take_bit k w) = unat w mod 2 ^ k"
    by (subst unsigned_take_bit_eq) (rule take_bit_eq_mod)
  then have "take_bit k w \<le> w"
    by (simp add: word_le_nat_alt)
  then have "unat (w - take_bit k w) = unat w - unat (take_bit k w)"
    by (rule unat_sub)
  with t show ?thesis by (simp add: and_not_mask_eq)
qed

lemma round_up4_eq_mod: "round_up4 n = (n + 3) - (n + 3) mod 4"
  by (simp add: round_up4_def minus_mod_eq_mult_div)

lemma unat_round_up4_word:
  "unat w + 3 < 2 ^ LENGTH('a) \<Longrightarrow> unat ((w + 3) AND NOT 3) = round_up4 (unat w)"
  if "2 \<le> LENGTH('a)" for w :: "'a::len word"
proof -
  assume w: "unat w + 3 < 2 ^ LENGTH('a)"
  have "(2::nat) ^ 2 \<le> 2 ^ LENGTH('a)" using that by (rule power_increasing) simp
  then have "unat (3 :: 'a word) = 3" by (simp add: unsigned_numeral take_bit_eq_mod)
  with w have "unat (w + 3) = unat w + 3" by (simp add: unat_word_ariths)
  moreover have "(3 :: 'a word) = mask 2" by (simp add: mask_eq_exp_minus_1)
  ultimately show ?thesis
    using unat_and_not_mask [of "w + 3" 2] by (simp add: round_up4_eq_mod)
qed

end
