(* ===== verification/CString.thy ===== *)
theory CString
  imports Prelude
begin

text \<open>
  The part of the C library the sources use on characters and byte blocks: NUL-terminated strings
  in fixed-size arrays (\<open>memset\<close>, \<open>strncat\<close>, \<open>snprintf\<close>), the integer conversions of the format
  strings, and little-endian loads. An array is a list of fixed length; a write past its end is
  the fault \<open>Write_OOB\<close>, a read past a block's end is \<open>Read_OOB\<close>.
\<close>

section \<open>Character arrays\<close>

type_synonym cbuf = "char list"

abbreviation NUL :: char where
  "NUL \<equiv> CHR 0x00"

definition c_str :: "cbuf \<Rightarrow> string" where
  "c_str b = takeWhile (\<lambda>c. c \<noteq> NUL) b"

definition c_array :: "nat \<Rightarrow> cbuf" where
  "c_array n = replicate n NUL"

definition c_memset0 :: "cbuf \<Rightarrow> nat \<Rightarrow> cbuf io" where
  "c_memset0 b n = (if n \<le> length b then ret (replicate n NUL @ drop n b) else stop Write_OOB)"

text \<open>
  \<open>strncat (d, s, n)\<close> appends at most \<open>n\<close> characters of \<open>s\<close> and a NUL; \<open>n\<close> bounds what is taken
  from \<open>s\<close>, not the size of \<open>d\<close>.
\<close>

definition c_strncat :: "cbuf \<Rightarrow> string \<Rightarrow> nat \<Rightarrow> cbuf io" where
  "c_strncat d s n =
     (let k = length (c_str d); t = take n s in
      if NUL \<notin> set d then stop Read_OOB
      else if k + length t < length d then ret (c_str d @ t @ NUL # drop (k + length t + 1) d)
      else stop Write_OOB)"

text \<open>\<open>snprintf (b, n, ...)\<close> writes at most \<open>n - 1\<close> characters of the formatted text and a NUL.\<close>

definition c_snprintf :: "cbuf \<Rightarrow> nat \<Rightarrow> string \<Rightarrow> cbuf io" where
  "c_snprintf b n s =
     (let t = take (n - 1) s in
      if n = 0 then ret b
      else if length t < length b then ret (t @ NUL # drop (length t + 1) b)
      else stop Write_OOB)"

lemma c_str_append_NUL [simp]: "NUL \<notin> set t \<Longrightarrow> c_str (t @ NUL # r) = t"
  unfolding c_str_def by (rule takeWhile_append_stop) auto

lemma NUL_notin_c_str [simp]: "NUL \<notin> set (c_str b)"
  unfolding c_str_def by (auto dest: set_takeWhileD)

lemma length_c_str_less: "NUL \<in> set b \<Longrightarrow> length (c_str b) < length b"
  unfolding c_str_def by (induction b) auto

lemma length_c_array [simp]: "length (c_array n) = n"
  by (simp add: c_array_def)

lemma c_str_c_array [simp]: "c_str (c_array n) = []"
  by (cases n) (auto simp: c_array_def c_str_def)

lemma c_memset0_all [buf_simps]: "n = length b \<Longrightarrow> c_memset0 b n = ret (c_array n)"
  by (simp add: c_memset0_def c_array_def)

lemma c_strncat_fits [buf_simps]:
  assumes "NUL \<in> set d" and "length (c_str d) + length (take n s) < length d"
  shows "c_strncat d s n =
    ret (c_str d @ take n s @ NUL # drop (length (c_str d) + length (take n s) + 1) d)"
  using assms by (simp add: c_strncat_def Let_def)

lemma c_strncat_overflow [buf_simps]:
  assumes "NUL \<in> set d" and "length d \<le> length (c_str d) + length (take n s)"
  shows "c_strncat d s n = stop Write_OOB"
  using assms by (simp add: c_strncat_def Let_def)

lemma c_snprintf_fits:
  assumes "0 < n" and "n \<le> length b"
  shows "c_snprintf b n s = ret (take (n - 1) s @ NUL # drop (length (take (n - 1) s) + 1) b)"
  using assms by (auto simp: c_snprintf_def Let_def min_def)

lemma c_snprintf_result:
  assumes "NUL \<notin> set s" and "0 < n" and "n \<le> length b"
  obtains b' where "c_snprintf b n s = ret b'" and "c_str b' = take (n - 1) s"
    and "length b' = length b"
proof
  show "c_snprintf b n s = ret (take (n - 1) s @ NUL # drop (length (take (n - 1) s) + 1) b)"
    using assms by (intro c_snprintf_fits)
  show "c_str (take (n - 1) s @ NUL # drop (length (take (n - 1) s) + 1) b) = take (n - 1) s"
    using assms(1) by (intro c_str_append_NUL) (auto dest: in_set_takeD)
  show "length (take (n - 1) s @ NUL # drop (length (take (n - 1) s) + 1) b) = length b"
    using assms(2,3) by (auto simp: min_def)
qed

section \<open>Integer conversions\<close>

definition hexdigit :: "nat \<Rightarrow> char" where
  "hexdigit d = ''0123456789abcdef'' ! d"

definition digit_val :: "char \<Rightarrow> nat" where
  "digit_val c = (let k = of_char c in if k < 58 then k - 48 else k - 87)"

fun radix :: "nat \<Rightarrow> nat \<Rightarrow> string" where
  "radix b n = (if b < 2 \<or> n < b then [hexdigit n] else radix b (n div b) @ [hexdigit (n mod b)])"

declare radix.simps [simp del]

definition pad0 :: "nat \<Rightarrow> string \<Rightarrow> string" where
  "pad0 w s = replicate (w - length s) CHR ''0'' @ s"

text \<open>\<open>%u\<close>, \<open>%x\<close>, \<open>%0wx\<close> and \<open>%d\<close>.\<close>

definition fmt_u :: "nat \<Rightarrow> string" where
  "fmt_u n = radix 10 n"

definition fmt_x :: "nat \<Rightarrow> string" where
  "fmt_x n = radix 16 n"

definition fmt_0x :: "nat \<Rightarrow> nat \<Rightarrow> string" where
  "fmt_0x w n = pad0 w (radix 16 n)"

definition fmt_d :: "int \<Rightarrow> string" where
  "fmt_d i = (if i < 0 then CHR ''-'' # radix 10 (nat (- i)) else radix 10 (nat i))"

text \<open>Reading a number back, to state that the conversions lose nothing.\<close>

definition parse_radix :: "nat \<Rightarrow> string \<Rightarrow> nat" where
  "parse_radix b s = foldl (\<lambda>acc c. acc * b + digit_val c) 0 s"

lemma digit_val_hexdigit [simp]: "d < 16 \<Longrightarrow> digit_val (hexdigit d) = d"
proof -
  have "\<forall>d \<in> set [0..<16]. digit_val (hexdigit d) = d"
    by code_simp
  then show "d < 16 \<Longrightarrow> digit_val (hexdigit d) = d" by simp
qed

lemma hexdigit_graphic: "d < 16 \<Longrightarrow> 48 \<le> (of_char (hexdigit d) :: nat) \<and> (of_char (hexdigit d) :: nat) < 103"
proof -
  have "\<forall>d \<in> set [0..<16]. 48 \<le> (of_char (hexdigit d) :: nat) \<and> (of_char (hexdigit d) :: nat) < 103"
    by code_simp
  then show "d < 16 \<Longrightarrow> 48 \<le> (of_char (hexdigit d) :: nat) \<and> (of_char (hexdigit d) :: nat) < 103"
    by simp
qed

lemma parse_radix_Nil [simp]: "parse_radix b [] = 0"
  and parse_radix_snoc [simp]: "parse_radix b (s @ [c]) = parse_radix b s * b + digit_val c"
  by (simp_all add: parse_radix_def)

lemma parse_radix_radix: "2 \<le> b \<Longrightarrow> b \<le> 16 \<Longrightarrow> parse_radix b (radix b n) = n"
proof (induction b n rule: radix.induct)
  case (1 b n)
  show ?case
  proof (cases "n < b")
    case True
    with 1 show ?thesis by (simp add: radix.simps [of b n] parse_radix_def)
  next
    case False
    with 1 have "parse_radix b (radix b (n div b)) = n div b" by simp
    moreover have "n mod b < 16"
      using 1(2,3) mod_less_divisor [of b n] by linarith
    ultimately show ?thesis using False 1 by (simp add: radix.simps [of b n])
  qed
qed

lemma foldl_parse_zeros:
  "foldl (\<lambda>acc c. acc * b + digit_val c) 0 (replicate k CHR ''0'') = 0"
  by (induction k) (auto simp: digit_val_def)

lemma parse_radix_pad0 [simp]: "parse_radix b (pad0 w s) = parse_radix b s"
  by (simp add: parse_radix_def pad0_def foldl_parse_zeros)

lemma parse_fmt_u [simp]: "parse_radix 10 (fmt_u n) = n"
  and parse_fmt_x [simp]: "parse_radix 16 (fmt_x n) = n"
  and parse_fmt_0x [simp]: "parse_radix 16 (fmt_0x w n) = n"
  by (simp_all add: fmt_u_def fmt_x_def fmt_0x_def parse_radix_radix)

lemma fmt_u_inject [simp]: "fmt_u m = fmt_u n \<longleftrightarrow> m = n"
  by (metis parse_fmt_u)

lemma fmt_0x_inject [simp]: "fmt_0x w m = fmt_0x w n \<longleftrightarrow> m = n"
  by (metis parse_fmt_0x)

lemma length_radix_le: "2 \<le> b \<Longrightarrow> n < b ^ k \<Longrightarrow> 0 < k \<Longrightarrow> length (radix b n) \<le> k"
proof (induction k arbitrary: n)
  case 0
  then show ?case by simp
next
  case (Suc k)
  show ?case
  proof (cases "n < b")
    case True
    then show ?thesis by (simp add: radix.simps [of b n])
  next
    case False
    with Suc.prems have k: "0 < k" by (cases k) auto
    from Suc.prems have "n div b < b ^ k"
      by (simp add: less_mult_imp_div_less mult.commute)
    with Suc k have "length (radix b (n div b)) \<le> k" by simp
    then show ?thesis using False Suc.prems by (simp add: radix.simps [of b n])
  qed
qed

lemma length_fmt_0x: "n < 16 ^ w \<Longrightarrow> 0 < w \<Longrightarrow> length (fmt_0x w n) = w"
  using length_radix_le [of 16 n w] by (simp add: fmt_0x_def pad0_def)

lemma length_fmt_u: "n < 10 ^ w \<Longrightarrow> 0 < w \<Longrightarrow> length (fmt_u n) \<le> w"
  by (simp add: fmt_u_def length_radix_le)

lemma radix_set: "2 \<le> b \<Longrightarrow> b \<le> 16 \<Longrightarrow> set (radix b n) \<subseteq> hexdigit ` {..<16}"
proof (induction b n rule: radix.induct)
  case (1 b n)
  have "0 < b" using 1 by simp
  then have "n mod b < 16" using 1(3) mod_less_divisor [of b n] by linarith
  then show ?case
    using 1 by (cases "n < b") (auto simp: radix.simps [of b n])
qed

lemma hexdigit_neq_NUL [simp]: "d < 16 \<Longrightarrow> hexdigit d \<noteq> NUL"
  using hexdigit_graphic [of d] by auto

lemma NUL_notin_radix [simp]: "2 \<le> b \<Longrightarrow> b \<le> 16 \<Longrightarrow> NUL \<notin> set (radix b n)"
  using radix_set [of b n] hexdigit_neq_NUL by fastforce

lemma NUL_notin_fmt [simp]: "NUL \<notin> set (fmt_u n)" "NUL \<notin> set (fmt_x n)" "NUL \<notin> set (fmt_0x w n)"
  "NUL \<notin> set (fmt_d i)"
  by (auto simp: fmt_u_def fmt_x_def fmt_0x_def fmt_d_def pad0_def)

section \<open>Byte blocks\<close>

definition char_of_byte :: "u8 \<Rightarrow> char" where
  "char_of_byte b = char_of (unat b)"

lemma char_of_byte_inject [simp]: "char_of_byte a = char_of_byte b \<longleftrightarrow> a = b"
proof
  assume "char_of_byte a = char_of_byte b"
  then have "(of_char (char_of (unat a)) :: nat) = of_char (char_of (unat b))"
    by (simp add: char_of_byte_def)
  then have "unat a mod 256 = unat b mod 256" by simp
  moreover have "unat a < 256" "unat b < 256"
    using unsigned_less [of a] unsigned_less [of b] by simp_all
  ultimately have "unat a = unat b" by simp
  then show "a = b" by (simp add: word_unat_eq_iff)
qed simp

lemma char_of_byte_eq_NUL [simp]: "char_of_byte b = NUL \<longleftrightarrow> b = 0"
proof -
  have "char_of_byte 0 = NUL" by (simp add: char_of_byte_def char_of_def)
  then show ?thesis using char_of_byte_inject [of b 0] by simp
qed

fun le_nat :: "u8 list \<Rightarrow> nat" where
  "le_nat [] = 0"
| "le_nat (b # bs) = unat b + 256 * le_nat bs"

fun le_bytes :: "nat \<Rightarrow> nat \<Rightarrow> u8 list" where
  "le_bytes 0 v = []"
| "le_bytes (Suc n) v = word_of_nat v # le_bytes n (v div 256)"

definition load :: "nat \<Rightarrow> mem \<Rightarrow> nat \<Rightarrow> ('e, nat) eff" where
  "load n m a = (if a + n \<le> length m then ret (le_nat (take n (drop a m))) else stop Read_OOB)"

definition load8 :: "mem \<Rightarrow> nat \<Rightarrow> ('e, u8) eff" where
  "load8 m a = io_bind (load 1 m a) (\<lambda>v. ret (of_nat v))"

definition load16 :: "mem \<Rightarrow> nat \<Rightarrow> ('e, u16) eff" where
  "load16 m a = io_bind (load 2 m a) (\<lambda>v. ret (of_nat v))"

definition load32 :: "mem \<Rightarrow> nat \<Rightarrow> ('e, u32) eff" where
  "load32 m a = io_bind (load 4 m a) (\<lambda>v. ret (of_nat v))"

definition load64 :: "mem \<Rightarrow> nat \<Rightarrow> ('e, u64) eff" where
  "load64 m a = io_bind (load 8 m a) (\<lambda>v. ret (of_nat v))"

text \<open>The C string at an address: the bytes before the first NUL, wherever that is.\<close>

definition load_str :: "mem \<Rightarrow> nat \<Rightarrow> string io" where
  "load_str m a =
     (if 0 \<in> set (drop a m) then ret (map char_of_byte (takeWhile (\<lambda>b. b \<noteq> 0) (drop a m)))
      else stop Read_OOB)"

lemma length_le_bytes [simp]: "length (le_bytes n v) = n"
  by (induction n arbitrary: v) auto

lemma le_nat_le_bytes: "le_nat (le_bytes n v) = v mod 256 ^ n"
proof (induction n arbitrary: v)
  case 0
  then show ?case by simp
next
  case (Suc n)
  have "v mod 256 ^ Suc n = v mod 256 + 256 * (v div 256 mod 256 ^ n)"
    using mod_mult2_eq [of v 256 "256 ^ n"] by simp
  then show ?case by (simp add: Suc unsigned_of_nat take_bit_nat_def)
qed

lemma le_nat_less: "le_nat bs < 256 ^ length bs"
proof (induction bs)
  case Nil
  then show ?case by simp
next
  case (Cons b bs)
  have "unat b < 256" using unsigned_less [of b] by simp
  with Cons show ?case by simp
qed

lemma le_bytes_le_nat: "le_bytes (length bs) (le_nat bs) = bs"
proof (induction bs)
  case Nil
  then show ?case by simp
next
  case (Cons b bs)
  have "unat b < 256" using unsigned_less [of b] by simp
  moreover have "word_of_nat (unat b + 256 * le_nat bs) = b"
  proof -
    have "(word_of_nat (unat b + 256 * le_nat bs) :: u8) = b + word_of_nat 256 * word_of_nat (le_nat bs)"
      by simp
    also have "(word_of_nat 256 :: u8) = 0" by simp
    finally show ?thesis by simp
  qed
  ultimately show ?case using Cons by simp
qed

lemma load_fits [load_simps]: "a + n \<le> length m \<Longrightarrow> load n m a = ret (le_nat (take n (drop a m)))"
  by (simp add: load_def)

lemma load_beyond [load_simps]: "length m < a + n \<Longrightarrow> load n m a = stop Read_OOB"
  by (simp add: load_def)

lemma load_cases:
  obtains (fits) "a + n \<le> length m" and "load n m a = ret (le_nat (take n (drop a m)))"
  | (beyond) "length m < a + n" and "load n m a = stop Read_OOB"
  by (cases "a + n \<le> length m") (auto simp: load_def)

lemma load_segment [load_simps]:
  "a = length p \<Longrightarrow> length s = n \<Longrightarrow> load n (p @ s @ r) a = ret (le_nat s)"
  by (simp add: load_def)

lemma le_nat_le_bytes_id: "v < 256 ^ n \<Longrightarrow> le_nat (le_bytes n v) = v"
  by (simp add: le_nat_le_bytes)

lemma le_nat_word_inject:
  assumes "length bs = length cs" and "256 ^ length bs \<le> (2::nat) ^ LENGTH('a)"
  shows "(of_nat (le_nat bs) :: 'a::len word) = of_nat (le_nat cs) \<longleftrightarrow> bs = cs"
proof
  assume "(of_nat (le_nat bs) :: 'a word) = of_nat (le_nat cs)"
  then have "unat (of_nat (le_nat bs) :: 'a word) = unat (of_nat (le_nat cs) :: 'a word)" by simp
  moreover have "le_nat bs < 2 ^ LENGTH('a)" "le_nat cs < 2 ^ LENGTH('a)"
    using le_nat_less [of bs] le_nat_less [of cs] assms by simp_all
  ultimately have "le_nat bs = le_nat cs" by (simp add: unat_of_nat_small)
  then show "bs = cs" using assms(1) by (metis le_bytes_le_nat)
qed simp

end
