(* ===== verification/Uapi.thy ===== *)
theory Uapi
  imports CString
begin

text \<open>
  The kernel's user-space headers (\<open>linux/netlink.h\<close>, \<open>linux/rtnetlink.h\<close>, \<open>linux/if_link.h\<close>,
  \<open>net/if_arp.h\<close>, \<open>sys/socket.h\<close>) as a parameter of the model. They are not part of the
  repository: the definitions that use them take a \<open>uapi\<close> record, which gives every constant by
  name and every macro as a function. \<open>uapi_macros_ok\<close> states what netlink(3) and rtnetlink(3)
  document of the macros; the distinctness of the constants of one \<open>switch\<close> is what makes the
  source compile. \<open>linux_uapi\<close> is the instance of the x86-64 Linux headers, on which the
  witnesses evaluate. The structures of these headers are read at the offsets of that ABI.
\<close>

section \<open>The parameter\<close>

text \<open>
  \<open>RTA_OK (rta, len)\<close> reads \<open>rta->rta_len\<close> only when it has to, so the macro takes the read;
  \<open>rta_align\<close> is how far \<open>RTA_NEXT\<close> moves; \<open>ifa_payload\<close> is \<open>IFA_PAYLOAD\<close> on a message's
  \<open>nlmsg_len\<close>; the last three give the first attribute after a message body.
\<close>

record uapi =
  uconst :: "string \<Rightarrow> nat"
  rta_ok :: "u16 io \<Rightarrow> u64 \<Rightarrow> bool io"
  rta_align :: "u16 \<Rightarrow> u64"
  nlmsg_align :: "u32 \<Rightarrow> u32"
  ifa_payload :: "u32 \<Rightarrow> u64"
  ifla_rta :: "nat \<Rightarrow> nat"
  ifa_rta :: "nat \<Rightarrow> nat"
  rtm_rta :: "nat \<Rightarrow> nat"

definition documented_rta_ok :: "u16 io \<Rightarrow> u64 \<Rightarrow> bool io" where
  "documented_rta_ok r n =
     (if n < 4 then ret False
      else io_bind r (\<lambda>l. ret (4 \<le> unat l \<and> unat l \<le> unat n)))"

definition uapi_macros_ok :: "uapi \<Rightarrow> bool" where
  "uapi_macros_ok U \<longleftrightarrow>
     rta_ok U = documented_rta_ok \<and>
     (\<forall>l. unat (rta_align U l) = round_up4 (unat l)) \<and>
     (\<forall>n. unat n + 3 < 2 ^ 32 \<longrightarrow> unat (nlmsg_align U n) = round_up4 (unat n)) \<and>
     (\<forall>n. 24 \<le> unat n \<longrightarrow> unat (ifa_payload U n) = unat n - 24) \<and>
     (\<forall>p. ifla_rta U p = p + 16 \<and> ifa_rta U p = p + 8 \<and> rtm_rta U p = p + 12)"

text \<open>The labels of one \<open>switch\<close> have different values.\<close>

definition labels_distinct :: "uapi \<Rightarrow> string list \<Rightarrow> bool" where
  "labels_distinct U ls \<longleftrightarrow> distinct (map (uconst U) ls)"

section \<open>Structures\<close>

text \<open>
  \<open>struct nlmsghdr\<close> (16 bytes): \<open>nlmsg_len\<close> at 0, \<open>nlmsg_type\<close> at 4, \<open>nlmsg_flags\<close> at 6,
  \<open>nlmsg_seq\<close> at 8, \<open>nlmsg_pid\<close> at 12. \<open>struct rtattr\<close> (4 bytes): \<open>rta_len\<close> at 0, \<open>rta_type\<close> at 2.
\<close>

abbreviation nlmsg_len :: "mem \<Rightarrow> nat \<Rightarrow> u32 io" where
  "nlmsg_len m h \<equiv> load32 m h"

abbreviation nlmsg_type :: "mem \<Rightarrow> nat \<Rightarrow> u16 io" where
  "nlmsg_type m h \<equiv> load16 m (h + 4)"

abbreviation nlmsg_flags :: "mem \<Rightarrow> nat \<Rightarrow> u16 io" where
  "nlmsg_flags m h \<equiv> load16 m (h + 6)"

abbreviation nlmsg_seq :: "mem \<Rightarrow> nat \<Rightarrow> u32 io" where
  "nlmsg_seq m h \<equiv> load32 m (h + 8)"

abbreviation nlmsg_pid :: "mem \<Rightarrow> nat \<Rightarrow> u32 io" where
  "nlmsg_pid m h \<equiv> load32 m (h + 12)"

abbreviation rta_len :: "mem \<Rightarrow> nat \<Rightarrow> u16 io" where
  "rta_len m r \<equiv> load16 m r"

abbreviation rta_type :: "mem \<Rightarrow> nat \<Rightarrow> u16 io" where
  "rta_type m r \<equiv> load16 m (r + 2)"

section \<open>The Linux instance\<close>

definition linux_arphrd :: "(string \<times> nat) list" where
  "linux_arphrd =
    [(''NETROM'', 0), (''ETHER'', 1), (''EETHER'', 2), (''AX25'', 3), (''PRONET'', 4),
     (''CHAOS'', 5), (''IEEE802'', 6), (''ARCNET'', 7), (''APPLETLK'', 8), (''DLCI'', 15),
     (''ATM'', 19), (''METRICOM'', 23), (''IEEE1394'', 24), (''EUI64'', 27),
     (''INFINIBAND'', 32), (''SLIP'', 256), (''CSLIP'', 257), (''SLIP6'', 258),
     (''CSLIP6'', 259), (''RSRVD'', 260), (''ADAPT'', 264), (''ROSE'', 270), (''X25'', 271),
     (''HWX25'', 272), (''PPP'', 512), (''CISCO'', 513), (''LAPB'', 516), (''DDCMP'', 517),
     (''RAWHDLC'', 518), (''TUNNEL'', 768), (''TUNNEL6'', 769), (''FRAD'', 770),
     (''SKIP'', 771), (''LOOPBACK'', 772), (''LOCALTLK'', 773), (''FDDI'', 774), (''BIF'', 775),
     (''SIT'', 776), (''IPDDP'', 777), (''IPGRE'', 778), (''PIMREG'', 779), (''HIPPI'', 780),
     (''ASH'', 781), (''ECONET'', 782), (''IRDA'', 783), (''FCPP'', 784), (''FCAL'', 785),
     (''FCPL'', 786), (''FCFABRIC'', 787), (''IEEE802_TR'', 800), (''IEEE80211'', 801),
     (''IEEE80211_PRISM'', 802), (''IEEE80211_RADIOTAP'', 803), (''IEEE802154'', 804),
     (''VOID'', 65535), (''NONE'', 65534)]"

definition linux_rtm :: "(string \<times> nat) list" where
  "linux_rtm =
    [(''NEWLINK'', 16), (''DELLINK'', 17), (''GETLINK'', 18), (''NEWADDR'', 20),
     (''DELADDR'', 21), (''GETADDR'', 22), (''NEWROUTE'', 24), (''DELROUTE'', 25),
     (''GETROUTE'', 26), (''NEWNEIGH'', 28), (''DELNEIGH'', 29), (''GETNEIGH'', 30),
     (''NEWRULE'', 32), (''DELRULE'', 33), (''GETRULE'', 34), (''NEWQDISC'', 36),
     (''DELQDISC'', 37), (''GETQDISC'', 38), (''NEWTCLASS'', 40), (''DELTCLASS'', 41),
     (''GETTCLASS'', 42), (''NEWTFILTER'', 44), (''DELTFILTER'', 45), (''GETTFILTER'', 46)]"

definition linux_rtn :: "(string \<times> nat) list" where
  "linux_rtn =
    [(''UNSPEC'', 0), (''UNICAST'', 1), (''LOCAL'', 2), (''BROADCAST'', 3), (''ANYCAST'', 4),
     (''MULTICAST'', 5), (''BLACKHOLE'', 6), (''UNREACHABLE'', 7), (''PROHIBIT'', 8),
     (''THROW'', 9), (''NAT'', 10), (''XRESOLVE'', 11)]"

definition linux_af :: "(string \<times> nat) list" where
  "linux_af =
    [(''UNSPEC'', 0), (''UNIX'', 1), (''INET'', 2), (''AX25'', 3), (''IPX'', 4),
     (''APPLETALK'', 5), (''NETROM'', 6), (''BRIDGE'', 7), (''ATMPVC'', 8), (''X25'', 9),
     (''INET6'', 10), (''ROSE'', 11), (''DECnet'', 12), (''NETBEUI'', 13), (''SECURITY'', 14),
     (''KEY'', 15), (''NETLINK'', 16), (''PACKET'', 17), (''ASH'', 18), (''ECONET'', 19),
     (''ATMSVC'', 20), (''RDS'', 21), (''SNA'', 22), (''IRDA'', 23), (''PPPOX'', 24),
     (''WANPIPE'', 25), (''LLC'', 26), (''IB'', 27), (''MPLS'', 28), (''CAN'', 29),
     (''TIPC'', 30), (''BLUETOOTH'', 31), (''IUCV'', 32), (''RXRPC'', 33), (''ISDN'', 34),
     (''PHONET'', 35), (''IEEE802154'', 36), (''CAIF'', 37), (''ALG'', 38), (''NFC'', 39),
     (''VSOCK'', 40), (''MAX'', 44)]"

definition linux_ifla :: "(string \<times> nat) list" where
  "linux_ifla =
    [(''UNSPEC'', 0), (''ADDRESS'', 1), (''BROADCAST'', 2), (''IFNAME'', 3), (''MTU'', 4),
     (''LINK'', 5), (''QDISC'', 6), (''STATS'', 7), (''COST'', 8), (''PRIORITY'', 9),
     (''MASTER'', 10), (''WIRELESS'', 11), (''PROTINFO'', 12), (''TXQLEN'', 13), (''MAP'', 14),
     (''WEIGHT'', 15), (''OPERSTATE'', 16), (''LINKMODE'', 17), (''LINKINFO'', 18),
     (''NET_NS_PID'', 19), (''IFALIAS'', 20), (''NUM_VF'', 21), (''VFINFO_LIST'', 22),
     (''STATS64'', 23), (''VF_PORTS'', 24), (''PORT_SELF'', 25), (''AF_SPEC'', 26),
     (''GROUP'', 27), (''NET_NS_FD'', 28), (''EXT_MASK'', 29), (''PROMISCUITY'', 30),
     (''NUM_TX_QUEUES'', 31), (''NUM_RX_QUEUES'', 32), (''CARRIER'', 33),
     (''PHYS_PORT_ID'', 34), (''CARRIER_CHANGES'', 35), (''PHYS_SWITCH_ID'', 36),
     (''LINK_NETNSID'', 37), (''PHYS_PORT_NAME'', 38), (''PROTO_DOWN'', 39)]"

definition linux_ifla_nested :: "(string \<times> nat) list" where
  "linux_ifla_nested =
    [(''INFO_KIND'', 1), (''INFO_DATA'', 2), (''VLAN_UNSPEC'', 0), (''VLAN_ID'', 1),
     (''VLAN_FLAGS'', 2), (''VLAN_EGRESS_QOS'', 3), (''VLAN_INGRESS_QOS'', 4),
     (''VLAN_PROTOCOL'', 5)]"

definition linux_nlm :: "(string \<times> nat) list" where
  "linux_nlm =
    [(''F_REQUEST'', 1), (''F_MULTI'', 2), (''F_ACK'', 4), (''F_ECHO'', 8),
     (''F_DUMP_INTR'', 16), (''F_DUMP_FILTERED'', 32), (''F_ROOT'', 256), (''F_MATCH'', 512),
     (''F_ATOMIC'', 1024), (''F_REPLACE'', 256), (''F_EXCL'', 512), (''F_CREATE'', 1024),
     (''F_APPEND'', 2048)]"

text \<open>A constant is found by its family, the part of its name before the first underscore.\<close>

fun find_const :: "(string \<times> nat) list \<Rightarrow> string \<Rightarrow> nat" where
  "find_const [] s = 0"
| "find_const ((k, v) # t) s = (if s = k then v else find_const t s)"

definition linux_family :: "string \<Rightarrow> (string \<times> nat) list" where
  "linux_family p =
     (if p = ''IFLA'' then linux_ifla @ linux_ifla_nested else if p = ''RTM'' then linux_rtm
      else if p = ''AF'' then linux_af else if p = ''RTN'' then linux_rtn
      else if p = ''ARPHRD'' then linux_arphrd else if p = ''NLM'' then linux_nlm else [])"

definition linux_const :: "string \<Rightarrow> nat" where
  "linux_const s =
     find_const (linux_family (takeWhile (\<lambda>c. c \<noteq> CHR ''_'') s))
       (tl (dropWhile (\<lambda>c. c \<noteq> CHR ''_'') s))"

lemma linux_const_family:
  "CHR ''_'' \<notin> set p \<Longrightarrow> linux_const (p @ CHR ''_'' # s) = find_const (linux_family p) s"
proof -
  assume p: "CHR ''_'' \<notin> set p"
  then have "takeWhile (\<lambda>c. c \<noteq> CHR ''_'') (p @ CHR ''_'' # s) = p"
    by (intro takeWhile_append_stop) auto
  moreover have "dropWhile (\<lambda>c. c \<noteq> CHR ''_'') (p @ CHR ''_'' # s) = CHR ''_'' # s"
    using p by (subst dropWhile_append2) auto
  ultimately show ?thesis by (simp add: linux_const_def)
qed

lemma find_const_map:
  "distinct (map fst t) \<Longrightarrow> map (\<lambda>e. find_const (t @ u) (fst e)) t = map snd t"
proof (induction t)
  case Nil
  then show ?case by simp
next
  case (Cons a t)
  have "find_const ((a # t) @ u) (fst e) = find_const (t @ u) (fst e)" if "e \<in> set t" for e
    using Cons.prems that by (cases a) (auto simp: image_iff)
  then have "map (\<lambda>e. find_const ((a # t) @ u) (fst e)) t = map (\<lambda>e. find_const (t @ u) (fst e)) t"
    by (intro map_cong) auto
  with Cons show ?case by (cases a) auto
qed

text \<open>The values of a family's labels, without looking each of them up.\<close>

lemma linux_const_labels:
  assumes "CHR ''_'' \<notin> set p" and "linux_family p = t @ u" and "distinct (map fst t)"
  shows "map linux_const (map (\<lambda>e. p @ CHR ''_'' # fst e) t) = map snd t"
  using find_const_map [OF assms(3), of u] assms(1,2) by (simp add: linux_const_family comp_def)

definition linux_uapi :: uapi where
  "linux_uapi =
     \<lparr>uconst = linux_const,
      rta_ok = documented_rta_ok,
      rta_align = (\<lambda>l. (ucast l + 3) AND NOT 3),
      nlmsg_align = (\<lambda>n. (n + 3) AND NOT 3),
      ifa_payload = (\<lambda>n. ucast n - 24),
      ifla_rta = (\<lambda>p. p + 16),
      ifa_rta = (\<lambda>p. p + 8),
      rtm_rta = (\<lambda>p. p + 12)\<rparr>"

lemma linux_uapi_sel [simp]:
  "uconst linux_uapi = linux_const"
  "rta_ok linux_uapi = documented_rta_ok"
  "rta_align linux_uapi = (\<lambda>l. (ucast l + 3) AND NOT 3)"
  "nlmsg_align linux_uapi = (\<lambda>n. (n + 3) AND NOT 3)"
  "ifa_payload linux_uapi = (\<lambda>n. ucast n - 24)"
  "ifla_rta linux_uapi = (\<lambda>p. p + 16)"
  "ifa_rta linux_uapi = (\<lambda>p. p + 8)"
  "rtm_rta linux_uapi = (\<lambda>p. p + 12)"
  by (simp_all add: linux_uapi_def)

lemma unat_ucast16_64 [simp]: "unat (ucast (l :: u16) :: u64) = unat l"
  and unat_ucast32_64 [simp]: "unat (ucast (n :: u32) :: u64) = unat n"
  by (simp_all add: unat_ucast_up)

lemma linux_uapi_macros_ok: "uapi_macros_ok linux_uapi"
proof -
  have "unat ((ucast l + 3 :: u64) AND NOT 3) = round_up4 (unat l)" for l :: u16
    using unat_round_up4_word [of "ucast l :: u64"] unat_word_less [of l] by simp
  moreover have "unat ((n + 3 :: u32) AND NOT 3) = round_up4 (unat n)" if "unat n + 3 < 2 ^ 32" for n :: u32
    using unat_round_up4_word [of n] that by simp
  moreover have "unat (ucast n - 24 :: u64) = unat n - 24" if "24 \<le> unat n" for n :: u32
    using that by (subst unat_sub) (simp_all add: word_le_nat_alt)
  ultimately show ?thesis by (simp add: uapi_macros_ok_def)
qed

lemma uapi_macros_okD:
  assumes "uapi_macros_ok U"
  shows "rta_ok U = documented_rta_ok"
    and "unat (rta_align U l) = round_up4 (unat l)"
    and "unat n + 3 < 2 ^ 32 \<Longrightarrow> unat (nlmsg_align U n) = round_up4 (unat n)"
    and "24 \<le> unat n \<Longrightarrow> unat (ifa_payload U n) = unat n - 24"
    and "ifla_rta U p = p + 16" and "ifa_rta U p = p + 8" and "rtm_rta U p = p + 12"
  using assms by (simp_all add: uapi_macros_ok_def)

lemmas linux_eval =
  linux_const_def linux_family_def linux_ifla_def linux_ifla_nested_def linux_rtm_def linux_af_def linux_rtn_def
  linux_arphrd_def linux_nlm_def

end
