(* ===== verification/Rtattr.thy ===== *)
theory Rtattr
  imports Uapi
begin

text \<open>
  \<open>yalin/yalin/rtattr.h\<close>, lines 21 to 139: the accessors of a \<open>struct rtattr\<close>, the step from one
  attribute to the next inside a counted buffer, and the readers of a payload. The lengths are C's
  \<open>size_t\<close> and \<open>ssize_t\<close>: 64-bit words, read unsigned or with \<open>sint\<close> where the source compares them
  signed. The readers of the four integer widths share the contract \<open>attr_reader\<close>.
\<close>

section \<open>The code\<close>

definition align :: "u64 \<Rightarrow> u64 \<Rightarrow> u64" where
  "align blocklen alignlen = (blocklen + alignlen - 1) AND NOT (alignlen - 1)"

definition rtattr_type :: "mem \<Rightarrow> nat \<Rightarrow> u16 io" where
  "rtattr_type m rta = rta_type m rta"

definition rtattr_len :: "mem \<Rightarrow> nat \<Rightarrow> u64 io" where
  "rtattr_len m rta = io_bind (rta_len m rta) (\<lambda>l. ret (ucast l))"

definition rtattr_payload_len :: "mem \<Rightarrow> nat \<Rightarrow> u64 io" where
  "rtattr_payload_len m rta = io_bind (rta_len m rta) (\<lambda>l. ret (ucast l - 4))"

definition rtattr_payload_ptr :: "nat \<Rightarrow> nat" where
  "rtattr_payload_ptr rta = rta + 4"

text \<open>
  \<open>rtattr_next (rta, &buflen)\<close>: the pointer, \<open>None\<close> for NULL, and the updated \<open>*buflen\<close>. The
  subtraction \<open>*buflen - seek_len\<close> mixes a signed and an unsigned operand, so it is unsigned.
\<close>

definition rtattr_next :: "mem \<Rightarrow> nat \<Rightarrow> u64 \<Rightarrow> (nat option \<times> u64) io" where
  "rtattr_next m rta buflen =
     io_bind (rtattr_len m rta) (\<lambda>l.
       let seek_len = align l 4 in
       if sint buflen \<le> 0 then ret (None, buflen)
       else if seek_len \<le> 0 then ret (None, buflen)
       else if 4 < buflen - seek_len then ret (Some (rta + unat seek_len), buflen - seek_len)
       else ret (None, buflen))"

definition rtattr_nest_next :: "nat \<Rightarrow> nat" where
  "rtattr_nest_next rta = rtattr_payload_ptr rta"

text \<open>The branch of a reader that is told a payload longer than its type.\<close>

definition read_miss :: "string \<Rightarrow> mem \<Rightarrow> nat \<Rightarrow> 'a io" where
  "read_miss func m attr =
     io_bind (rtattr_payload_len m attr) (\<lambda>n.
     io_bind (rtattr_type m attr) (\<lambda>t.
     io_seq (put Std_err
       (func @ '': read miss (l,t)=('' @ fmt_d (sint n) @ '','' @ fmt_u (unat t) @ '')'' @ [CHR 0x0A]))
     (io_seq (put Std_err ('' - payload_len: '' @ fmt_d (sint n) @ [CHR 0x0A]))
       (stop (Exit 1)))))"

definition rtattr_read_8bit :: "mem \<Rightarrow> nat \<Rightarrow> u8 io" where
  "rtattr_read_8bit m attr =
     io_bind (rtattr_payload_len m attr) (\<lambda>n.
       if 1 < n then read_miss ''rtattr_read_8bit'' m attr
       else load8 m (rtattr_payload_ptr attr))"

definition rtattr_read_16bit :: "mem \<Rightarrow> nat \<Rightarrow> u16 io" where
  "rtattr_read_16bit m attr =
     io_bind (rtattr_payload_len m attr) (\<lambda>n.
       if 2 < n then read_miss ''rtattr_read_16bit'' m attr
       else load16 m (rtattr_payload_ptr attr))"

definition rtattr_read_32bit :: "mem \<Rightarrow> nat \<Rightarrow> u32 io" where
  "rtattr_read_32bit m attr =
     io_bind (rtattr_payload_len m attr) (\<lambda>n.
       if 4 < n then read_miss ''rtattr_read_32bit'' m attr
       else load32 m (rtattr_payload_ptr attr))"

definition rtattr_read_64bit :: "mem \<Rightarrow> nat \<Rightarrow> u64 io" where
  "rtattr_read_64bit m attr =
     io_bind (rtattr_payload_len m attr) (\<lambda>n.
       if 8 < n then read_miss ''rtattr_read_64bit'' m attr
       else load64 m (rtattr_payload_ptr attr))"

definition rtattr_read_str :: "mem \<Rightarrow> nat \<Rightarrow> cbuf \<Rightarrow> u64 \<Rightarrow> (cbuf \<times> u64) io" where
  "rtattr_read_str m attr str strbuflen =
     io_bind (rtattr_payload_len m attr) (\<lambda>n.
       if strbuflen < n then
         io_bind (rtattr_type m attr) (\<lambda>t.
         io_seq (put Std_err (''rtattr_read_str: read miss (type='' @ fmt_u (unat t) @ '')'' @ [CHR 0x0A]))
         (io_seq (put Std_out (''payloadlen: '' @ fmt_d (sint n) @ [CHR 0x0A]))
         (io_seq (put Std_out (''strbuflen: '' @ fmt_d (sint strbuflen) @ [CHR 0x0A]))
           (stop (Exit 1)))))
       else
         io_bind (load_str m (rtattr_payload_ptr attr)) (\<lambda>s.
         io_bind (c_snprintf str (unat strbuflen) s) (\<lambda>str.
         ret (str, align n 4))))"

section \<open>Attributes in memory\<close>

text \<open>\<open>attr t p\<close> is the wire form of an attribute, without the padding after it.\<close>

definition attr :: "u16 \<Rightarrow> u8 list \<Rightarrow> u8 list" where
  "attr t p = le_bytes 2 (4 + length p) @ le_bytes 2 (unat t) @ p"

definition attr_at :: "mem \<Rightarrow> nat \<Rightarrow> u16 \<Rightarrow> u8 list \<Rightarrow> bool" where
  "attr_at m a t p \<longleftrightarrow> length p < 65532 \<and> take (4 + length p) (drop a m) = attr t p"

text \<open>An attribute header at \<open>a\<close>, whatever the length it claims.\<close>

definition hdr_at :: "mem \<Rightarrow> nat \<Rightarrow> u16 \<Rightarrow> u16 \<Rightarrow> bool" where
  "hdr_at m a l t \<longleftrightarrow> take 4 (drop a m) = le_bytes 2 (unat l) @ le_bytes 2 (unat t)"

lemma length_attr [simp]: "length (attr t p) = 4 + length p"
  by (simp add: attr_def)

lemma le_nat_le_bytes_u16 [simp]: "le_nat (le_bytes 2 (unat (t :: u16))) = unat t"
  using unat_word_less [of t] by (simp add: le_nat_le_bytes_id)

lemma take_drop_take: "i + j \<le> n \<Longrightarrow> take j (drop i (take n xs)) = take j (drop i xs)"
  by (simp add: drop_take min_def)

lemma hdr_at_split:
  assumes "hdr_at m a l t"
  shows "take 2 (drop a m) = le_bytes 2 (unat l)" and "take 2 (drop (a + 2) m) = le_bytes 2 (unat t)"
    and "a + 4 \<le> length m"
proof -
  have h: "take 4 (drop a m) = le_bytes 2 (unat l) @ le_bytes 2 (unat t)"
    using assms by (simp add: hdr_at_def)
  then have "length (take 4 (drop a m)) = 4" by simp
  then show "a + 4 \<le> length m" by (simp add: min_def split: if_splits)
  have "take 2 (drop 0 (drop a m)) = take 2 (drop 0 (take 4 (drop a m)))"
    using take_drop_take [of 0 2 4 "drop a m"] by simp
  with h show "take 2 (drop a m) = le_bytes 2 (unat l)" by simp
  have "take 2 (drop 2 (drop a m)) = take 2 (drop 2 (take 4 (drop a m)))"
    using take_drop_take [of 2 2 4 "drop a m"] by simp
  with h show "take 2 (drop (a + 2) m) = le_bytes 2 (unat t)" by (simp add: add.commute)
qed

lemma hdr_at_len [load_simps]: "hdr_at m a l t \<Longrightarrow> rta_len m a = ret l"
  and hdr_at_type [load_simps]: "hdr_at m a l t \<Longrightarrow> rta_type m a = ret t"
  using hdr_at_split [of m a l t] by (simp_all add: load16_def load_def)

lemma hdr_at_iff: "hdr_at m a l t \<longleftrightarrow> rta_len m a = ret l \<and> rta_type m a = ret t"
proof
  assume "rta_len m a = ret l \<and> rta_type m a = ret t"
  then have l: "a + 4 \<le> length m" and v: "of_nat (le_nat (take 2 (drop a m))) = l"
    "of_nat (le_nat (take 2 (drop (a + 2) m))) = t"
    by (auto simp: load16_def load_def split: if_splits)
  have "unat (of_nat (le_nat b) :: u16) = le_nat b" if "length b = 2" for b
    using le_nat_less [of b] that by (intro unat_of_nat_small) simp
  moreover have "length (take 2 (drop a m)) = 2" "length (take 2 (drop (a + 2) m)) = 2"
    using l by auto
  ultimately have "le_bytes 2 (unat l) = take 2 (drop a m)" "le_bytes 2 (unat t) = take 2 (drop (a + 2) m)"
    using v le_bytes_le_nat by metis+
  moreover have "take 4 (drop a m) = take 2 (drop a m) @ take 2 (drop (a + 2) m)"
    using take_add [of 2 2 "drop a m"] by (simp add: add.commute)
  ultimately show "hdr_at m a l t" by (simp add: hdr_at_def)
qed (simp add: load_simps)

lemma attr_at_hdr: "attr_at m a t p \<Longrightarrow> hdr_at m a (of_nat (4 + length p)) t"
proof -
  assume at: "attr_at m a t p"
  then have "unat (of_nat (4 + length p) :: u16) = 4 + length p"
    by (intro unat_of_nat_small) (simp add: attr_at_def)
  moreover have "take 4 (drop a m) = take 4 (take (4 + length p) (drop a m))" by simp
  ultimately show ?thesis
    using at unfolding hdr_at_def attr_at_def attr_def by simp
qed

lemma attr_at_payload:
  assumes "attr_at m a t p"
  shows "take (length p) (drop (a + 4) m) = p" and "a + 4 + length p \<le> length m"
proof -
  have "take (length p) (drop 4 (drop a m)) = take (length p) (drop 4 (take (4 + length p) (drop a m)))"
    by (rule take_drop_take [symmetric]) simp
  with assms show p: "take (length p) (drop (a + 4) m) = p"
    by (simp add: attr_at_def attr_def add.commute)
  have "length (take (4 + length p) (drop a m)) = 4 + length p"
    using assms by (simp add: attr_at_def)
  then show "a + 4 + length p \<le> length m" by (simp add: min_def split: if_splits)
qed

lemma attr_at_segment: "length p < 65532 \<Longrightarrow> attr_at (pre @ attr t p @ post) (length pre) t p"
  by (simp add: attr_at_def)

section \<open>Alignment and the step to the next attribute\<close>

lemma align_pow2:
  assumes "a = 2 ^ k" and "k < 64" and "unat b + 2 ^ k \<le> 2 ^ 64"
  shows "unat (align b a) = (unat b + (2 ^ k - 1)) - (unat b + (2 ^ k - 1)) mod 2 ^ k"
proof -
  have m: "a - 1 = mask k" using assms(1) by (simp add: mask_eq_exp_minus_1)
  have k: "(2 :: nat) ^ k < 2 ^ 64" using assms(2) by (intro power_strict_increasing) auto
  have "unat (mask k :: u64) = 2 ^ k - 1"
  proof -
    have "uint (mask k :: u64) = mask k" using assms(2) by (simp add: uint_mask_eq min_def)
    then have "int (unat (mask k :: u64)) = int (mask k)" by (simp add: of_nat_mask_eq)
    then show ?thesis by (simp only: of_nat_eq_iff mask_eq_exp_minus_1)
  qed
  then have "unat (b + mask k) = unat b + (2 ^ k - 1)"
    using assms(3) k by (subst unat_word_ariths) (simp add: less_le_trans)
  moreover have "b + a - 1 = b + mask k" using m by (simp add: add_diff_eq [symmetric])
  ultimately show ?thesis
    using unat_and_not_mask [of "b + mask k" k] by (simp only: align_def m)
qed

lemma align4: "unat b + 4 \<le> 2 ^ 64 \<Longrightarrow> unat (align b 4) = round_up4 (unat b)"
  using align_pow2 [of 4 2 b] by (simp add: round_up4_eq_mod)

lemma align4_u16 [simp]: "unat (align (ucast (l :: u16)) 4) = round_up4 (unat l)"
  using unat_word_less [of l] by (subst align4) simp_all

lemma round_up4_u16: "round_up4 (unat (l :: u16)) \<le> 65536"
  using unat_word_less [of l] unfolding round_up4_def by simp

lemma align4_eq_0: "align (ucast (l :: u16)) 4 = 0 \<longleftrightarrow> l = 0"
  using align4_u16 [of l] by (simp add: word_unat_eq_iff)

lemma sint_less: "sint (w :: u64) < 2 ^ 63"
  using signed_take_bit_int_less_exp [of 63 "uint w"] by (simp add: sint_uint)

lemma sint_ge: "- (2 ^ 63) \<le> sint (w :: u64)"
  using signed_take_bit_int_greater_eq_minus_exp [of 63 "uint w"] by (simp add: sint_uint)

lemma sint_of_nat_small:
  assumes "n < 2 ^ 63"
  shows "sint (of_nat n :: u64) = int n"
proof -
  have "unat (of_nat n :: u64) = n" using assms by (intro unat_of_nat_small) simp
  then have "uint (of_nat n :: u64) = int n" by (metis uint_nat)
  moreover have "signed_take_bit 63 (int n) = int n"
    using assms by (intro signed_take_bit_int_eq_self) auto
  ultimately show ?thesis by (simp add: sint_uint)
qed

lemma uint_sint_cases:
  "uint (w :: u64) = (if 0 \<le> sint w then sint w else sint w + 2 ^ 64)"
proof -
  have u: "uint w = sint w mod 2 ^ 64" by (simp add: uint_sint take_bit_eq_mod)
  show ?thesis
  proof (cases "0 \<le> sint w")
    case True
    then show ?thesis using u sint_less [of w] by (simp add: mod_pos_pos_trivial)
  next
    case False
    have "sint w mod 2 ^ 64 = (sint w + 2 ^ 64) mod 2 ^ 64" by simp
    also have "\<dots> = sint w + 2 ^ 64" using False sint_ge [of w] by (intro mod_pos_pos_trivial) auto
    finally show ?thesis using False u by simp
  qed
qed

text \<open>What \<open>*buflen -= seek_len\<close> does to the signed value of a positive \<open>*buflen\<close>.\<close>

lemma buflen_step:
  assumes "0 < sint (b :: u64)" and "unat s = k" and "k \<le> 65536"
  shows "sint (b - s) = sint b - int k"
    and "4 < b - s \<longleftrightarrow> (int k + 4 < sint b \<or> sint b < int k)"
proof -
  have us: "uint s = int k" by (simp flip: assms(2))
  then have ss: "sint s = int k"
    using assms(3) uint_sint_cases [of s] sint_ge [of s] by (simp split: if_splits)
  have "sint (b - s) = signed_take_bit 63 (sint b - sint s)"
    by (simp add: sint_word_ariths)
  also have "\<dots> = sint b - sint s"
  proof (rule signed_take_bit_int_eq_self)
    show "- (2 ^ 63) \<le> sint b - sint s" and "sint b - sint s < 2 ^ 63"
      using ss assms(1,3) sint_less [of b] by simp_all
  qed
  finally show d: "sint (b - s) = sint b - int k" using ss by simp
  have "4 < b - s \<longleftrightarrow> 4 < uint (b - s)" by (simp add: word_less_def)
  also have "uint (b - s) = (if int k \<le> sint b then sint b - int k else sint b - int k + 2 ^ 64)"
    using uint_sint_cases [of "b - s"] d by simp
  finally have e: "4 < b - s \<longleftrightarrow> 4 < (if int k \<le> sint b then sint b - int k else sint b - int k + 2 ^ 64)" .
  show "4 < b - s \<longleftrightarrow> (int k + 4 < sint b \<or> sint b < int k)"
    using assms(1,3) unfolding e by (cases "int k \<le> sint b") (simp_all, linarith+)
qed

text \<open>\<open>rtattr_next\<close> without machine words: its four outcomes.\<close>

lemma rtattr_next_eq:
  assumes "rta_len m rta = ret l"
  shows "rtattr_next m rta buflen =
    (let s = round_up4 (unat l) in
     if sint buflen \<le> 0 \<or> l = 0 then ret (None, buflen)
     else if int s + 4 < sint buflen \<or> sint buflen < int s
       then ret (Some (rta + s), buflen - word_of_nat s)
     else ret (None, buflen))"
proof -
  note step = buflen_step(2) [OF _ align4_u16 round_up4_u16, of buflen l]
  have s: "word_of_nat (round_up4 (unat l)) = align (ucast l) 4"
    using round_up4_u16 [of l] by (simp add: word_unat_eq_iff unat_of_nat_small)
  show ?thesis
    unfolding rtattr_next_def rtattr_len_def assms
    using step align4_eq_0 [of 0] by (simp add: Let_def align4_eq_0 s)
qed

lemma rtattr_next_ret:
  assumes "snd (rtattr_next m rta buflen) = Inr (Some p, b)"
  obtains l where "rta_len m rta = ret l" and "0 < sint buflen" and "l \<noteq> 0"
    and "p = rta + round_up4 (unat l)" and "sint b = sint buflen - int (round_up4 (unat l))"
proof -
  obtain l where l: "rta_len m rta = ret l"
    using assms by (auto simp: rtattr_next_def rtattr_len_def load16_def load_def split: if_splits)
  show ?thesis
  proof (rule that [OF l])
    show "0 < sint buflen" and "l \<noteq> 0" and "p = rta + round_up4 (unat l)"
      using assms rtattr_next_eq [OF l, of buflen] by (auto simp: Let_def split: if_splits)
    moreover have "b = buflen - word_of_nat (round_up4 (unat l))"
      using assms rtattr_next_eq [OF l, of buflen] by (auto simp: Let_def split: if_splits)
    moreover have "unat (word_of_nat (round_up4 (unat l)) :: u64) = round_up4 (unat l)"
      using round_up4_u16 [of l] by (intro unat_of_nat_small) simp
    ultimately show "sint b = sint buflen - int (round_up4 (unat l))"
      using buflen_step(1) [OF _ _ round_up4_u16, of buflen] by simp
  qed
qed

lemma rtattr_payload_len_eq: "rta_len m a = ret l \<Longrightarrow> rtattr_payload_len m a = ret (ucast l - 4)"
  by (simp add: rtattr_payload_len_def)

lemma unat_payload_len: "4 \<le> unat (l :: u16) \<Longrightarrow> unat (ucast l - 4 :: u64) = unat l - 4"
  by (subst unat_sub) (simp_all add: word_le_nat_alt)

text \<open>A claimed length below the header's size wraps around to an enormous payload.\<close>

lemma unat_payload_len_wrap: "unat (l :: u16) < 4 \<Longrightarrow> 2 ^ 64 - 4 \<le> unat (ucast l - 4 :: u64)"
  by (subst unat_sub_if') (simp add: word_le_nat_alt)

section \<open>The readers\<close>

lemma attr_at_len: "attr_at m a t p \<Longrightarrow> rta_len m a = ret (of_nat (4 + length p))"
  and attr_at_type: "attr_at m a t p \<Longrightarrow> rtattr_type m a = ret t"
  by (auto dest!: attr_at_hdr simp: rtattr_type_def hdr_at_iff)

lemma attr_at_unat_len: "attr_at m a t p \<Longrightarrow> unat (of_nat (4 + length p) :: u16) = 4 + length p"
  by (intro unat_of_nat_small) (simp add: attr_at_def)

lemma attr_at_payload_len:
  assumes "attr_at m a t p"
  shows "rtattr_payload_len m a = ret (of_nat (length p))"
proof -
  have "unat (ucast (of_nat (4 + length p) :: u16) - 4 :: u64) = length p"
    using attr_at_unat_len [OF assms] by (subst unat_payload_len) simp_all
  moreover have "unat (of_nat (length p) :: u64) = length p"
    using assms by (intro unat_of_nat_small) (simp add: attr_at_def)
  ultimately have "ucast (of_nat (4 + length p) :: u16) - 4 = (of_nat (length p) :: u64)"
    by (simp only: word_unat_eq_iff)
  then show ?thesis
    using attr_at_len [OF assms] by (simp add: rtattr_payload_len_def)
qed

lemma read_miss_Exit: "attr_at m a t p \<Longrightarrow> snd (read_miss func m a) = Inl (Exit 1)"
  by (simp add: read_miss_def attr_at_payload_len attr_at_type)

lemma less_payload_len:
  "attr_at m a t p \<Longrightarrow> n < 65536 \<Longrightarrow> (of_nat n :: u64) < of_nat (length p) \<longleftrightarrow> n < length p"
  by (simp add: word_less_nat_alt unat_of_nat_small attr_at_def)

text \<open>
  The contract the four readers share: on an attribute whose header can be read, a payload longer
  than the type is refused, and otherwise the type's bytes are loaded, whatever the payload's length.
\<close>

locale attr_reader =
  fixes read :: "mem \<Rightarrow> nat \<Rightarrow> 'a::len word io" and func :: string and size :: nat
  assumes read_eq: "read m a = io_bind (rtattr_payload_len m a) (\<lambda>n.
      if of_nat size < n then read_miss func m a
      else io_bind (load size m (a + 4)) (\<lambda>v. ret (of_nat v)))"
    and width: "LENGTH('a) = 8 * size"
    and size: "size \<le> 8"
begin

lemma read_attr:
  assumes "attr_at m a t p"
  shows "read m a = (if size < length p then read_miss func m a
    else io_bind (load size m (a + 4)) (\<lambda>v. ret (of_nat v)))"
  using size less_payload_len [OF assms, of size]
  by (simp add: read_eq attr_at_payload_len [OF assms])

lemma refuses_long: "attr_at m a t p \<Longrightarrow> size < length p \<Longrightarrow> snd (read m a) = Inl (Exit 1)"
  by (simp add: read_attr read_miss_Exit)

lemma reads_encoded:
  assumes "attr_at m a t (le_bytes size (unat v))"
  shows "read m a = ret v"
proof -
  have "unat v < 256 ^ size" using unat_word_less [of v] by (simp add: width power_mult)
  then have "le_nat (le_bytes size (unat v)) = unat v" by (rule le_nat_le_bytes_id)
  then show ?thesis
    using attr_at_payload [OF assms] by (simp add: read_attr [OF assms] load_fits)
qed

lemma reads_neighbours:
  assumes "attr_at m a t p" and "length p < size"
  shows "read m a = (if length m < a + 4 + size then stop Read_OOB
    else ret (of_nat (le_nat (p @ take (size - length p) (drop (a + 4 + length p) m)))))"
proof -
  have "take size (drop (a + 4) m) = p @ take (size - length p) (drop (length p) (drop (a + 4) m))"
    using assms attr_at_payload(1) [OF assms(1)] take_add [of "length p" "size - length p" "drop (a + 4) m"]
    by simp
  then show ?thesis
    using assms(2) by (simp add: read_attr [OF assms(1)] load_def add_ac)
qed

end

interpretation r8: attr_reader rtattr_read_8bit "''rtattr_read_8bit''" 1
  by unfold_locales (simp_all add: rtattr_read_8bit_def load8_def rtattr_payload_ptr_def cong: if_cong)

interpretation r16: attr_reader rtattr_read_16bit "''rtattr_read_16bit''" 2
  by unfold_locales (simp_all add: rtattr_read_16bit_def load16_def rtattr_payload_ptr_def cong: if_cong)

interpretation r32: attr_reader rtattr_read_32bit "''rtattr_read_32bit''" 4
  by unfold_locales (simp_all add: rtattr_read_32bit_def load32_def rtattr_payload_ptr_def cong: if_cong)

interpretation r64: attr_reader rtattr_read_64bit "''rtattr_read_64bit''" 8
  by unfold_locales (simp_all add: rtattr_read_64bit_def load64_def rtattr_payload_ptr_def cong: if_cong)

lemma rtattr_read_str_ok:
  assumes "attr_at m a t p" and "length p \<le> n" and "n < 65536" and "load_str m (a + 4) = ret s"
  shows "rtattr_read_str m a str (of_nat n) =
    io_bind (c_snprintf str n s) (\<lambda>str. ret (str, of_nat (round_up4 (length p))))"
proof -
  have "unat (of_nat n :: u64) = n" using assms(3) by (intro unat_of_nat_small) simp
  moreover have "\<not> (of_nat n :: u64) < of_nat (length p)"
    using assms by (subst less_payload_len) auto
  moreover have "align (of_nat (length p)) 4 = of_nat (round_up4 (length p))"
  proof -
    have p: "unat (of_nat (length p) :: u64) = length p"
      using assms(2,3) by (intro unat_of_nat_small) simp
    have "unat (of_nat (round_up4 (length p)) :: u64) = round_up4 (length p)"
      using assms(2,3) round_up4_lt [of "length p"] by (intro unat_of_nat_small) simp
    then show ?thesis using p align4 [of "of_nat (length p)"] assms(2,3) by (simp add: word_unat_eq_iff)
  qed
  ultimately show ?thesis
    using assms by (simp add: rtattr_read_str_def attr_at_payload_len rtattr_payload_ptr_def)
qed

text \<open>The string at a payload: what stands before the first NUL, in the payload or after it.\<close>

lemma load_str_payload:
  assumes "attr_at m a t p" and "0 \<in> set p"
  shows "load_str m (a + 4) = ret (map char_of_byte (takeWhile (\<lambda>b. b \<noteq> 0) p))"
proof -
  have d: "drop (a + 4) m = p @ drop (length p) (drop (a + 4) m)"
    using attr_at_payload(1) [OF assms(1)] by (metis append_take_drop_id)
  then have "takeWhile (\<lambda>b. b \<noteq> 0) (drop (a + 4) m) = takeWhile (\<lambda>b. b \<noteq> 0) p"
    using assms(2) by (subst d) (rule takeWhile_append1, auto)
  moreover have "0 \<in> set (drop (a + 4) m)" using assms(2) by (subst d) simp
  ultimately show ?thesis by (simp add: load_str_def)
qed

lemma load_str_unterminated:
  assumes "attr_at m a t p" and "0 \<notin> set p" and "0 \<in> set (drop (a + 4 + length p) m)"
  shows "load_str m (a + 4) =
    ret (map char_of_byte (p @ takeWhile (\<lambda>c. c \<noteq> 0) (drop (a + 4 + length p) m)))"
proof -
  have d: "drop (a + 4) m = p @ drop (a + 4 + length p) m"
    using attr_at_payload(1) [OF assms(1)] append_take_drop_id [of "length p" "drop (a + 4) m"]
    by (simp add: add_ac)
  have "takeWhile (\<lambda>b. b \<noteq> 0) (drop (a + 4) m) = p @ takeWhile (\<lambda>c. c \<noteq> 0) (drop (a + 4 + length p) m)"
    using assms(2) by (subst d) (rule takeWhile_append2, auto)
  moreover have "0 \<in> set (drop (a + 4) m)" using assms(3) by (subst d) simp
  ultimately show ?thesis by (simp add: load_str_def)
qed

lemma rtattr_read_str_long:
  assumes "attr_at m a t p" and "n < length p"
  shows "snd (rtattr_read_str m a str (of_nat n)) = Inl (Exit 1)"
proof -
  have "(of_nat n :: u64) < of_nat (length p)"
    using assms by (subst less_payload_len [OF assms(1)]) (auto simp: attr_at_def)
  then show ?thesis
    by (simp add: rtattr_read_str_def attr_at_payload_len [OF assms(1)] attr_at_type [OF assms(1)])
qed

lemma rtattr_read_str_c_str:
  assumes "attr_at m a t p" and "length p \<le> n" and "n < 65536" and "load_str m (a + 4) = ret s"
    and "NUL \<notin> set s" and "length str = n" and "0 < n"
  shows "\<exists>b. rtattr_read_str m a str (of_nat n) = ret (b, of_nat (round_up4 (length p))) \<and>
    c_str b = take (n - 1) s \<and> length b = n"
proof -
  obtain b where "c_snprintf str n s = ret b" "c_str b = take (n - 1) s" "length b = length str"
    using assms by (auto intro: c_snprintf_result [of s n str])
  then show ?thesis
    using rtattr_read_str_ok [OF assms(1-4), of str] assms(6) by auto
qed

lemma NUL_notin_bytes [simp]: "0 \<notin> set bs \<Longrightarrow> NUL \<notin> char_of_byte ` set bs"
  by (metis char_of_byte_eq_NUL imageE)

lemma zero_notin_takeWhile [simp]: "0 \<notin> set (takeWhile (\<lambda>b. b \<noteq> (0 :: u8)) bs)"
  by (auto dest: set_takeWhileD)

section \<open>Properties\<close>

text \<open>
  \<open>align\<close> with a power of two below 2 ^ 64 is the least multiple of it that is not less than
  the length, as long as that multiple is computed without wrapping around.
\<close>

theorem align_least_multiple:
  assumes "k < 64" and "unat b + 2 ^ k \<le> 2 ^ 64"
  shows "2 ^ k dvd unat (align b (2 ^ k)) \<and> unat b \<le> unat (align b (2 ^ k)) \<and>
    (\<forall>n. 2 ^ k dvd n \<and> unat b \<le> n \<longrightarrow> unat (align b (2 ^ k)) \<le> n)"
proof -
  let ?r = "unat (align b (2 ^ k))" and ?n = "unat b + (2 ^ k - 1)"
  have r: "?r = 2 ^ k * (?n div 2 ^ k)"
    using align_pow2 [OF refl assms] by (simp only: minus_mod_eq_mult_div)
  have "?n mod 2 ^ k < 2 ^ k" by simp
  then have "unat b \<le> ?r"
    using mult_div_mod_eq [of "2 ^ k" ?n] r by linarith
  moreover have "?r \<le> 2 ^ k * q" if "unat b \<le> 2 ^ k * q" for q
  proof -
    have "?n div 2 ^ k < Suc q"
    proof (rule less_mult_imp_div_less)
      have "2 ^ k - 1 < (2 :: nat) ^ k" and "Suc q * 2 ^ k = 2 ^ k + 2 ^ k * q" by simp_all
      with that show "?n < Suc q * 2 ^ k" by linarith
    qed
    then show ?thesis by (simp add: r)
  qed
  ultimately show ?thesis using r by (auto simp: dvd_def)
qed

theorem align_least_multiple_witness:
  "unat (align 13 (2 ^ 2)) \<le> 16 \<and> 13 \<le> unat (align 13 (2 ^ 2)) \<and> 2 ^ 2 dvd unat (align 13 (2 ^ 2))"
  using align_least_multiple [of 2 13] by simp

text \<open>
  C11: \<open>rtattr_next\<close> on an attribute that claims \<open>l\<close> bytes, \<open>s\<close> after padding. It stops on an empty
  buffer and on a zero length; it goes to the next attribute when more than a header is left behind
  this one, and the count goes down by \<open>s\<close>; it stops when at most a header is left, so a last
  attribute without payload is never visited. On an attribute longer than the buffer it does not
  stop: the unsigned difference wraps around, and it returns a pointer behind the buffer and a
  negative count.
\<close>

theorem rtattr_next_result:
  assumes "rta_len m rta = ret l" and "s = round_up4 (unat l)"
  shows "(sint buflen \<le> 0 \<or> l = 0 \<longrightarrow> rtattr_next m rta buflen = ret (None, buflen)) \<and>
    (l \<noteq> 0 \<and> int s \<le> sint buflen \<and> sint buflen \<le> int s + 4 \<longrightarrow>
       rtattr_next m rta buflen = ret (None, buflen)) \<and>
    (l \<noteq> 0 \<and> int s + 4 < sint buflen \<longrightarrow>
       (\<exists>b. rtattr_next m rta buflen = ret (Some (rta + s), b) \<and> sint b = sint buflen - int s)) \<and>
    (0 < sint buflen \<and> sint buflen < int s \<longrightarrow>
       (\<exists>b. rtattr_next m rta buflen = ret (Some (rta + s), b) \<and> sint b = sint buflen - int s \<and> sint b < 0))"
proof -
  have s: "unat (word_of_nat s :: u64) = s" "s \<le> 65536"
    using round_up4_u16 [of l] assms(2) by (simp_all add: unat_of_nat_small)
  have "l \<noteq> 0 \<longleftrightarrow> unat l \<noteq> 0" by (simp add: word_unat_eq_iff)
  then have "l \<noteq> 0 \<longleftrightarrow> 0 < s" using assms(2) by (simp only: round_up4_eq_0 neq0_conv [symmetric])
  then show ?thesis
    using rtattr_next_eq [OF assms(1), of buflen] buflen_step(1) [OF _ s, of buflen]
    by (auto simp: Let_def simp flip: assms(2))
qed

theorem rtattr_next_result_witness:
  "\<exists>b. rtattr_next (attr 1 [7, 7, 7, 7]) 0 2 = ret (Some 8, b) \<and> sint b = - 6"
proof -
  have "attr_at (attr 1 [7, 7, 7, 7]) 0 1 [7, 7, 7, 7]" by (simp add: attr_at_def)
  then have "rta_len (attr 1 [7, 7, 7, 7]) 0 = ret 8" by (auto dest: attr_at_len)
  from rtattr_next_result [OF this refl, of 2] show ?thesis by (auto simp: round_up4_def)
qed

text \<open>
  An attribute that carries an integer of the reader's width is read back as that integer, by
  each of the four readers.
\<close>

theorem readers_roundtrip:
  "(attr_at m a t (le_bytes 1 (unat v8)) \<longrightarrow> rtattr_read_8bit m a = ret v8) \<and>
   (attr_at m a t (le_bytes 2 (unat v16)) \<longrightarrow> rtattr_read_16bit m a = ret v16) \<and>
   (attr_at m a t (le_bytes 4 (unat v32)) \<longrightarrow> rtattr_read_32bit m a = ret v32) \<and>
   (attr_at m a t (le_bytes 8 (unat v64)) \<longrightarrow> rtattr_read_64bit m a = ret v64)"
  using r8.reads_encoded r16.reads_encoded r32.reads_encoded r64.reads_encoded by blast

theorem readers_roundtrip_witness:
  "rtattr_read_32bit (attr 4 (le_bytes 4 1500)) 0 = ret 1500"
proof -
  have "attr_at (attr 4 (le_bytes 4 (unat (1500 :: u32)))) 0 4 (le_bytes 4 (unat (1500 :: u32)))"
    by (simp add: attr_at_def)
  then have "rtattr_read_32bit (attr 4 (le_bytes 4 (unat (1500 :: u32)))) 0 = ret 1500"
    using readers_roundtrip by blast
  then show ?thesis by simp
qed

text \<open>
  A payload longer than the reader's type ends the program with status 1. A shorter one is not
  refused: the value is then made of the payload and of the bytes that follow it, or the read leaves
  the block.
\<close>

theorem readers_check_one_side:
  assumes "attr_at m a t p"
  shows "(1 < length p \<longrightarrow> snd (rtattr_read_8bit m a) = Inl (Exit 1)) \<and>
    (2 < length p \<longrightarrow> snd (rtattr_read_16bit m a) = Inl (Exit 1)) \<and>
    (4 < length p \<longrightarrow> snd (rtattr_read_32bit m a) = Inl (Exit 1)) \<and>
    (8 < length p \<longrightarrow> snd (rtattr_read_64bit m a) = Inl (Exit 1)) \<and>
    (length p < 4 \<longrightarrow> rtattr_read_32bit m a =
       (if length m < a + 8 then stop Read_OOB
        else ret (of_nat (le_nat (p @ take (4 - length p) (drop (a + 4 + length p) m))))))"
  using assms r8.refuses_long r16.refuses_long r32.refuses_long r64.refuses_long
    r32.reads_neighbours [OF assms] by (simp add: add.assoc)

theorem readers_check_one_side_witness:
  "snd (rtattr_read_16bit (attr 4 [1, 2, 3]) 0) = Inl (Exit 1) \<and>
   rtattr_read_32bit (attr 4 [1, 2, 3] @ [9]) 0 = ret 0x09030201"
proof -
  have "attr_at (attr 4 [1, 2, 3]) 0 4 [1, 2, 3]" "attr_at (attr 4 [1, 2, 3] @ [9]) 0 4 [1, 2, 3]"
    by (simp_all add: attr_at_def)
  then show ?thesis
    using readers_check_one_side [of "attr 4 [1, 2, 3]" 0 4 "[1, 2, 3]"]
      readers_check_one_side [of "attr 4 [1, 2, 3] @ [9]" 0 4 "[1, 2, 3]"]
    by (simp add: attr_def)
qed

text \<open>
  \<open>rtattr_read_str\<close> leaves the payload up to its first NUL in the array, cut to fit, and returns
  the padded payload length; an unterminated payload is not noticed, the string goes on in the
  bytes behind it; a payload longer than the array ends the program with status 1.
\<close>

theorem rtattr_read_str_result:
  assumes "attr_at m a t p" and "length str = n" and "0 < n" and "n < 65536"
  shows "(length p \<le> n \<and> 0 \<in> set p \<longrightarrow>
      (\<exists>b. rtattr_read_str m a str (of_nat n) = ret (b, of_nat (round_up4 (length p))) \<and>
         c_str b = take (n - 1) (map char_of_byte (takeWhile (\<lambda>c. c \<noteq> 0) p)))) \<and>
    (length p \<le> n \<and> 0 \<notin> set p \<and> 0 \<in> set (drop (a + 4 + length p) m) \<longrightarrow>
      (\<exists>b. rtattr_read_str m a str (of_nat n) = ret (b, of_nat (round_up4 (length p))) \<and>
         c_str b = take (n - 1) (map char_of_byte
           (p @ takeWhile (\<lambda>c. c \<noteq> 0) (drop (a + 4 + length p) m))))) \<and>
    (n < length p \<longrightarrow> snd (rtattr_read_str m a str (of_nat n)) = Inl (Exit 1))"
proof (intro conjI impI; (elim conjE)?)
  assume "length p \<le> n" and "0 \<in> set p"
  then show "\<exists>b. rtattr_read_str m a str (of_nat n) = ret (b, of_nat (round_up4 (length p))) \<and>
      c_str b = take (n - 1) (map char_of_byte (takeWhile (\<lambda>c. c \<noteq> 0) p))"
    using rtattr_read_str_c_str [OF assms(1) _ assms(4) load_str_payload [OF assms(1)] _ assms(2,3)]
    by auto
next
  assume "length p \<le> n" and "0 \<notin> set p" and "0 \<in> set (drop (a + 4 + length p) m)"
  then show "\<exists>b. rtattr_read_str m a str (of_nat n) = ret (b, of_nat (round_up4 (length p))) \<and>
      c_str b = take (n - 1) (map char_of_byte (p @ takeWhile (\<lambda>c. c \<noteq> 0) (drop (a + 4 + length p) m)))"
    using rtattr_read_str_c_str [OF assms(1) _ assms(4) load_str_unterminated [OF assms(1)] _ assms(2,3)]
    by auto
qed (rule rtattr_read_str_long [OF assms(1)])

theorem rtattr_read_str_result_witness:
  "(\<exists>b n. rtattr_read_str (attr 1 [0x76, 0x6c, 0]) 0 (c_array 100) 100 = ret (b, n) \<and> c_str b = ''vl'') \<and>
   (\<exists>b n. rtattr_read_str (attr 1 [0x76, 0x6c] @ [0x61, 0]) 0 (c_array 100) 100 = ret (b, n) \<and> c_str b = ''vla'')"
proof -
  have "attr_at (attr 1 [0x76, 0x6c, 0]) 0 1 [0x76, 0x6c, 0]"
    "attr_at (attr 1 [0x76, 0x6c] @ [0x61, 0]) 0 1 [0x76, 0x6c]"
    by (simp_all add: attr_at_def)
  then show ?thesis
    using rtattr_read_str_result [of "attr 1 [0x76, 0x6c, 0]" 0 1 "[0x76, 0x6c, 0]" "c_array 100" 100]
      rtattr_read_str_result [of "attr 1 [0x76, 0x6c] @ [0x61, 0]" 0 1 "[0x76, 0x6c]" "c_array 100" 100]
    by (auto simp: char_of_byte_def attr_def char_of_def bit_0)
qed

end
