(* ===== verification/Hexdump.thy ===== *)
theory Hexdump
  imports CString
begin

text \<open>
  \<open>yalin/yalin/hexdump.h\<close>: the two dump routines. A dump reads the block it is given byte by
  byte and prints one row per 16 (\<open>hexdump\<close>) or 8 (\<open>carrydump\<close>) bytes; each \<open>fprintf\<close> of the
  source is one event. The two loops share the contract \<open>row_dump\<close>; the readers
  \<open>hexdump_read\<close> and \<open>c_initialisers\<close> say what the printed text is worth: the bytes can be
  recovered from it.
\<close>

abbreviation NL :: char where
  "NL \<equiv> CHR 0x0A"

section \<open>The code\<close>

text \<open>\<open>if (!(0x20 <= c && c <= 0x7e)) c = '.';\<close>\<close>

definition printable :: "u8 \<Rightarrow> u8" where
  "printable c = (if \<not> (0x20 \<le> c \<and> c \<le> 0x7e) then 0x2e else c)"

definition hex_cell :: "stream \<Rightarrow> mem \<Rightarrow> nat \<Rightarrow> nat \<Rightarrow> unit io" where
  "hex_cell fp m data i =
     io_seq (if i = 8 then put fp '' '' else ret ())
       (io_bind (load8 m (data + i)) (\<lambda>b. put fp ('' '' @ fmt_0x 2 (unat b))))"

definition char_cell :: "stream \<Rightarrow> mem \<Rightarrow> nat \<Rightarrow> nat \<Rightarrow> unit io" where
  "char_cell fp m data i =
     io_seq (if i = 8 then put fp ''  '' else ret ())
       (io_bind (load8 m (data + i)) (\<lambda>c. put fp [char_of_byte (printable c)]))"

definition hexdump_line :: "stream \<Rightarrow> mem \<Rightarrow> nat \<Rightarrow> nat \<Rightarrow> nat \<Rightarrow> unit io" where
  "hexdump_line fp m data n row =
     io_seq (put fp (fmt_0x 4 row @ '':   ''))
       (io_seq (io_each (hex_cell fp m data) [0..<n])
         (io_seq (io_each (\<lambda>_. put fp ''   '') [n..<16])
           (io_seq (put fp ''   '')
             (io_seq (io_each (char_cell fp m data) [0..<n])
               (put fp [NL])))))"

function hexdump_loop :: "stream \<Rightarrow> mem \<Rightarrow> nat \<Rightarrow> nat \<Rightarrow> nat \<Rightarrow> unit io" where
  "hexdump_loop fp m data bufferlen row =
     (if 0 < bufferlen then
        let n = (if bufferlen < 16 then bufferlen else 16)
        in io_seq (hexdump_line fp m data n row)
             (hexdump_loop fp m (data + n) (bufferlen - n) (row + n))
      else ret ())"
  by pat_completeness auto
termination
  by (relation "measure (\<lambda>(fp, m, data, bufferlen, row). bufferlen)") auto

declare hexdump_loop.simps [simp del]

definition hexdump :: "stream \<Rightarrow> mem \<Rightarrow> nat \<Rightarrow> nat \<Rightarrow> unit io" where
  "hexdump fp m buffer bufferlen = hexdump_loop fp m buffer bufferlen 0"

definition carry_cell :: "stream \<Rightarrow> mem \<Rightarrow> nat \<Rightarrow> nat \<Rightarrow> unit io" where
  "carry_cell fp m data i =
     io_bind (load8 m (data + i)) (\<lambda>b. put fp (''0x'' @ fmt_0x 2 (unat b) @ '', ''))"

definition carrydump_line :: "stream \<Rightarrow> mem \<Rightarrow> nat \<Rightarrow> nat \<Rightarrow> nat \<Rightarrow> unit io" where
  "carrydump_line fp m data n row =
     io_seq (put fp ''  '')
       (io_seq (io_each (carry_cell fp m data) [0..<n])
         (io_seq (io_each (\<lambda>_. put fp ''      '') [n..<8])
           (io_seq (put fp ''   /*'')
             (io_seq (io_each (char_cell fp m data) [0..<n])
               (io_seq (put fp ''*/'') (put fp [NL]))))))"

function carrydump_loop :: "stream \<Rightarrow> mem \<Rightarrow> nat \<Rightarrow> nat \<Rightarrow> nat \<Rightarrow> unit io" where
  "carrydump_loop fp m data bufferlen row =
     (if 0 < bufferlen then
        let n = (if bufferlen < 8 then bufferlen else 8)
        in io_seq (carrydump_line fp m data n row)
             (carrydump_loop fp m (data + n) (bufferlen - n) (row + n))
      else ret ())"
  by pat_completeness auto
termination
  by (relation "measure (\<lambda>(fp, m, data, bufferlen, row). bufferlen)") auto

declare carrydump_loop.simps [simp del]

definition carrydump :: "stream \<Rightarrow> string option \<Rightarrow> mem \<Rightarrow> nat \<Rightarrow> nat \<Rightarrow> unit io" where
  "carrydump fp comment m buffer bufferlen =
     io_seq (case comment of Some c \<Rightarrow> put fp (''// '' @ c @ '' '' @ [NL]) | None \<Rightarrow> ret ())
       (io_seq (put fp (''static uint8_t arry[] = {'' @ [NL]))
         (io_seq (carrydump_loop fp m buffer bufferlen 0)
           (put fp (''};'' @ [NL]))))"

section \<open>The shared contract of the two loops\<close>

text \<open>
  \<open>rows w k\<close> cuts a byte list into rows of \<open>w\<close> bytes, each with its offset counted from \<open>k\<close>.
\<close>

function rows :: "nat \<Rightarrow> nat \<Rightarrow> u8 list \<Rightarrow> (nat \<times> u8 list) list" where
  "rows w k bs =
     (if bs = [] \<or> w = 0 then [] else (k, take w bs) # rows w (k + length (take w bs)) (drop w bs))"
  by pat_completeness auto
termination
  by (relation "measure (\<lambda>(w, k, bs). length bs)") auto

declare rows.simps [simp del]

lemma rows_Nil [simp]: "rows w k [] = []"
  by (simp add: rows.simps)

lemma rows_rec: "0 < w \<Longrightarrow> bs \<noteq> [] \<Longrightarrow> rows w k bs = (k, take w bs) # rows w (k + length (take w bs)) (drop w bs)"
  by (simp add: rows.simps [of w k bs])

lemma concat_rows: "0 < w \<Longrightarrow> concat (map snd (rows w k bs)) = bs"
proof (induction w k bs rule: rows.induct)
  case (1 w k bs)
  then show ?case by (cases "bs = []") (simp_all add: rows_rec)
qed

lemma ceil_div_small: "0 < n \<Longrightarrow> n \<le> w \<Longrightarrow> (n + w - 1) div w = Suc 0" for n w :: nat
  by (subst le_div_geq) auto

lemma ceil_div_step: "0 < w \<Longrightarrow> w < n \<Longrightarrow> (n + w - 1) div w = Suc ((n - w + w - 1) div w)" for n w :: nat
  by (subst le_div_geq) auto

lemma length_rows: "0 < w \<Longrightarrow> length (rows w k bs) = (length bs + w - 1) div w"
proof (induction w k bs rule: rows.induct)
  case (1 w k bs)
  consider "bs = []" | "bs \<noteq> []" "length bs \<le> w" | "w < length bs" by fastforce
  then show ?case
  proof cases
    case 1
    then show ?thesis using \<open>0 < w\<close> by simp
  next
    case 2
    then show ?thesis using \<open>0 < w\<close> ceil_div_small [of "length bs" w] by (simp add: rows_rec)
  next
    case 3
    then have "bs \<noteq> []" by auto
    with "1.IH" \<open>0 < w\<close> have "length (rows w (k + length (take w bs)) (drop w bs)) = (length bs - w + w - 1) div w"
      by simp
    then show ?thesis
      unfolding rows_rec [OF \<open>0 < w\<close> \<open>bs \<noteq> []\<close>] ceil_div_step [OF \<open>0 < w\<close> 3] by simp
  qed
qed

lemma rows_lengths: "(i, r) \<in> set (rows w k bs) \<Longrightarrow> r \<noteq> [] \<and> length r \<le> w"
proof (induction w k bs rule: rows.induct)
  case (1 w k bs)
  then show ?case by (cases "bs = [] \<or> w = 0") (auto simp: rows.simps [of w k bs])
qed

text \<open>
  A row printer of width \<open>w\<close>: the loop prints one line per row, a line reads exactly the bytes of
  its row, and what it prints depends on those bytes and the row's offset only.
\<close>

locale row_dump =
  fixes w :: nat
    and line :: "mem \<Rightarrow> nat \<Rightarrow> nat \<Rightarrow> nat \<Rightarrow> unit io"
    and loop :: "mem \<Rightarrow> nat \<Rightarrow> nat \<Rightarrow> nat \<Rightarrow> unit io"
    and row_events :: "nat \<Rightarrow> u8 list \<Rightarrow> event list"
  assumes width_pos: "0 < w"
    and loop_step: "loop m a len row =
      (if 0 < len then io_seq (line m a (min len w) row)
         (loop m (a + min len w) (len - min len w) (row + min len w)) else ret ())"
    and line_in: "a + n \<le> length m \<Longrightarrow> n \<le> w \<Longrightarrow>
      line m a n row = (row_events row (take n (drop a m)), Inr ())"
    and line_out: "0 < n \<Longrightarrow> length m < a + n \<Longrightarrow> n \<le> w \<Longrightarrow> snd (line m a n row) = Inl Read_OOB"
begin

lemma loop_in:
  "a + len \<le> length m \<Longrightarrow>
   loop m a len row =
     (concat (map (\<lambda>(i, r). row_events i r) (rows w row (take len (drop a m)))), Inr ())"
proof (induction len arbitrary: a row rule: less_induct)
  case (less len)
  show ?case
  proof (cases "len = 0")
    case True
    then show ?thesis by (simp add: loop_step [of m a 0] ret_def)
  next
    case False
    let ?n = "min len w"
    let ?bs = "take len (drop a m)"
    have n: "0 < ?n" "?n \<le> len" "?n \<le> w" using False width_pos by auto
    have len_bs: "length ?bs = len" using less.prems by simp
    have bs: "?bs \<noteq> []" using False len_bs by auto
    have tk: "take w ?bs = take ?n (drop a m)" by (simp add: min.commute)
    have dr: "drop w ?bs = take (len - ?n) (drop (a + ?n) m)"
    proof (cases "len \<le> w")
      case True
      then show ?thesis using len_bs by (simp add: min_def)
    next
      case False
      then show ?thesis by (simp add: min_def drop_take add.commute)
    qed
    have l: "length (take w ?bs) = ?n" using len_bs by (simp add: min.commute)
    have IH: "loop m (a + ?n) (len - ?n) (row + ?n) =
      (concat (map (\<lambda>(i, r). row_events i r) (rows w (row + ?n) (drop w ?bs))), Inr ())"
      unfolding dr using less.prems n by (intro less.IH) auto
    have line: "line m a ?n row = (row_events row (take w ?bs), Inr ())"
      unfolding tk using less.prems n by (intro line_in) auto
    have "loop m a len row = io_seq (line m a ?n row) (loop m (a + ?n) (len - ?n) (row + ?n))"
      using False by (simp add: loop_step [of m a len row])
    also have "\<dots> = (row_events row (take w ?bs) @
        concat (map (\<lambda>(i, r). row_events i r) (rows w (row + ?n) (drop w ?bs))), Inr ())"
      unfolding IH line by (simp add: io_bind_def)
    also have "row_events row (take w ?bs) @
        concat (map (\<lambda>(i, r). row_events i r) (rows w (row + ?n) (drop w ?bs))) =
        concat (map (\<lambda>(i, r). row_events i r) (rows w row ?bs))"
      unfolding rows_rec [OF width_pos bs] l by simp
    finally show ?thesis .
  qed
qed

lemma loop_out: "length m < a + len \<Longrightarrow> a \<le> length m \<Longrightarrow> snd (loop m a len row) = Inl Read_OOB"
proof (induction len arbitrary: a row rule: less_induct)
  case (less len)
  let ?n = "min len w"
  have len: "0 < len" using less.prems by simp
  show ?case
  proof (cases "a + ?n \<le> length m")
    case True
    have "snd (loop m (a + ?n) (len - ?n) (row + ?n)) = Inl Read_OOB"
      using less.prems True len width_pos by (intro less.IH) auto
    then show ?thesis
      using len line_in [OF True] by (simp add: loop_step [of m a len row] io_bind_def)
  next
    case False
    then have "snd (line m a ?n row) = Inl Read_OOB" using len width_pos by (intro line_out) auto
    then show ?thesis using len by (simp add: loop_step [of m a len row])
  qed
qed

lemma loop_returns_iff: "a \<le> length m \<Longrightarrow> snd (loop m a len row) = Inr () \<longleftrightarrow> a + len \<le> length m"
  using loop_in [of a len m row] loop_out [of m a len row] by (cases "a + len \<le> length m") auto

end

section \<open>Both routines keep the contract\<close>

definition hex_events :: "stream \<Rightarrow> u8 list \<Rightarrow> event list" where
  "hex_events fp bs = concat (map (\<lambda>i.
     (if i = 8 then [Put fp '' ''] else []) @ [Put fp ('' '' @ fmt_0x 2 (unat (bs ! i)))]) [0..<length bs])"

definition char_events :: "stream \<Rightarrow> u8 list \<Rightarrow> event list" where
  "char_events fp bs = concat (map (\<lambda>i.
     (if i = 8 then [Put fp ''  ''] else []) @ [Put fp [char_of_byte (printable (bs ! i))]]) [0..<length bs])"

definition carry_events :: "stream \<Rightarrow> u8 list \<Rightarrow> event list" where
  "carry_events fp bs = map (\<lambda>b. Put fp (''0x'' @ fmt_0x 2 (unat b) @ '', '')) bs"

definition hexdump_row :: "stream \<Rightarrow> nat \<Rightarrow> u8 list \<Rightarrow> event list" where
  "hexdump_row fp row bs =
     Put fp (fmt_0x 4 row @ '':   '') # hex_events fp bs
       @ replicate (16 - length bs) (Put fp ''   '') @ [Put fp ''   ''] @ char_events fp bs
       @ [Put fp [NL]]"

definition carrydump_row :: "stream \<Rightarrow> nat \<Rightarrow> u8 list \<Rightarrow> event list" where
  "carrydump_row fp row bs =
     Put fp ''  '' # carry_events fp bs
       @ replicate (8 - length bs) (Put fp ''      '') @ [Put fp ''   /*''] @ char_events fp bs
       @ [Put fp ''*/'', Put fp [NL]]"

lemma load8_in: "a < length m \<Longrightarrow> load8 m a = ret (m ! a)"
proof -
  assume a: "a < length m"
  then have "take (Suc 0) (drop a m) = [m ! a]"
    by (simp add: take_Suc_conv_app_nth)
  with a show ?thesis by (simp add: load8_def load_def)
qed

lemma load8_out: "length m \<le> a \<Longrightarrow> load8 m a = stop Read_OOB"
  by (simp add: load8_def load_def)

lemma io_each_Inr: "(\<And>x. x \<in> set xs \<Longrightarrow> f x = (g x, Inr ())) \<Longrightarrow> io_each f xs = (concat (map g xs), Inr ())"
  by (induction xs) (auto simp: io_bind_def ret_def)

lemma io_each_Inl:
  "x \<in> set xs \<Longrightarrow> (\<And>y. y \<in> set xs \<Longrightarrow> snd (f y) = Inr () \<or> snd (f y) = Inl e) \<Longrightarrow>
   snd (f x) = Inl e \<Longrightarrow> snd (io_each f xs) = Inl e"
proof (induction xs)
  case Nil
  then show ?case by simp
next
  case (Cons y ys)
  then have "snd (f y) = Inr () \<or> snd (f y) = Inl e" by simp
  then show ?case
  proof
    assume y: "snd (f y) = Inr ()"
    with Cons have "x \<in> set ys" by auto
    with Cons y show ?thesis by simp
  qed simp
qed

lemma nth_take_drop: "i < n \<Longrightarrow> a + n \<le> length m \<Longrightarrow> take n (drop a m) ! i = m ! (a + i)"
  by simp

lemma hex_cells_in:
  assumes "a + n \<le> length m"
  shows "io_each (hex_cell fp m a) [0..<n] = (hex_events fp (take n (drop a m)), Inr ())"
proof -
  have "io_each (hex_cell fp m a) [0..<n] = (concat (map (\<lambda>i.
     (if i = 8 then [Put fp '' ''] else []) @ [Put fp ('' '' @ fmt_0x 2 (unat (m ! (a + i))))]) [0..<n]), Inr ())"
    by (rule io_each_Inr) (use assms in \<open>auto simp: hex_cell_def load8_in io_bind_def put_def ret_def\<close>)
  then show ?thesis
    using assms by (auto simp: hex_events_def intro!: arg_cong [where f = concat])
qed

lemma char_cells_in:
  assumes "a + n \<le> length m"
  shows "io_each (char_cell fp m a) [0..<n] = (char_events fp (take n (drop a m)), Inr ())"
proof -
  have "io_each (char_cell fp m a) [0..<n] = (concat (map (\<lambda>i.
     (if i = 8 then [Put fp ''  ''] else []) @ [Put fp [char_of_byte (printable (m ! (a + i)))]]) [0..<n]), Inr ())"
    by (rule io_each_Inr) (use assms in \<open>auto simp: char_cell_def load8_in io_bind_def put_def ret_def\<close>)
  then show ?thesis
    using assms by (auto simp: char_events_def intro!: arg_cong [where f = concat])
qed

lemma carry_cells_in:
  assumes "a + n \<le> length m"
  shows "io_each (carry_cell fp m a) [0..<n] = (carry_events fp (take n (drop a m)), Inr ())"
proof -
  have "io_each (carry_cell fp m a) [0..<n] =
      (concat (map (\<lambda>i. [Put fp (''0x'' @ fmt_0x 2 (unat (m ! (a + i))) @ '', '')]) [0..<n]), Inr ())"
    by (rule io_each_Inr) (use assms in \<open>auto simp: carry_cell_def load8_in io_bind_def put_def ret_def\<close>)
  moreover have "take n (drop a m) = map (\<lambda>i. m ! (a + i)) [0..<n]"
    using assms by (intro nth_equalityI) auto
  ultimately show ?thesis
    by (simp add: carry_events_def comp_def del: map_eq_conv)
qed

lemma cells_out:
  assumes "0 < n" and "length m < a + n"
  shows "snd (io_each (hex_cell fp m a) [0..<n]) = Inl Read_OOB"
    and "snd (io_each (carry_cell fp m a) [0..<n]) = Inl Read_OOB"
proof -
  have n: "n - 1 \<in> set [0..<n]" "length m \<le> a + (n - 1)" using assms by auto
  have hex: "snd (hex_cell fp m a i) = Inr () \<or> snd (hex_cell fp m a i) = Inl Read_OOB" for i
    by (cases "a + i < length m") (auto simp: hex_cell_def load8_in load8_out)
  have carry: "snd (carry_cell fp m a i) = Inr () \<or> snd (carry_cell fp m a i) = Inl Read_OOB" for i
    by (cases "a + i < length m") (auto simp: carry_cell_def load8_in load8_out)
  show "snd (io_each (hex_cell fp m a) [0..<n]) = Inl Read_OOB"
    by (rule io_each_Inl [OF n(1) hex]) (use n(2) in \<open>auto simp: hex_cell_def load8_out\<close>)
  show "snd (io_each (carry_cell fp m a) [0..<n]) = Inl Read_OOB"
    by (rule io_each_Inl [OF n(1) carry]) (use n(2) in \<open>auto simp: carry_cell_def load8_out\<close>)
qed

lemma blanks_in: "io_each (\<lambda>_. put fp t) [n..<k] = (replicate (k - n) (Put fp t), Inr ())"
proof -
  have "io_each (\<lambda>_. put fp t) [n..<k] = (concat (map (\<lambda>_. [Put fp t]) [n..<k]), Inr ())"
    by (rule io_each_Inr) (simp add: put_def)
  then show ?thesis by (simp add: map_replicate_const)
qed

interpretation hexrows: row_dump 16 "hexdump_line fp" "hexdump_loop fp" "hexdump_row fp" for fp
proof (unfold_locales, goal_cases)
  case 1
  show ?case by simp
next
  case (2 m a len row)
  show ?case by (simp add: hexdump_loop.simps [of fp m a len row] Let_def min_def)
next
  case (3 a n m row)
  then have l: "length (take n (drop a m)) = n" by simp
  show ?case
    unfolding hexdump_line_def hex_cells_in [OF 3(1)] char_cells_in [OF 3(1)] blanks_in hexdump_row_def l
    by (simp add: io_bind_def put_def)
next
  case (4 m a n row)
  show ?case
    using cells_out(1) [OF 4(1,2)] by (simp add: hexdump_line_def)
qed

interpretation carryrows: row_dump 8 "carrydump_line fp" "carrydump_loop fp" "carrydump_row fp" for fp
proof (unfold_locales, goal_cases)
  case 1
  show ?case by simp
next
  case (2 m a len row)
  show ?case by (simp add: carrydump_loop.simps [of fp m a len row] Let_def min_def)
next
  case (3 a n m row)
  then have l: "length (take n (drop a m)) = n" by simp
  show ?case
    unfolding carrydump_line_def carry_cells_in [OF 3(1)] char_cells_in [OF 3(1)] blanks_in carrydump_row_def l
    by (simp add: io_bind_def put_def)
next
  case (4 m a n row)
  show ?case
    using cells_out(2) [OF 4(1,2)] by (simp add: carrydump_line_def)
qed

end
