(* ===== verification/Dump_Text.thy ===== *)
theory Dump_Text
  imports Hexdump
begin

text \<open>
  What the dumps of \<open>hexdump.h\<close> are worth: readers of the printed text that recover the dumped
  bytes. \<open>hexdump_read\<close> reads the hex column of every row back; \<open>c_initialisers\<close> is the part of a
  C lexer that \<open>carrydump\<close> is written for (comments stripped, \<open>0xhh\<close> tokens collected).
\<close>

section \<open>Two hex digits\<close>

definition hex_pair :: "char \<Rightarrow> char \<Rightarrow> u8" where
  "hex_pair h l = of_nat (parse_radix 16 [h, l])"

lemma unat_less_256 [simp]: "unat (b :: u8) < 256"
  using unsigned_less [of b] by simp

lemma fmt_byte_cases:
  fixes b :: u8
  obtains h l where "fmt_0x 2 (unat b) = [h, l]" and "hex_pair h l = b"
    and "h \<in> hexdigit ` {..<16}" and "l \<in> hexdigit ` {..<16}"
proof -
  have len: "length (fmt_0x 2 (unat b)) = 2" by (rule length_fmt_0x) simp_all
  then obtain h l where hl: "fmt_0x 2 (unat b) = [h, l]"
    by (auto simp: length_Suc_conv numeral_2_eq_2)
  have "set (fmt_0x 2 (unat b)) \<subseteq> hexdigit ` {..<16}"
  proof -
    have "CHR ''0'' = hexdigit 0" by (simp add: hexdigit_def)
    then show ?thesis using radix_set [of 16 "unat b"] by (auto simp: fmt_0x_def pad0_def)
  qed
  moreover have "hex_pair h l = b"
    using parse_fmt_0x [of 2 "unat b"] by (simp add: hex_pair_def hl)
  ultimately show ?thesis using that hl by simp
qed

lemma not_hexdigit:
  "CHR '' '' \<notin> hexdigit ` {..<16}" "CHR '':'' \<notin> hexdigit ` {..<16}"
  "CHR ''/'' \<notin> hexdigit ` {..<16}" "NL \<notin> hexdigit ` {..<16}" "CHR ''x'' \<notin> hexdigit ` {..<16}"
proof -
  have "\<forall>d \<in> set [0..<16]. hexdigit d \<notin> set [CHR '' '', CHR '':'', CHR ''/'', NL, CHR ''x'']"
    by code_simp
  then show "CHR '' '' \<notin> hexdigit ` {..<16}" "CHR '':'' \<notin> hexdigit ` {..<16}"
    "CHR ''/'' \<notin> hexdigit ` {..<16}" "NL \<notin> hexdigit ` {..<16}" "CHR ''x'' \<notin> hexdigit ` {..<16}"
    by force+
qed

lemma fmt_0x_set: "set (fmt_0x w n) \<subseteq> hexdigit ` {..<16}"
proof -
  have "CHR ''0'' = hexdigit 0" by (simp add: hexdigit_def)
  then show ?thesis using radix_set [of 16 n] by (auto simp: fmt_0x_def pad0_def)
qed

lemma fmt_0x_notin [simp]:
  "CHR '' '' \<notin> set (fmt_0x w n)" "CHR '':'' \<notin> set (fmt_0x w n)" "CHR ''/'' \<notin> set (fmt_0x w n)"
  "NL \<notin> set (fmt_0x w n)"
  using fmt_0x_set [of w n] not_hexdigit by blast+

lemma printable_range: "0x20 \<le> printable c \<and> printable c \<le> 0x7e"
proof -
  have "0x20 \<le> (0x2e :: u8)" and "(0x2e :: u8) \<le> 0x7e" by simp_all
  then show ?thesis by (simp add: printable_def)
qed

lemma char_printable_neq_NL [simp]: "char_of_byte (printable c) \<noteq> NL"
proof
  assume "char_of_byte (printable c) = NL"
  moreover have "char_of_byte 10 = NL" by code_simp
  ultimately have "char_of_byte (printable c) = char_of_byte 10" by simp
  then have "printable c = 10" by simp
  then show False using printable_range [of c] by simp
qed

section \<open>Events as text\<close>

lemma map_nth_enumerate:
  "map (\<lambda>i. f i (bs ! i)) [0..<length bs] = map (\<lambda>(i, b). f i b) (enumerate 0 bs)"
  by (rule nth_equalityI) (simp_all add: nth_enumerate_eq)

fun hex_text :: "nat \<Rightarrow> u8 list \<Rightarrow> string" where
  "hex_text k [] = []"
| "hex_text k (b # bs) =
     (if k = 8 then '' '' else []) @ '' '' @ fmt_0x 2 (unat b) @ hex_text (Suc k) bs"

fun char_text :: "nat \<Rightarrow> u8 list \<Rightarrow> string" where
  "char_text k [] = []"
| "char_text k (b # bs) =
     (if k = 8 then ''  '' else []) @ char_of_byte (printable b) # char_text (Suc k) bs"

definition carry_text :: "u8 list \<Rightarrow> string" where
  "carry_text bs = concat (map (\<lambda>b. ''0x'' @ fmt_0x 2 (unat b) @ '', '') bs)"

lemma text_hex_events: "text_on fp (hex_events fp bs) = hex_text 0 bs"
proof -
  have "text_on fp (concat (map (\<lambda>(i, b).
      (if i = 8 then [Put fp '' ''] else []) @ [Put fp ('' '' @ fmt_0x 2 (unat b))]) (enumerate k bs)))
    = hex_text k bs" for k
    by (induction bs arbitrary: k) auto
  then show ?thesis by (simp only: hex_events_def map_nth_enumerate
    [where f = "\<lambda>i b. (if i = 8 then [Put fp '' ''] else []) @ [Put fp ('' '' @ fmt_0x 2 (unat b))]"])
qed

lemma text_char_events: "text_on fp (char_events fp bs) = char_text 0 bs"
proof -
  have "text_on fp (concat (map (\<lambda>(i, b).
      (if i = 8 then [Put fp ''  ''] else []) @ [Put fp [char_of_byte (printable b)]]) (enumerate k bs)))
    = char_text k bs" for k
    by (induction bs arbitrary: k) auto
  then show ?thesis by (simp only: char_events_def map_nth_enumerate
    [where f = "\<lambda>i b. (if i = 8 then [Put fp ''  ''] else []) @ [Put fp [char_of_byte (printable b)]]"])
qed

lemma text_carry_events: "text_on fp (carry_events fp bs) = carry_text bs"
  by (induction bs) (auto simp: carry_events_def carry_text_def)

lemma text_replicate: "text_on fp (replicate n (Put fp t)) = concat (replicate n t)"
  by (induction n) auto

lemma NL_notin_text [simp]: "NL \<notin> set (hex_text k bs)" "NL \<notin> set (char_text k bs)"
proof -
  show "NL \<notin> set (hex_text k bs)" by (induction k bs rule: hex_text.induct) auto
  show "NL \<notin> set (char_text k bs)"
    by (induction k bs rule: char_text.induct) (auto dest: sym [of NL] simp: eq_commute [of NL])
qed

definition hexdump_row_text :: "nat \<Rightarrow> u8 list \<Rightarrow> string" where
  "hexdump_row_text row bs =
     fmt_0x 4 row @ '':   '' @ hex_text 0 bs @ concat (replicate (16 - length bs) ''   '')
       @ ''   '' @ char_text 0 bs"

definition carrydump_row_text :: "u8 list \<Rightarrow> string" where
  "carrydump_row_text bs =
     ''  '' @ carry_text bs @ concat (replicate (8 - length bs) ''      '') @ ''   /*''
       @ char_text 0 bs @ ''*/'' @ [NL]"

lemma text_hexdump_row: "text_on fp (hexdump_row fp row bs) = hexdump_row_text row bs @ [NL]"
  by (simp add: hexdump_row_def hexdump_row_text_def text_hex_events text_char_events text_replicate)

lemma text_carrydump_row: "text_on fp (carrydump_row fp row bs) = carrydump_row_text bs"
  by (simp add: carrydump_row_def carrydump_row_text_def text_carry_events text_char_events text_replicate)

section \<open>Reading a hexdump back\<close>

text \<open>A cell is one or two spaces and two hex digits; three spaces end the hex column.\<close>

fun hex_cells_read :: "string \<Rightarrow> u8 list" where
  "hex_cells_read (a # b # c # r) =
     (if a = CHR '' '' \<and> b \<noteq> CHR '' '' then hex_pair b c # hex_cells_read r
      else if a = CHR '' '' \<and> c \<noteq> CHR '' '' then
        (case r of d # r' \<Rightarrow> hex_pair c d # hex_cells_read r' | [] \<Rightarrow> [])
      else [])"
| "hex_cells_read r = []"

definition hexdump_row_read :: "string \<Rightarrow> u8 list" where
  "hexdump_row_read line = hex_cells_read (drop 4 (dropWhile (\<lambda>c. c \<noteq> CHR '':'') line))"

function hexdump_read :: "string \<Rightarrow> u8 list" where
  "hexdump_read t =
     (if t = [] then []
      else hexdump_row_read (takeWhile (\<lambda>c. c \<noteq> NL) t)
        @ hexdump_read (drop 1 (dropWhile (\<lambda>c. c \<noteq> NL) t)))"
  by pat_completeness auto
termination
proof (relation "measure length", simp)
  fix t :: string
  assume "t \<noteq> []"
  moreover have "length (dropWhile (\<lambda>c. c \<noteq> NL) t) \<le> length t" by (rule length_dropWhile_le)
  ultimately show "(drop 1 (dropWhile (\<lambda>c. c \<noteq> NL) t), t) \<in> measure length"
    by (cases t) auto
qed

declare hexdump_read.simps [simp del]

lemma hex_cells_read_cell1:
  "h \<noteq> CHR '' '' \<Longrightarrow> hex_cells_read (CHR '' '' # h # l # r) = hex_pair h l # hex_cells_read r"
  by simp

lemma hex_cells_read_cell2:
  "h \<noteq> CHR '' '' \<Longrightarrow> hex_cells_read (CHR '' '' # CHR '' '' # h # l # r) = hex_pair h l # hex_cells_read r"
  by simp

lemma hex_cells_read_text: "hex_cells_read (hex_text k bs @ ''   '' @ r) = bs"
proof (induction bs arbitrary: k)
  case Nil
  then show ?case by simp
next
  case (Cons b bs)
  obtain h l where hl: "fmt_0x 2 (unat b) = [h, l]" "hex_pair h l = b" "h \<in> hexdigit ` {..<16}"
    by (rule fmt_byte_cases)
  then have "h \<noteq> CHR '' ''" using not_hexdigit(1) by blast
  then show ?case
    using hl Cons by (simp del: hex_cells_read.simps add: hex_cells_read_cell1 hex_cells_read_cell2)
qed

lemma concat_replicate_assoc: "concat (replicate n xs) @ xs = xs @ concat (replicate n xs)"
  by (induction n) auto

lemma hexdump_row_read_text: "hexdump_row_read (hexdump_row_text row bs) = bs"
proof -
  have "dropWhile (\<lambda>c. c \<noteq> CHR '':'') (fmt_0x 4 row @ CHR '':'' # t) = CHR '':'' # t" for t
    by (subst dropWhile_append2) (auto dest: fmt_0x_notin(2) [THEN notE])
  moreover have "hex_cells_read (hex_text 0 bs @ concat (replicate k ''   '') @ ''   '' @ t) = bs" for k t
    using hex_cells_read_text [of 0 bs "concat (replicate k ''   '') @ t"]
      concat_replicate_assoc [of k "''   ''"]
    by (metis append.assoc)
  ultimately show ?thesis
    by (simp add: hexdump_row_read_def hexdump_row_text_def)
qed

lemma NL_notin_hexdump_row [simp]: "NL \<notin> set (hexdump_row_text row bs)"
  by (auto simp: hexdump_row_text_def)

lemma hexdump_read_line:
  "NL \<notin> set l \<Longrightarrow> hexdump_read (l @ NL # t) = hexdump_row_read l @ hexdump_read t"
proof -
  assume l: "NL \<notin> set l"
  then have "takeWhile (\<lambda>c. c \<noteq> NL) (l @ NL # t) = l"
    by (intro takeWhile_append_stop) auto
  moreover have "dropWhile (\<lambda>c. c \<noteq> NL) (l @ NL # t) = NL # t"
    using l by (subst dropWhile_append2) auto
  ultimately show ?thesis by (simp add: hexdump_read.simps [of "l @ NL # t"])
qed

lemma hexdump_read_rows:
  "hexdump_read (concat (map (\<lambda>(i, r). hexdump_row_text i r @ [NL]) rs)) = concat (map snd rs)"
proof (induction rs)
  case Nil
  then show ?case by (simp add: hexdump_read.simps)
next
  case (Cons ir rs)
  then show ?case
    by (cases ir) (simp add: hexdump_read_line hexdump_row_read_text)
qed

lemma hexdump_text:
  assumes "a + n \<le> length m"
  shows "hexdump fp m a n = (concat (map (\<lambda>(i, r). hexdump_row fp i r) (rows 16 0 (take n (drop a m)))), Inr ())"
    and "text_on fp (fst (hexdump fp m a n)) =
      concat (map (\<lambda>(i, r). hexdump_row_text i r @ [NL]) (rows 16 0 (take n (drop a m))))"
proof -
  show *: "hexdump fp m a n = (concat (map (\<lambda>(i, r). hexdump_row fp i r) (rows 16 0 (take n (drop a m)))), Inr ())"
    unfolding hexdump_def by (rule hexrows.loop_in [OF assms])
  have "text_on fp (case p of (i, r) \<Rightarrow> hexdump_row fp i r) = (case p of (i, r) \<Rightarrow> hexdump_row_text i r @ [NL])" for p
    by (cases p) (simp add: text_hexdump_row)
  then show "text_on fp (fst (hexdump fp m a n)) =
      concat (map (\<lambda>(i, r). hexdump_row_text i r @ [NL]) (rows 16 0 (take n (drop a m))))"
    by (simp add: * text_on_concat comp_def)
qed

lemma count_NL: "count_list (concat (map (\<lambda>(i, r). hexdump_row_text i r @ [NL]) rs)) NL = length rs"
proof (induction rs)
  case Nil
  then show ?case by simp
next
  case (Cons ir rs)
  have "count_list (hexdump_row_text (fst ir) (snd ir)) NL = 0"
    by (simp add: count_list_0_iff)
  with Cons show ?case by (cases ir) (simp add: count_list_append)
qed

section \<open>Reading the generated C array back\<close>

text \<open>
  The lexing of C text as far as it matters here: \<open>//\<close> comments run to the end of the line,
  \<open>/*\<close> comments to the first \<open>*/\<close>, and every \<open>0xhh\<close> outside a comment is one initialiser.
\<close>

datatype lex_state = In_code | In_block | In_line

fun strip_comments :: "lex_state \<Rightarrow> string \<Rightarrow> string" where
  "strip_comments In_code (a # b # r) =
     (if a = CHR ''/'' \<and> b = CHR ''*'' then strip_comments In_block r
      else if a = CHR ''/'' \<and> b = CHR ''/'' then strip_comments In_line r
      else a # strip_comments In_code (b # r))"
| "strip_comments In_block (a # b # r) =
     (if a = CHR ''*'' \<and> b = CHR ''/'' then CHR '' '' # strip_comments In_code r
      else strip_comments In_block (b # r))"
| "strip_comments In_line (a # r) =
     (if a = NL then NL # strip_comments In_code r else strip_comments In_line r)"
| "strip_comments In_code r = r"
| "strip_comments s r = []"

fun initialisers :: "string \<Rightarrow> u8 list" where
  "initialisers (a # b # c # d # r) =
     (if a = CHR ''0'' \<and> b = CHR ''x'' then hex_pair c d # initialisers r
      else initialisers (b # c # d # r))"
| "initialisers r = []"

definition c_initialisers :: "string \<Rightarrow> u8 list" where
  "c_initialisers t = initialisers (strip_comments In_code t)"

text \<open>A row whose bytes do not spell the end of a comment.\<close>

fun no_comment_end :: "u8 list \<Rightarrow> bool" where
  "no_comment_end (a # b # r) = (\<not> (a = 0x2a \<and> b = 0x2f) \<and> no_comment_end (b # r))"
| "no_comment_end r = True"

lemma strip_code_other [simp]:
  "a \<noteq> CHR ''/'' \<Longrightarrow> strip_comments In_code (a # t) = a # strip_comments In_code t"
  by (cases t) auto

lemma strip_code_skip:
  "CHR ''/'' \<notin> set s \<Longrightarrow> strip_comments In_code (s @ t) = s @ strip_comments In_code t"
  by (induction s) auto

lemma strip_line_skip:
  "NL \<notin> set s \<Longrightarrow> strip_comments In_line (s @ NL # t) = NL # strip_comments In_code t"
  by (induction s) auto

lemma initialisers_short: "length t < 4 \<Longrightarrow> initialisers t = []"
  by (induction t rule: initialisers.induct) auto

lemma initialisers_other [simp]: "a \<noteq> CHR ''0'' \<Longrightarrow> initialisers (a # t) = initialisers t"
proof (cases "length t < 3")
  case True
  then show ?thesis by (simp add: initialisers_short)
next
  case False
  assume a: "a \<noteq> CHR ''0''"
  from False obtain b c d r where "t = b # c # d # r"
    by (cases t; cases "tl t"; cases "tl (tl t)") auto
  with a show ?thesis by simp
qed

lemma initialisers_skip: "CHR ''0'' \<notin> set s \<Longrightarrow> initialisers (s @ t) = initialisers t"
  by (induction s) auto

lemma initialisers_carry_text: "initialisers (carry_text bs @ t) = bs @ initialisers t"
proof (induction bs)
  case Nil
  then show ?case by (simp add: carry_text_def)
next
  case (Cons b bs)
  obtain h l where "fmt_0x 2 (unat b) = [h, l]" "hex_pair h l = b"
    by (rule fmt_byte_cases)
  with Cons show ?case by (simp add: carry_text_def)
qed

lemma char_of_byte_star: "char_of_byte b = CHR ''*'' \<longleftrightarrow> b = 0x2a"
  and char_of_byte_slash: "char_of_byte b = CHR ''/'' \<longleftrightarrow> b = 0x2f"
proof -
  have "char_of_byte 0x2a = CHR ''*''" "char_of_byte 0x2f = CHR ''/''" by code_simp+
  then show "char_of_byte b = CHR ''*'' \<longleftrightarrow> b = 0x2a" "char_of_byte b = CHR ''/'' \<longleftrightarrow> b = 0x2f"
    by (metis char_of_byte_inject)+
qed

lemma printable_eq: "printable b = 0x2a \<longleftrightarrow> b = 0x2a" "printable b = 0x2f \<longleftrightarrow> b = 0x2f"
  by (auto simp: printable_def)

lemma char_text_small: "k + length bs \<le> 8 \<Longrightarrow> char_text k bs = map (char_of_byte \<circ> printable) bs"
  by (induction k bs rule: char_text.induct) auto

lemma strip_block_text:
  "no_comment_end bs \<Longrightarrow>
   strip_comments In_block (map (char_of_byte \<circ> printable) bs @ CHR ''*'' # CHR ''/'' # t) =
     CHR '' '' # strip_comments In_code t"
proof (induction bs rule: no_comment_end.induct)
  case (1 a b r)
  then show ?case by (auto simp: char_of_byte_star char_of_byte_slash printable_eq)
qed (auto simp: char_of_byte_star char_of_byte_slash printable_eq)

lemma carry_text_no_slash [simp]: "CHR ''/'' \<notin> set (carry_text bs)"
  by (induction bs) (auto simp: carry_text_def)

lemma set_concat_replicate: "set (concat (replicate n xs)) \<subseteq> set xs"
  by (induction n) auto

lemma c_initialisers_row:
  assumes "no_comment_end bs" and "length bs \<le> 8"
  shows "initialisers (strip_comments In_code (carrydump_row_text bs @ t)) =
    bs @ initialisers (strip_comments In_code t)"
proof -
  define blank where "blank = concat (replicate (8 - length bs) ''      '')"
  have blank: "set blank \<subseteq> {CHR '' ''}"
    unfolding blank_def by (rule order_trans [OF set_concat_replicate]) simp
  then have no: "CHR ''/'' \<notin> set blank" "CHR ''0'' \<notin> set blank" by auto
  have "carrydump_row_text bs @ t = ''  '' @ carry_text bs @ blank @ ''   '' @
      CHR ''/'' # CHR ''*'' # map (char_of_byte \<circ> printable) bs @ CHR ''*'' # CHR ''/'' # NL # t"
    using assms(2) by (simp add: carrydump_row_text_def char_text_small blank_def)
  then have "strip_comments In_code (carrydump_row_text bs @ t) =
      ''  '' @ carry_text bs @ blank @ ''   '' @ CHR '' '' # NL # strip_comments In_code t"
    using assms(1) no(1) by (simp add: strip_code_skip strip_block_text)
  then show ?thesis
    using no(2) by (simp add: initialisers_carry_text initialisers_skip)
qed

lemma c_initialisers_rows:
  "\<forall>p \<in> set rs. no_comment_end (snd p) \<and> length (snd p) \<le> 8 \<Longrightarrow>
   initialisers (strip_comments In_code (concat (map (\<lambda>p. carrydump_row_text (snd p)) rs) @ t)) =
     concat (map snd rs) @ initialisers (strip_comments In_code t)"
  by (induction rs) (auto simp: c_initialisers_row)

definition carrydump_head :: "string option \<Rightarrow> string" where
  "carrydump_head comment = (case comment of Some c \<Rightarrow> ''// '' @ c @ '' '' @ [NL] | None \<Rightarrow> [])"

lemma carrydump_text:
  assumes "a + n \<le> length m"
  shows "snd (carrydump fp comment m a n) = Inr ()"
    and "text_on fp (fst (carrydump fp comment m a n)) =
      carrydump_head comment @ ''static uint8_t arry[] = {'' @ [NL] @
      concat (map (\<lambda>p. carrydump_row_text (snd p)) (rows 8 0 (take n (drop a m)))) @ ''};'' @ [NL]"
proof -
  have loop: "carrydump_loop fp m a n 0 =
      (concat (map (\<lambda>(i, r). carrydump_row fp i r) (rows 8 0 (take n (drop a m)))), Inr ())"
    by (rule carryrows.loop_in [OF assms])
  have row: "text_on fp (case p of (i, r) \<Rightarrow> carrydump_row fp i r) = carrydump_row_text (snd p)" for p
    by (cases p) (simp add: text_carrydump_row)
  show "snd (carrydump fp comment m a n) = Inr ()"
    by (cases comment) (simp_all add: carrydump_def loop)
  show "text_on fp (fst (carrydump fp comment m a n)) =
      carrydump_head comment @ ''static uint8_t arry[] = {'' @ [NL] @
      concat (map (\<lambda>p. carrydump_row_text (snd p)) (rows 8 0 (take n (drop a m)))) @ ''};'' @ [NL]"
    by (cases comment) (simp_all add: carrydump_def carrydump_head_def loop text_on_concat comp_def row
        fst_io_bind_Inr)
qed

lemma strip_carrydump_head:
  "NL \<notin> set c \<Longrightarrow> strip_comments In_code (carrydump_head (Some c) @ t) = NL # strip_comments In_code t"
  using strip_line_skip [of "'' '' @ c @ '' ''" t] by (simp add: carrydump_head_def)

section \<open>Properties\<close>

text \<open>
  C15: \<open>hexdump\<close> of \<open>n\<close> bytes inside the block returns, prints one line per 16 bytes (the last one
  possibly shorter), and the hex columns of the printed text read back give exactly the dumped bytes.
\<close>

theorem hexdump_roundtrip:
  assumes "a + n \<le> length m"
  shows "snd (hexdump fp m a n) = Inr () \<and>
    hexdump_read (text_on fp (fst (hexdump fp m a n))) = take n (drop a m) \<and>
    count_list (text_on fp (fst (hexdump fp m a n))) NL = (n + 15) div 16"
  using assms
  by (simp add: hexdump_text(2) hexdump_read_rows count_NL concat_rows length_rows)
    (simp add: hexdump_text(1))

theorem hexdump_roundtrip_witness:
  "hexdump_read (text_on Std_err (fst (hexdump Std_err [0x41, 0x0a, 0xff, 0x20] 1 3))) = [0x0a, 0xff, 0x20]"
  using hexdump_roundtrip [of 1 3 "[0x41, 0x0a, 0xff, 0x20]" Std_err] by simp

text \<open>
  A dump that is asked for more bytes than the block holds reads past its end; no dump that
  returns has read outside the block. This holds of \<open>hexdump\<close> and of \<open>carrydump\<close>.
\<close>

theorem dump_stays_in_block:
  assumes "a \<le> length m"
  shows "snd (hexdump fp m a n) = (if a + n \<le> length m then Inr () else Inl Read_OOB) \<and>
    snd (carrydump fp comment m a n) = (if a + n \<le> length m then Inr () else Inl Read_OOB)"
proof -
  have "snd (carrydump fp comment m a n) = Inl Read_OOB" if "length m < a + n"
    using carryrows.loop_out [OF that assms, of fp 0]
    by (cases comment) (simp_all add: carrydump_def)
  then show ?thesis
    using hexrows.loop_out [OF _ assms, of n fp 0]
    by (auto simp: hexdump_text(1) carrydump_text(1) hexdump_def [of fp m a n] hexrows.loop_in)
qed

theorem dump_stays_in_block_witness:
  "snd (hexdump Std_out [1, 2] 1 2) = Inl Read_OOB \<and> snd (carrydump Std_out None [1, 2] 0 2) = Inr ()"
  using dump_stays_in_block [of 1 "[1, 2]" Std_out 2 None] dump_stays_in_block [of 0 "[1, 2]" Std_out 2 None]
  by simp

text \<open>
  C34: the C array \<open>carrydump\<close> prints initialises exactly the dumped bytes, whatever comment line is
  asked for, as long as no row of eight bytes contains the two characters that end a C comment.
\<close>

theorem carrydump_roundtrip:
  assumes "a + n \<le> length m"
    and "\<forall>p \<in> set (rows 8 0 (take n (drop a m))). no_comment_end (snd p)"
    and "\<forall>c. comment = Some c \<longrightarrow> NL \<notin> set c"
  shows "c_initialisers (text_on fp (fst (carrydump fp comment m a n))) = take n (drop a m)"
proof -
  let ?rs = "rows 8 0 (take n (drop a m))"
  let ?body = "''static uint8_t arry[] = {'' @ [NL] @
      concat (map (\<lambda>p. carrydump_row_text (snd p)) ?rs) @ ''};'' @ [NL]"
  have rs: "\<forall>p \<in> set ?rs. no_comment_end (snd p) \<and> length (snd p) \<le> 8"
    using assms(2) rows_lengths by fastforce
  have body: "initialisers (strip_comments In_code ?body) = take n (drop a m)"
    using c_initialisers_rows [OF rs, of "''};'' @ [NL]"]
    by (simp add: concat_rows)
  have head: "strip_comments In_code (carrydump_head comment @ ?body) \<in>
      {strip_comments In_code ?body, NL # strip_comments In_code ?body}"
  proof (cases comment)
    case None
    then show ?thesis by (simp add: carrydump_head_def)
  next
    case (Some c)
    with assms(3) have "NL \<notin> set c" by simp
    then show ?thesis unfolding Some by (subst strip_carrydump_head) simp_all
  qed
  have "initialisers (strip_comments In_code (carrydump_head comment @ ?body)) = take n (drop a m)"
  proof -
    have "initialisers (NL # strip_comments In_code ?body) = initialisers (strip_comments In_code ?body)"
      by (rule initialisers_other) simp
    with head body show ?thesis by (metis insertE singletonD)
  qed
  then show ?thesis
    by (simp only: c_initialisers_def carrydump_text(2) [OF assms(1)])
qed

theorem carrydump_roundtrip_witness:
  "c_initialisers (text_on Std_out (fst (carrydump Std_out (Some ''rta'') [0x30, 0x78, 0x2a, 7] 0 4)))
     = [0x30, 0x78, 0x2a, 7]"
  using carrydump_roundtrip [of 0 4 "[0x30, 0x78, 0x2a, 7]" "Some ''rta''" Std_out]
  by (simp add: rows.simps)

text \<open>
  Without that condition the array is wrong: bytes that spell a comment end and an initialiser
  (\<open>*/0x41, \<close>) close the row's comment early, and the printed array has one element more.
\<close>

theorem carrydump_comment_injection:
  "let bs = [0x2a, 0x2f, 0x30, 0x78, 0x34, 0x31, 0x2c, 0x20] in
   c_initialisers (text_on Std_out (fst (carrydump Std_out None bs 0 8))) = bs @ [0x41]"
  unfolding Let_def by code_simp

end
