(* ===== verification/Linkinfo.thy ===== *)
theory Linkinfo
  imports Rtattr Dump_Text
begin

text \<open>
  \<open>rta_to_str_IFLA_LINKINFO\<close> of \<open>yalin/yalin/rtattr.h\<close>: the nested attributes of a link's kind. The
  loop over the nested attributes leaves the integers of a VLAN in a record; \<open>vlan_fields\<close> says what
  the record is worth on a decoded attribute list, and \<open>vlan_loop_attrs\<close> that the loop computes it.
  The way from the kind to its data goes through \<open>rtattr_next\<close> with the kind's own length as the
  buffer's, so it is only found by the wrap-around of that function.
\<close>

section \<open>The code\<close>

record vlan_info =
  vi_proto :: u16
  vi_id :: u16
  vi_flags :: u64

definition vlan_zero :: vlan_info where
  "vlan_zero = \<lparr>vi_proto = 0, vi_id = 0, vi_flags = 0\<rparr>"

definition is_label :: "uapi \<Rightarrow> u16 \<Rightarrow> string \<Rightarrow> bool" where
  "is_label U t l \<longleftrightarrow> unat t = uconst U l"

text \<open>The \<open>switch\<close> of the loop; the pointer that \<open>%p\<close> prints is an event of its own.\<close>

definition vlan_switch :: "uapi \<Rightarrow> mem \<Rightarrow> nat \<Rightarrow> vlan_info \<Rightarrow> vlan_info io" where
  "vlan_switch U m nrta v =
     io_bind (rtattr_type m nrta) (\<lambda>type.
       if is_label U type ''IFLA_VLAN_ID'' then
         io_bind (rtattr_read_16bit m nrta) (\<lambda>x. ret (v\<lparr>vi_id := x\<rparr>))
       else if is_label U type ''IFLA_VLAN_FLAGS'' then
         io_bind (rtattr_read_64bit m nrta) (\<lambda>x. ret (v\<lparr>vi_flags := x\<rparr>))
       else if is_label U type ''IFLA_VLAN_PROTOCOL'' then
         io_bind (rtattr_read_16bit m nrta) (\<lambda>x. ret (v\<lparr>vi_proto := x\<rparr>))
       else if is_label U type ''IFLA_VLAN_UNSPEC'' \<or> is_label U type ''IFLA_VLAN_EGRESS_QOS'' \<or>
           is_label U type ''IFLA_VLAN_INGRESS_QOS'' then
         io_seq (put Std_out (''unsupport ... skip type=0x'' @ fmt_0x 4 (unat type) @ '' @''))
           (io_seq (put_ptr Std_out nrta) (io_seq (put Std_out [NL]) (ret v)))
       else ret v)"

lemma io_bind_cong [fundef_cong]:
  "m = m' \<Longrightarrow> (\<And>a. snd m' = Inr a \<Longrightarrow> f a = f' a) \<Longrightarrow> io_bind m f = io_bind m' f'"
  by (auto simp: io_bind_def split: sum.splits)

text \<open>\<open>while (nrta) { ... nrta = rtattr_next (nrta, &nbuflen); if (!nrta || nbuflen <= 0) break; }\<close>\<close>

function vlan_loop :: "uapi \<Rightarrow> mem \<Rightarrow> nat \<Rightarrow> u64 \<Rightarrow> vlan_info \<Rightarrow> vlan_info io" where
  "vlan_loop U m nrta nbuflen v =
     io_bind (vlan_switch U m nrta v) (\<lambda>v.
     io_bind (rtattr_next m nrta nbuflen) (\<lambda>r.
       case r of
         (None, _) \<Rightarrow> ret v
       | (Some nrta', nbuflen') \<Rightarrow>
           if sint nbuflen' \<le> 0 then ret v else vlan_loop U m nrta' nbuflen' v))"
  by pat_completeness auto
termination
proof (relation "measure (\<lambda>(U, m, nrta, nbuflen, v). nat (sint nbuflen))")
  fix U :: uapi and m nrta and nbuflen :: u64 and v v' :: vlan_info and r n nbuflen' nrta'
  assume "snd (rtattr_next m nrta nbuflen) = Inr r" "(n, nbuflen') = r" "n = Some nrta'"
  then have "snd (rtattr_next m nrta nbuflen) = Inr (Some nrta', nbuflen')" by simp
  then obtain l where "0 < sint nbuflen" "l \<noteq> 0" "sint nbuflen' = sint nbuflen - int (round_up4 (unat (l :: u16)))"
    by (auto elim: rtattr_next_ret)
  moreover from this have "0 < round_up4 (unat l)"
    using round_up4_eq_0 [of "unat l"] by (simp add: word_unat_eq_iff neq0_conv del: round_up4_eq_0)
  ultimately show "((U, m, nrta', nbuflen', v'), U, m, nrta, nbuflen, v) \<in>
      measure (\<lambda>(U, m, nrta, nbuflen, v). nat (sint nbuflen))"
    by simp
qed simp

declare vlan_loop.simps [simp del]

definition vlan_text :: "vlan_info \<Rightarrow> string" where
  "vlan_text v = ''IFLA_LINKINFO vlan(id:'' @ fmt_u (unat (vi_id v)) @ '', proto:0x'' @
     fmt_0x 4 (unat (vi_proto v)) @ '', flags:0x'' @ fmt_0x 8 (unat (vi_flags v)) @ '')''"

text \<open>
  The local array \<open>strbuf\<close> is filled before it is read; its content before that is taken as zero.
  \<open>rtattr_type (rta)\<close> is evaluated although \<open>rta\<close> may be NULL.
\<close>

definition rta_to_str_IFLA_LINKINFO :: "uapi \<Rightarrow> mem \<Rightarrow> nat \<Rightarrow> cbuf \<Rightarrow> nat \<Rightarrow> cbuf io" where
  "rta_to_str_IFLA_LINKINFO U m root_rta str len =
     io_bind (rtattr_type m root_rta) (\<lambda>t.
     io_seq (io_assert (is_label U t ''IFLA_LINKINFO''))
     (let rta = rtattr_nest_next root_rta in
     io_bind (rtattr_type m rta) (\<lambda>t.
     io_seq (io_assert (is_label U t ''IFLA_INFO_KIND''))
     (io_bind (rtattr_read_str m rta (c_array 100) 100) (\<lambda>(strbuf, _).
     let unknown =
       io_bind (c_snprintf str len (''UNKNOWN LINK KIND ('' @ c_str strbuf @ '')'')) (\<lambda>str.
       io_bind (rtattr_len m root_rta) (\<lambda>n.
       io_seq (carrydump Std_out (Some ''IFLA_LINKINFO Unknown-link-kind'') m root_rta (unat n))
         (ret str)))
     in if c_str strbuf = ''vlan'' then
       io_bind (rtattr_len m rta) (\<lambda>l.
       io_bind (rtattr_next m rta l) (\<lambda>(rta, l).
         case rta of
           None \<Rightarrow> stop Null_Deref
         | Some rta \<Rightarrow>
             io_bind (rtattr_type m rta) (\<lambda>t.
             if is_label U t ''IFLA_INFO_DATA'' then
               io_bind (rtattr_payload_len m rta) (\<lambda>nbuflen.
               io_bind (vlan_loop U m (rtattr_payload_ptr rta) nbuflen vlan_zero) (\<lambda>vlaninfo.
               c_snprintf str len (vlan_text vlaninfo)))
             else unknown)))
     else unknown)))))"

section \<open>The loop on a list of attributes\<close>

text \<open>Attributes one behind the other, each padded to a multiple of four.\<close>

fun attrs_at :: "mem \<Rightarrow> nat \<Rightarrow> (u16 \<times> u8 list) list \<Rightarrow> bool" where
  "attrs_at m a [] \<longleftrightarrow> True"
| "attrs_at m a ((t, p) # xs) \<longleftrightarrow> attr_at m a t p \<and> attrs_at m (a + round_up4 (4 + length p)) xs"

fun attrs_size :: "(u16 \<times> u8 list) list \<Rightarrow> nat" where
  "attrs_size [] = 0"
| "attrs_size ((t, p) # xs) = round_up4 (4 + length p) + attrs_size xs"

text \<open>What one attribute means for the VLAN record, and which payload the kernel gives it.\<close>

definition vlan_field :: "uapi \<Rightarrow> vlan_info \<Rightarrow> u16 \<times> u8 list \<Rightarrow> vlan_info" where
  "vlan_field U v x =
     (let t = fst x; n = le_nat (snd x) in
      if is_label U t ''IFLA_VLAN_ID'' then v\<lparr>vi_id := of_nat n\<rparr>
      else if is_label U t ''IFLA_VLAN_FLAGS'' then v\<lparr>vi_flags := of_nat n\<rparr>
      else if is_label U t ''IFLA_VLAN_PROTOCOL'' then v\<lparr>vi_proto := of_nat n\<rparr>
      else v)"

definition vlan_fields :: "uapi \<Rightarrow> (u16 \<times> u8 list) list \<Rightarrow> vlan_info" where
  "vlan_fields U xs = foldl (vlan_field U) vlan_zero xs"

definition vlan_payload_ok :: "uapi \<Rightarrow> u16 \<times> u8 list \<Rightarrow> bool" where
  "vlan_payload_ok U x \<longleftrightarrow>
     (is_label U (fst x) ''IFLA_VLAN_ID'' \<longrightarrow> length (snd x) = 2) \<and>
     (is_label U (fst x) ''IFLA_VLAN_FLAGS'' \<longrightarrow> length (snd x) = 8) \<and>
     (is_label U (fst x) ''IFLA_VLAN_PROTOCOL'' \<longrightarrow> length (snd x) = 2)"

lemma reader_of_payload:
  assumes "attr_at m a t p"
  shows "length p = 2 \<Longrightarrow> rtattr_read_16bit m a = ret (of_nat (le_nat p))"
    and "length p = 8 \<Longrightarrow> rtattr_read_64bit m a = ret (of_nat (le_nat p))"
  using attr_at_payload [OF assms] r16.read_attr [OF assms] r64.read_attr [OF assms]
  by (simp_all add: load_def)

lemma vlan_switch_field:
  assumes "attr_at m a t p" and "vlan_payload_ok U (t, p)"
  shows "snd (vlan_switch U m a v) = Inr (vlan_field U v (t, p))"
  using assms(2) reader_of_payload [OF assms(1)]
  by (simp add: vlan_switch_def vlan_field_def vlan_payload_ok_def attr_at_type [OF assms(1)] Let_def snd_io_bind)

text \<open>An empty last attribute would not be reached: the others need a payload.\<close>

lemma vlan_loop_attrs:
  assumes "attrs_at m a (x # xs)" and "\<forall>y \<in> set (x # xs). vlan_payload_ok U y"
    and "\<forall>y \<in> set xs. snd y \<noteq> []" and "sint b = int (attrs_size (x # xs))"
  shows "snd (vlan_loop U m a b v) = Inr (foldl (vlan_field U) v (x # xs))"
  using assms
proof (induction xs arbitrary: a x b v)
  case Nil
  obtain t p where x: "x = (t, p)" by (cases x)
  with Nil have at: "attr_at m a t p" and ok: "vlan_payload_ok U (t, p)"
    and b: "sint b = int (round_up4 (4 + length p))" by auto
  have "rtattr_next m a b = ret (None, b)"
    using rtattr_next_eq [OF attr_at_len [OF at], of b] b attr_at_unat_len [OF at] by (simp add: Let_def)
  then show ?case
    using x vlan_switch_field [OF at ok] by (simp add: vlan_loop.simps [of U m a] snd_io_bind)
next
  case (Cons y ys)
  obtain t p where x: "x = (t, p)" by (cases x)
  obtain t' p' where y: "y = (t', p')" by (cases y)
  let ?s = "round_up4 (4 + length p)"
  from Cons.prems x have at: "attr_at m a t p" and ok: "vlan_payload_ok U (t, p)"
    and rest: "attrs_at m (a + ?s) (y # ys)" and b: "sint b = int ?s + int (attrs_size (y # ys))" by auto
  have l: "unat (of_nat (4 + length p) :: u16) = 4 + length p" by (rule attr_at_unat_len [OF at])
  have "0 < length p'" using Cons.prems(3) y by simp
  then have "4 < round_up4 (4 + length p')" using round_up4_ge [of "4 + length p'"] by linarith
  then have gt: "4 < attrs_size (y # ys)" using y by simp
  have s: "unat (of_nat ?s :: u64) = ?s" "?s \<le> 65536"
    using round_up4_u16 [of "of_nat (4 + length p)"] l by (simp_all add: unat_of_nat_small)
  have nxt: "rtattr_next m a b = ret (Some (a + ?s), b - of_nat ?s)"
    using rtattr_next_eq [OF attr_at_len [OF at], of b] b gt l attr_at_unat_len [OF at]
    by (auto simp: Let_def word_unat_eq_iff)
  have b': "sint (b - of_nat ?s) = int (attrs_size (y # ys))"
    using buflen_step(1) [OF _ s, of b] b gt by simp
  have "snd (vlan_loop U m (a + ?s) (b - of_nat ?s) (vlan_field U v (t, p))) =
      Inr (foldl (vlan_field U) (vlan_field U v (t, p)) (y # ys))"
    using rest Cons.prems(2,3) b' by (intro Cons.IH) auto
  then show ?case
    using x nxt b' gt vlan_switch_field [OF at ok, of v]
    by (simp add: vlan_loop.simps [of U m a] snd_io_bind)
qed

section \<open>The whole function\<close>

text \<open>
  \<open>kind_at m a root t kt kp\<close>: at \<open>a\<close> stands an attribute with header length \<open>root\<close> and type \<open>t\<close>, and
  its payload begins with the attribute \<open>(kt, kp)\<close>.
\<close>

definition kind_at :: "uapi \<Rightarrow> mem \<Rightarrow> nat \<Rightarrow> u8 list \<Rightarrow> bool" where
  "kind_at U m a kp \<longleftrightarrow>
     (\<exists>l t kt. hdr_at m a l t \<and> is_label U t ''IFLA_LINKINFO'' \<and>
        attr_at m (a + 4) kt kp \<and> is_label U kt ''IFLA_INFO_KIND'')"

lemma linkinfo_kind:
  assumes "kind_at U m a kp" and "length kp \<le> 100" and "0 \<in> set kp"
    and "map char_of_byte (takeWhile (\<lambda>c. c \<noteq> 0) kp) = s"
  obtains l b where "rtattr_len m a = ret (ucast (l :: u16))" and "c_str b = s"
    and "rtattr_read_str m (a + 4) (c_array 100) 100 = ret (b, of_nat (round_up4 (length kp)))"
    and "\<exists>t. rtattr_type m a = ret t \<and> is_label U t ''IFLA_LINKINFO''"
    and "\<exists>t. rtattr_type m (a + 4) = ret t \<and> is_label U t ''IFLA_INFO_KIND''"
    and "rtattr_len m (a + 4) = ret (of_nat (4 + length kp))"
proof -
  obtain l t kt where h: "hdr_at m a l t" "is_label U t ''IFLA_LINKINFO''"
    and k: "attr_at m (a + 4) kt kp" "is_label U kt ''IFLA_INFO_KIND''"
    using assms(1) by (auto simp: kind_at_def)
  have n: "length (takeWhile (\<lambda>c. c \<noteq> 0) kp) < length kp"
  proof -
    have "takeWhile (\<lambda>c. c \<noteq> 0) kp \<noteq> kp" using assms(3) by (auto simp: takeWhile_eq_all_conv)
    then show ?thesis
      by (metis length_takeWhile_le nat_less_le takeWhile_eq_take take_all_iff order_refl)
  qed
  have "load_str m (a + 4 + 4) = ret s" using load_str_payload [OF k(1) assms(3)] assms(4) by simp
  moreover have "NUL \<notin> set s" unfolding assms(4) [symmetric] by simp
  ultimately obtain b where b: "rtattr_read_str m (a + 4) (c_array 100) (of_nat 100) = ret (b, of_nat (round_up4 (length kp)))"
    "c_str b = take 99 s"
    using rtattr_read_str_c_str [OF k(1) assms(2), of s "c_array 100"] by auto
  have "length s \<le> 99" using n assms(2,4) by auto
  moreover have "rtattr_len m (a + 4) = ret (of_nat (4 + length kp))"
  proof -
    have "ucast (of_nat (4 + length kp) :: u16) = (of_nat (4 + length kp) :: u64)"
    proof -
      have "unat (of_nat (4 + length kp) :: u64) = 4 + length kp"
        using assms(2) by (intro unat_of_nat_small) simp
      then show ?thesis using attr_at_unat_len [OF k(1)] by (simp only: word_unat_eq_iff unat_ucast16_64)
    qed
    then show ?thesis using attr_at_len [OF k(1)] by (simp add: rtattr_len_def)
  qed
  ultimately show ?thesis
    using b h k attr_at_type [OF k(1)]
    by (intro that [of l b]) (auto simp: rtattr_len_def rtattr_type_def load_simps)
qed

lemma rtattr_next_of_kind:
  assumes "attr_at m a kt kp" and "length kp < 65000"
  shows "rtattr_next m a (of_nat (4 + length kp)) =
    (if 4 dvd length kp then ret (None, of_nat (4 + length kp))
     else ret (Some (a + round_up4 (4 + length kp)), of_nat (4 + length kp) - of_nat (round_up4 (4 + length kp))))"
proof -
  let ?n = "4 + length kp"
  have "sint (of_nat ?n :: u64) = int ?n" using assms(2) by (intro sint_of_nat_small) simp
  moreover have "\<not> int (round_up4 ?n) + 4 < int ?n" using round_up4_ge [of ?n] by linarith
  moreover have "int ?n < int (round_up4 ?n) \<longleftrightarrow> \<not> 4 dvd length kp"
  proof -
    have "4 dvd length kp \<longleftrightarrow> 4 dvd ?n" by simp
    moreover have "?n < round_up4 ?n \<longleftrightarrow> round_up4 ?n \<noteq> ?n" using round_up4_ge [of ?n] by linarith
    moreover have "round_up4 ?n = ?n \<longleftrightarrow> 4 dvd ?n" using round_up4_of_dvd round_up4_dvd by metis
    ultimately show ?thesis by (simp only: of_nat_less_iff)
  qed
  moreover have "of_nat ?n \<noteq> (0 :: u16)"
  proof
    assume "of_nat ?n = (0 :: u16)"
    then have "unat (of_nat ?n :: u16) = 0" by (simp only: unat_0)
    with attr_at_unat_len [OF assms(1)] show False by linarith
  qed
  ultimately show ?thesis
    unfolding rtattr_next_eq [OF attr_at_len [OF assms(1)]] attr_at_unat_len [OF assms(1)]
    by (simp add: Let_def)
qed

definition vlan_kind :: "u8 list" where
  "vlan_kind = [0x76, 0x6c, 0x61, 0x6e, 0]"

lemma vlan_kind_string: "map char_of_byte (takeWhile (\<lambda>c. c \<noteq> 0) vlan_kind) = ''vlan''"
  and vlan_kind_facts: "length vlan_kind = 5" "0 \<in> set vlan_kind"
  by (simp_all add: vlan_kind_def char_of_byte_def char_of_def bit_0)

lemma NUL_notin_vlan_text: "NUL \<notin> set (vlan_text v)"
  by (simp add: vlan_text_def)

lemma io_assert_label: "\<exists>t. r = ret t \<and> is_label U t l \<Longrightarrow>
  io_bind r (\<lambda>t. io_seq (io_assert (is_label U t l)) f) = f"
  by auto

lemma linkinfo_vlan_start:
  assumes "kind_at U m a kp" and "length kp \<le> 100" and "0 \<in> set kp"
    and "map char_of_byte (takeWhile (\<lambda>c. c \<noteq> 0) kp) = ''vlan''"
  shows "\<exists>f. rta_to_str_IFLA_LINKINFO U m a str n =
    io_bind (rtattr_next m (a + 4) (of_nat (4 + length kp))) (\<lambda>(rta, l).
      case rta of
        None \<Rightarrow> stop Null_Deref
      | Some rta \<Rightarrow>
          io_bind (rtattr_type m rta) (\<lambda>t.
            if is_label U t ''IFLA_INFO_DATA'' then
              io_bind (rtattr_payload_len m rta) (\<lambda>nbuflen.
              io_bind (vlan_loop U m (rtattr_payload_ptr rta) nbuflen vlan_zero) (\<lambda>vlaninfo.
              c_snprintf str n (vlan_text vlaninfo)))
            else f))"
proof -
  from linkinfo_kind [OF assms] obtain l b where k: "rtattr_len m a = ret (ucast (l :: u16))" "c_str b = ''vlan''"
    "rtattr_read_str m (a + 4) (c_array 100) 100 = ret (b, of_nat (round_up4 (length kp)))"
    "\<exists>t. rtattr_type m a = ret t \<and> is_label U t ''IFLA_LINKINFO''"
    "\<exists>t. rtattr_type m (a + 4) = ret t \<and> is_label U t ''IFLA_INFO_KIND''"
    "rtattr_len m (a + 4) = ret (of_nat (4 + length kp))" by blast
  show ?thesis
    unfolding rta_to_str_IFLA_LINKINFO_def Let_def rtattr_nest_next_def rtattr_payload_ptr_def
      io_assert_label [OF k(4)] io_assert_label [OF k(5)] k(3,6)
    by (simp only: io_bind_ret prod.case k(2) if_True refl) (rule exI, rule refl)
qed

section \<open>Properties\<close>

text \<open>
  C2: on the attributes the kernel sends for a VLAN interface, the kind \<open>vlan\<close> with its NUL and a
  data attribute with any number of nested attributes in any order, the text names exactly the
  identifier, protocol and flags that the nested attributes carry, the last of each kind winning,
  zero where there is none; attributes of other types change nothing.
\<close>

theorem linkinfo_vlan_text:
  assumes "kind_at U m a vlan_kind"
    and "attr_at m (a + 16) dt dp" and "is_label U dt ''IFLA_INFO_DATA''"
    and "attrs_at m (a + 20) (x # xs)" and "length dp = attrs_size (x # xs)"
    and "\<forall>y \<in> set (x # xs). vlan_payload_ok U y" and "\<forall>y \<in> set xs. snd y \<noteq> []"
    and "length str = n" and "0 < n"
  shows "\<exists>b. snd (rta_to_str_IFLA_LINKINFO U m a str n) = Inr b \<and>
    c_str b = take (n - 1) (vlan_text (vlan_fields U (x # xs)))"
proof -
  obtain kt where k: "attr_at m (a + 4) kt vlan_kind" using assms(1) by (auto simp: kind_at_def)
  from linkinfo_vlan_start [OF assms(1) _ vlan_kind_facts(2) vlan_kind_string, of str n] obtain f
    where start: "rta_to_str_IFLA_LINKINFO U m a str n =
    io_bind (rtattr_next m (a + 4) (of_nat (4 + length vlan_kind))) (\<lambda>(rta, l).
      case rta of
        None \<Rightarrow> stop Null_Deref
      | Some rta \<Rightarrow>
          io_bind (rtattr_type m rta) (\<lambda>t.
            if is_label U t ''IFLA_INFO_DATA'' then
              io_bind (rtattr_payload_len m rta) (\<lambda>nbuflen.
              io_bind (vlan_loop U m (rtattr_payload_ptr rta) nbuflen vlan_zero) (\<lambda>vlaninfo.
              c_snprintf str n (vlan_text vlaninfo)))
            else f))" by (auto simp: vlan_kind_facts)
  have next12: "\<exists>l. rtattr_next m (a + 4) (of_nat (4 + length vlan_kind)) = ret (Some (a + 16), l)"
    using rtattr_next_of_kind [OF k] by (simp add: vlan_kind_facts round_up4_def add.assoc)
  have data: "rtattr_payload_ptr (a + 16) = a + 20" by (simp add: rtattr_payload_ptr_def)
  have "sint (of_nat (length dp) :: u64) = int (attrs_size (x # xs))"
    using assms(2,5) by (subst sint_of_nat_small) (simp_all add: attr_at_def)
  then have "snd (vlan_loop U m (a + 20) (of_nat (length dp)) vlan_zero) = Inr (vlan_fields U (x # xs))"
    unfolding vlan_fields_def by (intro vlan_loop_attrs assms(4,6,7))
  moreover obtain b where "c_snprintf str n (vlan_text (vlan_fields U (x # xs))) = ret b"
    "c_str b = take (n - 1) (vlan_text (vlan_fields U (x # xs)))"
    using c_snprintf_result [OF NUL_notin_vlan_text, of n str] assms(8,9) by auto
  ultimately show ?thesis
    using next12 assms(3) start data
    by (auto simp: attr_at_type [OF assms(2)] attr_at_payload_len [OF assms(2)])
qed

text \<open>
  The way from the kind to its data only works because the kind's length is no multiple of four:
  a kind string \<open>vlan\<close> in a payload of four, eight or any multiple of four bytes makes the function
  dereference NULL.
\<close>

theorem linkinfo_padded_kind_crashes:
  assumes "kind_at U m a kp" and "length kp \<le> 100" and "0 \<in> set kp"
    and "map char_of_byte (takeWhile (\<lambda>c. c \<noteq> 0) kp) = ''vlan''" and "4 dvd length kp"
  shows "rta_to_str_IFLA_LINKINFO U m a str n = stop Null_Deref"
proof -
  obtain kt where k: "attr_at m (a + 4) kt kp" using assms(1) by (auto simp: kind_at_def)
  have "rtattr_next m (a + 4) (of_nat (4 + length kp)) = ret (None, of_nat (4 + length kp))"
    using rtattr_next_of_kind [OF k] assms(2,5) by simp
  then show ?thesis
    using linkinfo_vlan_start [OF assms(1-4), of str n] by (elim exE) (simp only: io_bind_ret prod.case option.case)
qed

text \<open>
  A kind other than \<open>vlan\<close> is named in the text, and the whole attribute is printed on the
  standard output as a C array.
\<close>

theorem linkinfo_unknown_kind:
  assumes "kind_at U m a kp" and "length kp \<le> 100" and "0 \<in> set kp"
    and "map char_of_byte (takeWhile (\<lambda>c. c \<noteq> 0) kp) = s" and "s \<noteq> ''vlan''"
    and "rta_len m a = ret l" and "a + unat l \<le> length m" and "length str = n" and "0 < n"
  shows "\<exists>b. rta_to_str_IFLA_LINKINFO U m a str n =
      (fst (carrydump Std_out (Some ''IFLA_LINKINFO Unknown-link-kind'') m a (unat l)), Inr b) \<and>
    c_str b = take (n - 1) (''UNKNOWN LINK KIND ('' @ s @ '')'')"
proof -
  from linkinfo_kind [OF assms(1-4)] obtain b where k: "c_str b = s"
    "rtattr_read_str m (a + 4) (c_array 100) 100 = ret (b, of_nat (round_up4 (length kp)))"
    "\<exists>t. rtattr_type m a = ret t \<and> is_label U t ''IFLA_LINKINFO''"
    "\<exists>t. rtattr_type m (a + 4) = ret t \<and> is_label U t ''IFLA_INFO_KIND''" by blast
  have "NUL \<notin> set s" unfolding assms(4) [symmetric] by simp
  then obtain b' where b': "c_snprintf str n (''UNKNOWN LINK KIND ('' @ s @ '')'') = ret b'"
    "c_str b' = take (n - 1) (''UNKNOWN LINK KIND ('' @ s @ '')'')"
    using c_snprintf_result [of "''UNKNOWN LINK KIND ('' @ s @ '')''" n str] assms(8,9) by auto
  have dump: "snd (carrydump Std_out (Some ''IFLA_LINKINFO Unknown-link-kind'') m a (unat l)) = Inr ()"
    by (rule carrydump_text(1) [OF assms(7)])
  have "rta_to_str_IFLA_LINKINFO U m a str n =
    io_seq (carrydump Std_out (Some ''IFLA_LINKINFO Unknown-link-kind'') m a (unat l)) (ret b')"
    unfolding rta_to_str_IFLA_LINKINFO_def Let_def rtattr_nest_next_def rtattr_payload_ptr_def
      io_assert_label [OF k(3)] io_assert_label [OF k(4)] k(2)
    by (simp only: k(1) b'(1) rtattr_len_def assms(5,6) if_False io_bind_ret prod.case unat_ucast16_64)
  then show ?thesis using dump b'(2) by (simp add: prod_eq_iff)
qed

lemma le_bytes_2: "le_bytes 2 v = [word_of_nat v, word_of_nat (v div 256)]"
  by (simp add: numeral_2_eq_2)

lemma kind_atI:
  "hdr_at m a l t \<Longrightarrow> attr_at m (a + 4) kt kp \<Longrightarrow> is_label U t ''IFLA_LINKINFO'' \<Longrightarrow>
   is_label U kt ''IFLA_INFO_KIND'' \<Longrightarrow> kind_at U m a kp"
  by (auto simp: kind_at_def)

lemma linux_link_labels:
  "is_label linux_uapi 18 ''IFLA_LINKINFO''" "is_label linux_uapi 1 ''IFLA_INFO_KIND''"
  "is_label linux_uapi 2 ''IFLA_INFO_DATA''"
  by (simp_all add: is_label_def linux_eval)

lemmas attr_eval = hdr_at_def attr_at_def attr_def le_bytes_2 vlan_kind_def

text \<open>The attribute the repository's own test prints, \<open>yalin/test/analyze_rta_IFLA_LINKINFO.c\<close>.\<close>

definition test_linkinfo :: mem where
  "test_linkinfo =
    [0x30, 0x00, 0x12, 0x00, 0x09, 0x00, 0x01, 0x00,
     0x76, 0x6c, 0x61, 0x6e, 0x00, 0x00, 0x00, 0x00,
     0x20, 0x00, 0x02, 0x00, 0x06, 0x00, 0x05, 0x00,
     0x81, 0x00, 0x00, 0x00, 0x06, 0x00, 0x01, 0x00,
     0x0a, 0x00, 0x00, 0x00, 0x0c, 0x00, 0x02, 0x00,
     0x01, 0x00, 0x00, 0x00, 0xff, 0xff, 0xff, 0xff]"

theorem linkinfo_vlan_text_witness:
  "\<exists>b. snd (rta_to_str_IFLA_LINKINFO linux_uapi test_linkinfo 0 (c_array 1000) 1000) = Inr b \<and>
    c_str b = ''IFLA_LINKINFO vlan(id:10, proto:0x0081, flags:0xffffffff00000001)''"
proof -
  let ?xs = "[(1, [0x0a, 0]), (2, [1, 0, 0, 0, 0xff, 0xff, 0xff, 0xff])] :: (u16 \<times> u8 list) list"
  have "hdr_at test_linkinfo 0 48 18" "attr_at test_linkinfo 4 1 vlan_kind"
    and data: "attr_at test_linkinfo (0 + 16) 2 (drop 20 test_linkinfo)"
    and xs: "attrs_at test_linkinfo (0 + 20) ((5, [0x81, 0]) # ?xs)"
    by (simp_all add: attr_eval test_linkinfo_def round_up4_def)
  then have kind: "kind_at linux_uapi test_linkinfo 0 vlan_kind"
    using linux_link_labels by (intro kind_atI) simp_all
  have "vlan_field linux_uapi v (5, [0x81, 0]) = v\<lparr>vi_proto := 0x81\<rparr>"
    "vlan_field linux_uapi v (1, [0x0a, 0]) = v\<lparr>vi_id := 10\<rparr>"
    "vlan_field linux_uapi v (2, [1, 0, 0, 0, 0xff, 0xff, 0xff, 0xff]) = v\<lparr>vi_flags := 0xffffffff00000001\<rparr>" for v
    by (simp_all add: vlan_field_def is_label_def linux_eval)
  then have "vlan_fields linux_uapi ((5, [0x81, 0]) # ?xs) =
      \<lparr>vi_proto = 0x81, vi_id = 10, vi_flags = 0xffffffff00000001\<rparr>"
    by (simp add: vlan_fields_def vlan_zero_def)
  moreover have "replicate 2 CHR ''0'' = ''00''" by (simp add: numeral_2_eq_2)
  then have "vlan_text \<lparr>vi_proto = 0x81, vi_id = 10, vi_flags = 0xffffffff00000001\<rparr> =
      ''IFLA_LINKINFO vlan(id:10, proto:0x0081, flags:0xffffffff00000001)''"
    by (simp add: vlan_text_def fmt_u_def fmt_0x_def pad0_def radix.simps hexdigit_def)
  moreover have "length (drop 20 test_linkinfo) = attrs_size ((5, [0x81, 0]) # ?xs)"
    by (simp add: test_linkinfo_def round_up4_def)
  moreover have "\<forall>y \<in> set ((5, [0x81, 0]) # ?xs). vlan_payload_ok linux_uapi y"
    by (simp add: vlan_payload_ok_def is_label_def linux_eval)
  ultimately show ?thesis
    using linkinfo_vlan_text [OF kind data linux_link_labels(3) xs, of "c_array 1000" 1000] by simp
qed

text \<open>The kind \<open>vlan\<close> padded to eight bytes, and the kind \<open>tun\<close>.\<close>

theorem linkinfo_padded_kind_crashes_witness:
  "rta_to_str_IFLA_LINKINFO linux_uapi ([20, 0, 18, 0] @ attr 1 (vlan_kind @ [0, 0, 0])) 0 (c_array 9) 9
     = stop Null_Deref"
proof -
  let ?m = "[20, 0, 18, 0] @ attr 1 (vlan_kind @ [0, 0, 0])"
  have "hdr_at ?m 0 20 18" "attr_at ?m 4 1 (vlan_kind @ [0, 0, 0])" by (simp_all add: attr_eval)
  then have "kind_at linux_uapi ?m 0 (vlan_kind @ [0, 0, 0])"
    using linux_link_labels by (intro kind_atI) simp_all
  moreover have "4 dvd length (vlan_kind @ [0, 0, 0])" "0 \<in> set (vlan_kind @ [0, 0, 0])" by code_simp+
  moreover have "map char_of_byte (takeWhile (\<lambda>c. c \<noteq> 0) (vlan_kind @ [0, 0, 0])) = ''vlan''"
    by (simp add: vlan_kind_def char_of_byte_def char_of_def bit_0)
  ultimately show ?thesis
    using linkinfo_padded_kind_crashes by (simp add: vlan_kind_facts)
qed

theorem linkinfo_unknown_kind_witness:
  "\<exists>b. snd (rta_to_str_IFLA_LINKINFO linux_uapi ([12, 0, 18, 0] @ attr 1 [0x74, 0x75, 0x6e, 0]) 0 (c_array 99) 99)
       = Inr b \<and> c_str b = ''UNKNOWN LINK KIND (tun)''"
proof -
  let ?m = "[12, 0, 18, 0] @ attr 1 [0x74, 0x75, 0x6e, 0]"
  have h: "hdr_at ?m 0 12 18" and "attr_at ?m 4 1 [0x74, 0x75, 0x6e, 0]" by (simp_all add: attr_eval)
  then have k: "kind_at linux_uapi ?m 0 [0x74, 0x75, 0x6e, 0]"
    using linux_link_labels by (intro kind_atI) simp_all
  have "map char_of_byte (takeWhile (\<lambda>c. c \<noteq> 0) [0x74, 0x75, 0x6e, 0]) = ''tun''"
    by (simp add: char_of_byte_def char_of_def bit_0)
  from linkinfo_unknown_kind [OF k _ _ this _ hdr_at_len [OF h], of "c_array 99" 99] show ?thesis
    by auto
qed

end
