(* ===== verification/Names.thy ===== *)
theory Names
  imports Uapi Hexdump
begin

text \<open>
  \<open>yalin/yalin/types.h\<close> and \<open>filter.h\<close>: the five \<open>switch\<close> functions that name a constant of the
  kernel's headers. A \<open>switch\<close> is its list of cases, label and returned string, in the source's
  order; the labels' values come from the \<open>uapi\<close> parameter. The default branches differ:
  \<open>ifi_type_to_str\<close> returns a string, \<open>nlmsg_type_to_str\<close> and \<open>rta_type_to_str\<close> complain on
  \<open>stderr\<close> first, \<open>rtn_type_to_str\<close> and \<open>ifa_family_to_str\<close> end the process.
\<close>

section \<open>The code\<close>

fun switch :: "(string \<Rightarrow> nat) \<Rightarrow> (string \<times> 'a) list \<Rightarrow> nat \<Rightarrow> 'a option" where
  "switch c [] v = None"
| "switch c ((l, r) # cs) v = (if v = c l then Some r else switch c cs v)"

definition ifi_type_cases :: "(string \<times> string) list" where
  "ifi_type_cases =
    [(''ARPHRD_NETROM'', ''NETROM''), (''ARPHRD_ETHER'', ''ETHER''),
     (''ARPHRD_EETHER'', ''EETHER''), (''ARPHRD_AX25'', ''AX25''),
     (''ARPHRD_PRONET'', ''PRONET''), (''ARPHRD_CHAOS'', ''CHAOS''),
     (''ARPHRD_IEEE802'', ''IEEE802''), (''ARPHRD_ARCNET'', ''ARCNET''),
     (''ARPHRD_APPLETLK'', ''APPLETLK''), (''ARPHRD_DLCI'', ''DLCI''),
     (''ARPHRD_ATM'', ''ATM''), (''ARPHRD_METRICOM'', ''METRICOM''),
     (''ARPHRD_IEEE1394'', ''IEEE1394''), (''ARPHRD_EUI64'', ''EUI64''),
     (''ARPHRD_INFINIBAND'', ''INFINIBAND''), (''ARPHRD_SLIP'', ''SLIP''),
     (''ARPHRD_CSLIP'', ''CSLIP''), (''ARPHRD_SLIP6'', ''SLIP6''),
     (''ARPHRD_CSLIP6'', ''CSLIP6''), (''ARPHRD_RSRVD'', ''RSRVD''),
     (''ARPHRD_ADAPT'', ''ADAPT''), (''ARPHRD_ROSE'', ''ROSE''), (''ARPHRD_X25'', ''X25''),
     (''ARPHRD_HWX25'', ''HWX25''), (''ARPHRD_PPP'', ''PPP''), (''ARPHRD_CISCO'', ''CISCO''),
     (''ARPHRD_LAPB'', ''LAPB''), (''ARPHRD_DDCMP'', ''DDCMP''),
     (''ARPHRD_RAWHDLC'', ''RAWHDLC''), (''ARPHRD_TUNNEL'', ''TUNNEL''),
     (''ARPHRD_TUNNEL6'', ''TUNNEL6''), (''ARPHRD_FRAD'', ''FRAD''),
     (''ARPHRD_SKIP'', ''SKIP''), (''ARPHRD_LOOPBACK'', ''LOOPBACK''),
     (''ARPHRD_LOCALTLK'', ''LOCALTLK''), (''ARPHRD_FDDI'', ''FDDI''),
     (''ARPHRD_BIF'', ''BIF''), (''ARPHRD_SIT'', ''SIT''), (''ARPHRD_IPDDP'', ''IPDDP''),
     (''ARPHRD_IPGRE'', ''IPGRE''), (''ARPHRD_PIMREG'', ''PIMREG''),
     (''ARPHRD_HIPPI'', ''HIPPI''), (''ARPHRD_ASH'', ''ASH''), (''ARPHRD_ECONET'', ''ECONET''),
     (''ARPHRD_IRDA'', ''IRDA''), (''ARPHRD_FCPP'', ''FCPP''), (''ARPHRD_FCAL'', ''FCAL''),
     (''ARPHRD_FCPL'', ''FCPL''), (''ARPHRD_FCFABRIC'', ''FCFABRIC''),
     (''ARPHRD_IEEE802_TR'', ''IEEE802_TR''), (''ARPHRD_IEEE80211'', ''IEEE80211''),
     (''ARPHRD_IEEE80211_PRISM'', ''IEEE80211_PRISM''),
     (''ARPHRD_IEEE80211_RADIOTAP'', ''IEEE80211_RADIOTAP''),
     (''ARPHRD_IEEE802154'', ''IEEE802154''), (''ARPHRD_VOID'', ''VOID''),
     (''ARPHRD_NONE'', ''NONE'')]"

definition ifi_type_to_str :: "uapi \<Rightarrow> u16 \<Rightarrow> string" where
  "ifi_type_to_str U type =
     (case switch (uconst U) ifi_type_cases (unat type) of
        Some s \<Rightarrow> s
      | None \<Rightarrow> ''unknown'')"

definition nlmsg_type_cases :: "(string \<times> string) list" where
  "nlmsg_type_cases =
    [(''RTM_NEWLINK'', ''RTM_NEWLINK''), (''RTM_DELLINK'', ''RTM_DELLINK''),
     (''RTM_GETLINK'', ''RTM_GETLINK''), (''RTM_NEWADDR'', ''RTM_NEWADDR''),
     (''RTM_DELADDR'', ''RTM_DELADDR''), (''RTM_GETADDR'', ''RTM_GETADDR''),
     (''RTM_NEWROUTE'', ''RTM_NEWROUTE''), (''RTM_DELROUTE'', ''RTM_DELROUTE''),
     (''RTM_GETROUTE'', ''RTM_GETROUTE''), (''RTM_NEWNEIGH'', ''RTM_NEWNEIGH''),
     (''RTM_DELNEIGH'', ''RTM_DELNEIGH''), (''RTM_GETNEIGH'', ''RTM_GETNEIGH''),
     (''RTM_NEWRULE'', ''RTM_NEWRULE''), (''RTM_DELRULE'', ''RTM_DELRULE''),
     (''RTM_GETRULE'', ''RTM_GETRULE''), (''RTM_NEWQDISC'', ''RTM_NEWQDISC''),
     (''RTM_DELQDISC'', ''RTM_DELQDISC''), (''RTM_GETQDISC'', ''RTM_GETQDISC''),
     (''RTM_NEWTCLASS'', ''RTM_NEWTCLASS''), (''RTM_DELTCLASS'', ''RTM_DELTCLASS''),
     (''RTM_GETTCLASS'', ''RTM_GETTCLASS''), (''RTM_NEWTFILTER'', ''RTM_NEWTFILTER''),
     (''RTM_DELTFILTER'', ''RTM_DELTFILTER''), (''RTM_GETTFILTER'', ''RTM_GETTFILTER'')]"

definition nlmsg_type_to_str :: "uapi \<Rightarrow> u16 \<Rightarrow> string io" where
  "nlmsg_type_to_str U type =
     (case switch (uconst U) nlmsg_type_cases (unat type) of
        Some s \<Rightarrow> ret s
      | None \<Rightarrow>
          io_seq (put Std_err (''nlmsg_type_to_str: unknown('' @ fmt_u (unat type) @ '')'' @ [NL]))
            (ret ''UNKOWN''))"

definition rtn_type_cases :: "(string \<times> string) list" where
  "rtn_type_cases =
    [(''RTN_UNSPEC'', ''RTN_UNSPEC''), (''RTN_UNICAST'', ''RTN_UNICAST''),
     (''RTN_LOCAL'', ''RTN_LOCAL''), (''RTN_BROADCAST'', ''RTN_BROADCAST''),
     (''RTN_ANYCAST'', ''RTN_ANYCAST''), (''RTN_MULTICAST'', ''RTN_MULTICAST''),
     (''RTN_BLACKHOLE'', ''RTN_BLACKHOLE''), (''RTN_UNREACHABLE'', ''RTN_UNREACHABLE''),
     (''RTN_PROHIBIT'', ''RTN_PROHIBIT''), (''RTN_THROW'', ''RTN_THROW''),
     (''RTN_NAT'', ''RTN_NAT''), (''RTN_XRESOLVE'', ''RTN_XRESOLVE'')]"

definition rtn_type_to_str :: "uapi \<Rightarrow> u8 \<Rightarrow> string io" where
  "rtn_type_to_str U type =
     (case switch (uconst U) rtn_type_cases (unat type) of
        Some s \<Rightarrow> ret s
      | None \<Rightarrow>
          io_seq (put Std_err (''rtn_type_to_str: unknown('' @ fmt_u (unat type) @ '')'' @ [NL]))
            (stop (Exit 1)))"

definition ifa_family_cases :: "(string \<times> string) list" where
  "ifa_family_cases =
    [(''AF_UNSPEC'', ''AF_UNSPEC''), (''AF_UNIX'', ''AF_UNIX''), (''AF_INET'', ''AF_INET''),
     (''AF_AX25'', ''AF_AX25''), (''AF_IPX'', '';AF_IPX''),
     (''AF_APPLETALK'', ''AF_APPLETALK''), (''AF_NETROM'', ''AF_NETROM''),
     (''AF_BRIDGE'', ''AF_BRIDGE''), (''AF_ATMPVC'', ''AF_ATMPVC''), (''AF_X25'', ''AF_X25''),
     (''AF_INET6'', ''AF_INET6''), (''AF_ROSE'', ''AF_ROSE''), (''AF_DECnet'', ''AF_DECnet''),
     (''AF_NETBEUI'', ''AF_NETBEUI''), (''AF_SECURITY'', ''AF_SECURITY''),
     (''AF_KEY'', ''AF_KEY''), (''AF_NETLINK'', ''AF_NETLINK''), (''AF_PACKET'', ''AF_PACKET''),
     (''AF_ASH'', ''AF_ASH''), (''AF_ECONET'', ''AF_ECONET''), (''AF_ATMSVC'', ''AF_ATMSVC''),
     (''AF_RDS'', ''AF_RDS''), (''AF_SNA'', ''AF_SNA''), (''AF_IRDA'', ''AF_IRDA''),
     (''AF_PPPOX'', ''AF_PPPOX''), (''AF_WANPIPE'', ''AF_WANPIPE''), (''AF_LLC'', ''AF_LLC''),
     (''AF_IB'', ''AF_IB''), (''AF_MPLS'', ''AF_MPLS''), (''AF_CAN'', ''AF_CAN''),
     (''AF_TIPC'', ''AF_TIPC''), (''AF_BLUETOOTH'', ''AF_BLUETOOTH''),
     (''AF_IUCV'', ''AF_IUCV''), (''AF_RXRPC'', ''AF_RXRPC''), (''AF_ISDN'', ''AF_ISDN''),
     (''AF_PHONET'', ''AF_PHONET''), (''AF_IEEE802154'', ''AF_IEEE802154''),
     (''AF_CAIF'', ''AF_CAIF''), (''AF_ALG'', ''AF_ALG''), (''AF_NFC'', ''AF_NFC''),
     (''AF_VSOCK'', ''AF_VSOCK''), (''AF_MAX'', ''AF_MAX'')]"

definition ifa_family_to_str :: "uapi \<Rightarrow> u8 \<Rightarrow> string io" where
  "ifa_family_to_str U family =
     (case switch (uconst U) ifa_family_cases (unat family) of
        Some s \<Rightarrow> ret s
      | None \<Rightarrow>
          io_seq (put Std_err (''ifa_family_to_str: unknown'' @ [NL])) (stop (Exit 1)))"

definition rta_type_cases :: "(string \<times> string) list" where
  "rta_type_cases =
    [(''IFLA_UNSPEC'', ''IFLA_UNSPEC''), (''IFLA_ADDRESS'', ''IFLA_ADDRESS''),
     (''IFLA_BROADCAST'', ''IFLA_BROADCAST''), (''IFLA_IFNAME'', ''IFLA_IFNAME''),
     (''IFLA_MTU'', ''IFLA_MTU''), (''IFLA_LINK'', ''IFLA_LINK ''),
     (''IFLA_QDISC'', ''IFLA_QDISC''), (''IFLA_STATS'', ''IFLA_STATS''),
     (''IFLA_COST'', ''IFLA_COST''), (''IFLA_PRIORITY'', ''IFLA_PRIORITY''),
     (''IFLA_MASTER'', ''IFLA_MASTER''), (''IFLA_WIRELESS'', ''IFLA_WIRELESS''),
     (''IFLA_PROTINFO'', ''IFLA_PROTINFO''), (''IFLA_TXQLEN'', ''IFLA_TXQLEN''),
     (''IFLA_MAP'', ''IFLA_MAP''), (''IFLA_WEIGHT'', ''IFLA_WEIGHT''),
     (''IFLA_OPERSTATE'', ''IFLA_OPERSTATE''), (''IFLA_LINKMODE'', ''IFLA_LINKMODE''),
     (''IFLA_LINKINFO'', ''IFLA_LINKINFO''), (''IFLA_NET_NS_PID'', ''IFLA_NET_NS_PID''),
     (''IFLA_IFALIAS'', ''IFLA_IFALIAS''), (''IFLA_NUM_VF'', ''IFLA_NUM_VF''),
     (''IFLA_VFINFO_LIST'', ''IFLA_VFINFO_LIST''), (''IFLA_STATS64'', ''IFLA_STATS64''),
     (''IFLA_VF_PORTS'', ''IFLA_VF_PORTS''), (''IFLA_PORT_SELF'', ''IFLA_PORT_SELF''),
     (''IFLA_AF_SPEC'', ''IFLA_AF_SPEC''), (''IFLA_GROUP'', ''IFLA_GROUP''),
     (''IFLA_NET_NS_FD'', ''IFLA_NET_NS_FD''), (''IFLA_EXT_MASK'', ''IFLA_EXT_MASK''),
     (''IFLA_PROMISCUITY'', ''IFLA_PROMISCUITY''),
     (''IFLA_NUM_TX_QUEUES'', ''IFLA_NUM_TX_QUEUES''),
     (''IFLA_NUM_RX_QUEUES'', ''IFLA_NUM_RX_QUEUES''), (''IFLA_CARRIER'', ''IFLA_CARRIER''),
     (''IFLA_PHYS_PORT_ID'', ''IFLA_PHYS_PORT_ID''),
     (''IFLA_CARRIER_CHANGES'', ''IFLA_CARRIER_CHANGES''),
     (''IFLA_PHYS_SWITCH_ID'', ''IFLA_PHYS_SWITCH_ID''),
     (''IFLA_LINK_NETNSID'', ''IFLA_LINK_NETNSID''),
     (''IFLA_PHYS_PORT_NAME'', ''IFLA_PHYS_PORT_NAME''),
     (''IFLA_PROTO_DOWN'', ''IFLA_PROTO_DOWN'')]"

definition rta_type_to_str :: "uapi \<Rightarrow> u16 \<Rightarrow> string io" where
  "rta_type_to_str U type =
     (case switch (uconst U) rta_type_cases (unat type) of
        Some s \<Rightarrow> ret s
      | None \<Rightarrow>
          io_seq (put Std_err (''rta_type_to_str: unknown('' @ fmt_u (unat type) @ '')'' @ [NL]))
            (ret ''unknown''))"

text \<open>\<open>filter.h\<close>\<close>

definition netlink_is_link_msg :: "uapi \<Rightarrow> mem \<Rightarrow> nat \<Rightarrow> bool io" where
  "netlink_is_link_msg U m hdr =
     io_bind (nlmsg_type m hdr) (\<lambda>type. ret
       (unat type = uconst U ''RTM_NEWLINK'' \<or> unat type = uconst U ''RTM_DELLINK''
          \<or> unat type = uconst U ''RTM_GETLINK''))"

section \<open>The contract of a naming switch\<close>

text \<open>
  A switch over labels with different values that returns different strings is a naming: each
  label gets its own string, and the string determines the value.
\<close>

locale naming =
  fixes c :: "string \<Rightarrow> nat" and cases :: "(string \<times> string) list"
  assumes labels: "distinct (map (c \<circ> fst) cases)"
    and strings: "distinct (map snd cases)"
begin

lemma hit: "(l, s) \<in> set cases \<Longrightarrow> switch c cases (c l) = Some s"
proof -
  have "distinct (map (c \<circ> fst) cs) \<Longrightarrow> (l, s) \<in> set cs \<Longrightarrow> switch c cs (c l) = Some s" for cs
    by (induction cs) (auto simp: image_iff)
  with labels show "(l, s) \<in> set cases \<Longrightarrow> switch c cases (c l) = Some s" by blast
qed

lemma found: "switch c cases v = Some s \<Longrightarrow> \<exists>l. (l, s) \<in> set cases \<and> v = c l"
proof -
  have "switch c cs v = Some s \<Longrightarrow> \<exists>l. (l, s) \<in> set cs \<and> v = c l" for cs
    by (induction cs) (auto split: if_splits)
  then show "switch c cases v = Some s \<Longrightarrow> \<exists>l. (l, s) \<in> set cases \<and> v = c l" by blast
qed

lemma miss: "switch c cases v = None \<longleftrightarrow> v \<notin> c ` fst ` set cases"
proof -
  have "switch c cs v = None \<longleftrightarrow> v \<notin> c ` fst ` set cs" for cs :: "(string \<times> string) list"
    by (induction cs) (auto split: if_splits)
  then show ?thesis .
qed

lemma string_determines: "switch c cases v = Some s \<Longrightarrow> switch c cases w = Some s \<Longrightarrow> v = w"
proof -
  assume "switch c cases v = Some s" "switch c cases w = Some s"
  then obtain l l' where "(l, s) \<in> set cases" "v = c l" "(l', s) \<in> set cases" "w = c l'"
    by (blast dest: found)
  moreover from this(1,3) strings have "l = l'"
    by (metis (no_types, lifting) distinct_map inj_on_contraD prod.inject snd_conv)
  ultimately show ?thesis by simp
qed

end

text \<open>Headers in which every switch of \<open>types.h\<close> compiles.\<close>

locale uapi_names =
  fixes U :: uapi
  assumes ifi: "labels_distinct U (map fst ifi_type_cases)"
    and nlmsg: "labels_distinct U (map fst nlmsg_type_cases)"
    and rtn: "labels_distinct U (map fst rtn_type_cases)"
    and ifa: "labels_distinct U (map fst ifa_family_cases)"
    and rta: "labels_distinct U (map fst rta_type_cases)"

lemma ifi_strings: "distinct (map snd ifi_type_cases)"
  by (simp add: ifi_type_cases_def)

lemma nlmsg_strings: "distinct (map snd nlmsg_type_cases)"
  by (simp add: nlmsg_type_cases_def)

lemma rtn_strings: "distinct (map snd rtn_type_cases)"
  by (simp add: rtn_type_cases_def)

lemma ifa_strings: "distinct (map snd ifa_family_cases)"
  by (simp add: ifa_family_cases_def)

lemma rta_strings: "distinct (map snd rta_type_cases)"
  by (simp add: rta_type_cases_def)

sublocale uapi_names \<subseteq> ifi_n: naming "uconst U" ifi_type_cases
  by unfold_locales (use ifi ifi_strings in \<open>simp_all add: labels_distinct_def\<close>)

sublocale uapi_names \<subseteq> nlmsg_n: naming "uconst U" nlmsg_type_cases
  by unfold_locales (use nlmsg nlmsg_strings in \<open>simp_all add: labels_distinct_def\<close>)

sublocale uapi_names \<subseteq> rtn_n: naming "uconst U" rtn_type_cases
  by unfold_locales (use rtn rtn_strings in \<open>simp_all add: labels_distinct_def\<close>)

sublocale uapi_names \<subseteq> ifa_n: naming "uconst U" ifa_family_cases
  by unfold_locales (use ifa ifa_strings in \<open>simp_all add: labels_distinct_def\<close>)

sublocale uapi_names \<subseteq> rta_n: naming "uconst U" rta_type_cases
  by unfold_locales (use rta rta_strings in \<open>simp_all add: labels_distinct_def\<close>)

context uapi_names begin

lemmas names_hit = ifi_n.hit nlmsg_n.hit rtn_n.hit ifa_n.hit rta_n.hit

lemmas names_string_determines =
  ifi_n.string_determines nlmsg_n.string_determines rtn_n.string_determines
  ifa_n.string_determines rta_n.string_determines

end

lemma linux_labels_family:
  assumes "map fst cases = map (\<lambda>e. p @ CHR ''_'' # fst e) t"
    and "CHR ''_'' \<notin> set p" and "linux_family p = t @ u" and "distinct (map fst t)"
    and "distinct (map snd t)"
  shows "labels_distinct linux_uapi (map fst cases)"
  unfolding labels_distinct_def linux_uapi_sel assms(1) linux_const_labels [OF assms(2-4)] by (rule assms(5))

lemma linux_labels_ifi: "labels_distinct linux_uapi (map fst ifi_type_cases)"
  by (rule linux_labels_family [where p = "''ARPHRD''" and t = linux_arphrd and u = "[]"])
    (simp_all add: ifi_type_cases_def linux_family_def linux_arphrd_def)

lemma linux_labels_nlmsg: "labels_distinct linux_uapi (map fst nlmsg_type_cases)"
  by (rule linux_labels_family [where p = "''RTM''" and t = linux_rtm and u = "[]"])
    (simp_all add: nlmsg_type_cases_def linux_family_def linux_rtm_def)

lemma linux_labels_rtn: "labels_distinct linux_uapi (map fst rtn_type_cases)"
  by (rule linux_labels_family [where p = "''RTN''" and t = linux_rtn and u = "[]"])
    (simp_all add: rtn_type_cases_def linux_family_def linux_rtn_def)

lemma linux_labels_ifa: "labels_distinct linux_uapi (map fst ifa_family_cases)"
  by (rule linux_labels_family [where p = "''AF''" and t = linux_af and u = "[]"])
    (simp_all add: ifa_family_cases_def linux_family_def linux_af_def)

lemma linux_labels_rta: "labels_distinct linux_uapi (map fst rta_type_cases)"
  by (rule linux_labels_family [where p = "''IFLA''" and t = linux_ifla and u = linux_ifla_nested])
    (simp_all add: rta_type_cases_def linux_family_def linux_ifla_def)

lemmas linux_labels =
  linux_labels_ifi linux_labels_nlmsg linux_labels_rtn linux_labels_ifa linux_labels_rta

interpretation linux_names: uapi_names linux_uapi
  by unfold_locales (rule linux_labels)+

section \<open>Properties\<close>

lemma put_stop_neq_ret [simp]: "io_bind (put s t) f \<noteq> ret a"
  by (auto simp: io_bind_def put_def ret_def split: sum.splits)

lemma name_iff_switch:
  "nlmsg_type_to_str U a = ret s \<longleftrightarrow> switch (uconst U) nlmsg_type_cases (unat a) = Some s"
  "rtn_type_to_str U d = ret s \<longleftrightarrow> switch (uconst U) rtn_type_cases (unat d) = Some s"
  "ifa_family_to_str U d = ret s \<longleftrightarrow> switch (uconst U) ifa_family_cases (unat d) = Some s"
  "rta_type_to_str U a = ret s \<longleftrightarrow> switch (uconst U) rta_type_cases (unat a) = Some s"
  by (simp_all add: nlmsg_type_to_str_def rtn_type_to_str_def ifa_family_to_str_def
      rta_type_to_str_def split: option.split)

lemma ifi_name_iff_switch:
  "s \<noteq> ''unknown'' \<Longrightarrow> ifi_type_to_str U a = s \<longleftrightarrow> switch (uconst U) ifi_type_cases (unat a) = Some s"
  by (auto simp: ifi_type_to_str_def split: option.split)

lemma ifi_name_switch:
  "switch (uconst U) ifi_type_cases (unat a) = Some s \<Longrightarrow> ifi_type_to_str U a = s"
  by (simp add: ifi_type_to_str_def)

lemma word_unat_inject: "unat a = unat b \<Longrightarrow> a = b" for a b :: "'a::len word"
  by (simp add: word_unat_eq_iff)

text \<open>
  Every case label of the five naming functions gets the string written beside it, with nothing
  printed: no earlier case shadows it.
\<close>

theorem names_of_labels:
  assumes "uapi_names U"
  shows "(\<forall>(l, s) \<in> set ifi_type_cases. \<forall>v. unat v = uconst U l \<longrightarrow> ifi_type_to_str U v = s) \<and>
    (\<forall>(l, s) \<in> set nlmsg_type_cases. \<forall>v. unat v = uconst U l \<longrightarrow> nlmsg_type_to_str U v = ret s) \<and>
    (\<forall>(l, s) \<in> set rtn_type_cases. \<forall>v. unat v = uconst U l \<longrightarrow> rtn_type_to_str U v = ret s) \<and>
    (\<forall>(l, s) \<in> set ifa_family_cases. \<forall>v. unat v = uconst U l \<longrightarrow> ifa_family_to_str U v = ret s) \<and>
    (\<forall>(l, s) \<in> set rta_type_cases. \<forall>v. unat v = uconst U l \<longrightarrow> rta_type_to_str U v = ret s)"
proof -
  note hit = uapi_names.names_hit [OF assms]
  have "ifi_type_to_str U v = s" if "(l, s) \<in> set ifi_type_cases" "unat v = uconst U l" for l s v
    using hit(1) [OF that(1)] that(2) by (intro ifi_name_switch) simp
  moreover have "nlmsg_type_to_str U v = ret s" if "(l, s) \<in> set nlmsg_type_cases" "unat v = uconst U l" for l s v
    using hit(2) [OF that(1)] that(2) by (simp add: name_iff_switch)
  moreover have "rtn_type_to_str U v = ret s" if "(l, s) \<in> set rtn_type_cases" "unat v = uconst U l" for l s v
    using hit(3) [OF that(1)] that(2) by (simp add: name_iff_switch)
  moreover have "ifa_family_to_str U v = ret s" if "(l, s) \<in> set ifa_family_cases" "unat v = uconst U l" for l s v
    using hit(4) [OF that(1)] that(2) by (simp add: name_iff_switch)
  moreover have "rta_type_to_str U v = ret s" if "(l, s) \<in> set rta_type_cases" "unat v = uconst U l" for l s v
    using hit(5) [OF that(1)] that(2) by (simp add: name_iff_switch)
  ultimately show ?thesis by fast
qed

theorem names_of_labels_witness:
  "rta_type_to_str linux_uapi 18 = ret ''IFLA_LINKINFO'' \<and> ifa_family_to_str linux_uapi 2 = ret ''AF_INET''"
proof -
  have "(''IFLA_LINKINFO'', ''IFLA_LINKINFO'') \<in> set rta_type_cases" "(''AF_INET'', ''AF_INET'') \<in> set ifa_family_cases"
    by (simp_all add: rta_type_cases_def ifa_family_cases_def)
  moreover have "unat (18 :: u16) = uconst linux_uapi ''IFLA_LINKINFO''" "unat (2 :: u8) = uconst linux_uapi ''AF_INET''"
    by (simp_all add: linux_eval)
  ultimately show ?thesis
    using names_of_labels [OF linux_names.uapi_names_axioms] by fastforce
qed

text \<open>
  The names are unambiguous: two values that a naming function names alike without complaining
  (without taking its default branch) are the same value.
\<close>

theorem names_determine_values:
  assumes "uapi_names U"
  shows "(ifi_type_to_str U a = s \<and> ifi_type_to_str U b = s \<and> s \<noteq> ''unknown'' \<longrightarrow> a = b) \<and>
    (nlmsg_type_to_str U a = ret s \<and> nlmsg_type_to_str U b = ret s \<longrightarrow> a = b) \<and>
    (rtn_type_to_str U d = ret s \<and> rtn_type_to_str U e = ret s \<longrightarrow> d = e) \<and>
    (ifa_family_to_str U d = ret s \<and> ifa_family_to_str U e = ret s \<longrightarrow> d = e) \<and>
    (rta_type_to_str U a = ret s \<and> rta_type_to_str U b = ret s \<longrightarrow> a = b)"
proof -
  note det = uapi_names.names_string_determines [OF assms]
  have "ifi_type_to_str U a = s \<and> ifi_type_to_str U b = s \<and> s \<noteq> ''unknown'' \<longrightarrow> a = b"
    using det(1) by (metis ifi_name_iff_switch word_unat_inject)
  then show ?thesis
    unfolding name_iff_switch
    using word_unat_inject [OF det(2), of a s b] word_unat_inject [OF det(3), of d s e]
      word_unat_inject [OF det(4), of d s e] word_unat_inject [OF det(5), of a s b] by fast
qed

theorem names_determine_values_witness:
  "rta_type_to_str linux_uapi 3 = ret ''IFLA_IFNAME'' \<and> rta_type_to_str linux_uapi 4 \<noteq> ret ''IFLA_IFNAME''"
proof -
  have three: "rta_type_to_str linux_uapi 3 = ret ''IFLA_IFNAME''"
    by (simp add: rta_type_to_str_def rta_type_cases_def linux_eval)
  moreover have "rta_type_to_str linux_uapi 4 \<noteq> ret ''IFLA_IFNAME''"
    using names_determine_values [OF linux_names.uapi_names_axioms, of 3 "''IFLA_IFNAME''" 4] three by auto
  ultimately show ?thesis by simp
qed

text \<open>
  A value that is no label takes the default branch: \<open>ifi_type_to_str\<close> answers silently,
  \<open>nlmsg_type_to_str\<close> and \<open>rta_type_to_str\<close> answer after a line on \<open>stderr\<close>, and
  \<open>rtn_type_to_str\<close> and \<open>ifa_family_to_str\<close> end the process with status 1.
\<close>

theorem names_of_unknown_values:
  shows "(unat a \<notin> uconst U ` fst ` set ifi_type_cases \<longrightarrow> ifi_type_to_str U a = ''unknown'') \<and>
    (unat a \<notin> uconst U ` fst ` set nlmsg_type_cases \<longrightarrow>
       snd (nlmsg_type_to_str U a) = Inr ''UNKOWN'' \<and>
       text_on Std_err (fst (nlmsg_type_to_str U a)) = ''nlmsg_type_to_str: unknown('' @ fmt_u (unat a) @ '')'' @ [NL]) \<and>
    (unat a \<notin> uconst U ` fst ` set rta_type_cases \<longrightarrow>
       snd (rta_type_to_str U a) = Inr ''unknown'' \<and>
       text_on Std_err (fst (rta_type_to_str U a)) = ''rta_type_to_str: unknown('' @ fmt_u (unat a) @ '')'' @ [NL]) \<and>
    (unat d \<notin> uconst U ` fst ` set rtn_type_cases \<longrightarrow> snd (rtn_type_to_str U d) = Inl (Exit 1)) \<and>
    (unat d \<notin> uconst U ` fst ` set ifa_family_cases \<longrightarrow> snd (ifa_family_to_str U d) = Inl (Exit 1))"
proof -
  have "v \<notin> c ` fst ` set cs \<Longrightarrow> switch c cs v = None" for c v and cs :: "(string \<times> string) list"
    by (induction cs) auto
  then show ?thesis
    by (auto simp: ifi_type_to_str_def nlmsg_type_to_str_def rtn_type_to_str_def ifa_family_to_str_def
        rta_type_to_str_def)
qed

theorem names_of_unknown_values_witness:
  "snd (rtn_type_to_str linux_uapi 200) = Inl (Exit 1)"
proof -
  have "unat (200 :: u8) \<notin> uconst linux_uapi ` fst ` set rtn_type_cases"
    by (simp add: rtn_type_cases_def linux_eval)
  then show ?thesis using names_of_unknown_values [of 0 linux_uapi 200] by blast
qed

text \<open>
  The strings of the message, route, family and attribute names are the labels themselves, but
  for two slips of the pen: \<open>AF_IPX\<close> is named \<open>;AF_IPX\<close> and \<open>IFLA_LINK\<close> has a blank behind it.
\<close>

theorem names_are_labels_but_two:
  "filter (\<lambda>(l, s). l \<noteq> s) (nlmsg_type_cases @ rtn_type_cases @ ifa_family_cases @ rta_type_cases) =
     [(''AF_IPX'', '';AF_IPX''), (''IFLA_LINK'', ''IFLA_LINK '')]"
  by (simp add: nlmsg_type_cases_def rtn_type_cases_def ifa_family_cases_def rta_type_cases_def)

end
