(* ===== verification/Rta_Str.thy ===== *)
theory Rta_Str
  imports Linkinfo Names
begin

text \<open>
  \<open>rta_to_str\<close> of \<open>yalin/yalin/rtattr.h\<close>: an attribute as text, one branch per attribute type. The
  branches that print bytes collect them with \<open>strncat\<close> in local arrays of 1000 and 10000
  characters whose size is not checked. The structures of \<open>linux/if_link.h\<close> are read at the
  offsets of the kernel's ABI: \<open>rtnl_link_stats64\<close> and \<open>rtnl_link_stats\<close> are 23 unsigned integers
  of 8 and 4 bytes in the order in which the source prints them.
\<close>

abbreviation TAB :: char where
  "TAB \<equiv> CHR 0x09"

section \<open>The code\<close>

definition any_label :: "uapi \<Rightarrow> u16 \<Rightarrow> string list \<Rightarrow> bool" where
  "any_label U t ls \<longleftrightarrow> list_ex (is_label U t) ls"

text \<open>
  The byte loops of the address branch (\<open>"%02x:"\<close>, a local array of 100) and of the default branch
  (\<open>"%02x"\<close>, a local array of 6).
\<close>

function hex_cat_loop :: "string \<Rightarrow> nat \<Rightarrow> mem \<Rightarrow> nat \<Rightarrow> nat \<Rightarrow> nat \<Rightarrow> cbuf \<Rightarrow> cbuf io" where
  "hex_cat_loop sep sub_size m ptr data_len i substr =
     (if i < data_len then
        io_bind (load8 m (ptr + i)) (\<lambda>b.
        io_bind (c_snprintf (c_array sub_size) sub_size (fmt_0x 2 (unat b) @ sep)) (\<lambda>sub.
        io_bind (c_strncat substr (c_str sub) (length (c_str sub))) (\<lambda>substr.
        hex_cat_loop sep sub_size m ptr data_len (i + 1) substr)))
      else ret substr)"
  by pat_completeness auto
termination
  by (relation "measure (\<lambda>(sep, sub_size, m, ptr, data_len, i, substr). data_len - i)") auto

declare hex_cat_loop.simps [simp del]

text \<open>Consecutive fields of a structure, and a format string cut in front of its conversions.\<close>

fun load_fields :: "nat \<Rightarrow> mem \<Rightarrow> nat \<Rightarrow> nat \<Rightarrow> nat list io" where
  "load_fields w m a 0 = ret []"
| "load_fields w m a (Suc k) =
     io_bind (load w m a) (\<lambda>v. io_bind (load_fields w m (a + w) k) (\<lambda>vs. ret (v # vs)))"

definition fmt_fields :: "string list \<Rightarrow> nat list \<Rightarrow> string" where
  "fmt_fields labels vs = concat (map (\<lambda>(l, v). l @ fmt_u v) (zip labels vs))"

definition stats64_labels :: "string list" where
  "stats64_labels =
    ['' '' @ [NL, TAB] @ ''rx_packets:'', '' tx_packets:'', '' rx_bytes:'', '' tx_bytes:'',
     '' '' @ [NL, TAB] @ ''rx_errors:'', '' tx_errors:'', '' rx_dropped:'', '' tx_dropped:'',
     '' '' @ [NL, TAB] @ ''multicast:'', '' collisions:'', '' rx_length_errors:'', '' rx_over_errors:'',
     '' '' @ [NL, TAB] @ ''rx_crc_errors:'', '' rx_frame_errors:'', '' rx_fifo_errors:'',
     '' '' @ [NL, TAB] @ ''rx_missed_errors:'', '' tx_aborted_errors:'', '' tx_carrier_errors:'',
     '' '' @ [NL, TAB] @ ''tx_fifo_errors:'', '' tx_heartbeat_errors:'', '' tx_window_errors:'',
     '' '' @ [NL, TAB] @ ''rx_compressed:'', '' tx_compressed:'']"

definition stats_labels :: "string list" where
  "stats_labels =
    ['' '' @ [NL, TAB] @ ''rx_packets:'', '' tx_packets:'', '' rx_bytes:'', '' tx_bytes:'', '' rx_errors:'',
     '' '' @ [NL, TAB] @ ''tx_errors:'', '' rx_dropped:'', '' tx_dropped:'', '' multicast:'', '' collisions:'',
     '' '' @ [NL, TAB] @ ''rx_length_errors:'', '' rx_over_errors:'', '' rx_crc_errors:'', '' rx_frame_errors:'',
     '' '' @ [NL, TAB] @ ''rx_fifo_errors:'', '' rx_missed_errors:'', '' tx_aborted_errors:'',
     '' '' @ [NL, TAB] @ ''tx_carrier_errors:'', '' tx_fifo_errors:'', '' tx_heartbeat_errors:'',
     '' '' @ [NL, TAB] @ ''tx_window_errors:'', '' rx_compressed:'', '' tx_compressed:'']"

definition ifmap_labels :: "string list" where
  "ifmap_labels =
    ['' '' @ [NL, TAB] @ ''mem_start:'', '' mem_end:'', '' '' @ [NL, TAB] @ ''base_addr:'', '' irq:'',
     '' dma:'', '' port:'']"

definition rta_to_str_IFLA_AF_SPEC :: "mem \<Rightarrow> nat \<Rightarrow> cbuf \<Rightarrow> nat \<Rightarrow> cbuf io" where
  "rta_to_str_IFLA_AF_SPEC m rta str len = c_snprintf str len ''IFLA_AF_SPEC <unsupported yet>''"

definition rta_to_str :: "uapi \<Rightarrow> mem \<Rightarrow> nat \<Rightarrow> cbuf \<Rightarrow> nat \<Rightarrow> cbuf io" where
  "rta_to_str U m rta str len =
     io_bind (rta_type m rta) (\<lambda>t.
       if is_label U t ''IFLA_IFNAME'' then
         io_bind (rta_type_to_str U t) (\<lambda>name.
         io_bind (load_str m (rta + 4)) (\<lambda>s.
         c_snprintf str len (name @ '' <'' @ s @ ''>'')))
       else if any_label U t [''IFLA_ADDRESS'', ''IFLA_BROADCAST''] then
         io_bind (c_memset0 (c_array 1000) 1000) (\<lambda>substr.
         io_bind (rta_len m rta) (\<lambda>l.
         let data_len = ucast l - 4 :: u64 in
         io_bind (hex_cat_loop '':'' 100 m (rta + 4) (unat data_len) 0 substr) (\<lambda>substr.
         io_bind (rta_type_to_str U t) (\<lambda>name.
         c_snprintf str len (name @ '' <'' @ c_str substr @ ''>'')))))
       else if is_label U t ''IFLA_STATS64'' then
         io_bind (rta_type_to_str U t) (\<lambda>name.
         io_bind (load_fields 8 m (rta + 4) 23) (\<lambda>st.
         c_snprintf str len (name @ fmt_fields stats64_labels st @ '' '' @ [NL])))
       else if is_label U t ''IFLA_STATS'' then
         io_bind (rta_type_to_str U t) (\<lambda>name.
         io_bind (load_fields 4 m (rta + 4) 23) (\<lambda>st.
         c_snprintf str len (name @ fmt_fields stats_labels st)))
       else if is_label U t ''IFLA_MAP'' then
         io_bind (rta_type_to_str U t) (\<lambda>name.
         io_bind (load_fields 8 m (rta + 4) 3) (\<lambda>addrs.
         io_bind (load 2 m (rta + 28)) (\<lambda>irq.
         io_bind (load 1 m (rta + 30)) (\<lambda>dma.
         io_bind (load 1 m (rta + 31)) (\<lambda>port.
         c_snprintf str len (name @ fmt_fields ifmap_labels (addrs @ [irq, dma, port])))))))
       else if is_label U t ''IFLA_PROMISCUITY'' then
         io_bind (load32 m (rta + 4)) (\<lambda>promisc.
         io_bind (rta_type_to_str U t) (\<lambda>name.
         c_snprintf str len (name @ '' <'' @ (if promisc \<noteq> 0 then ''promisc=on'' else ''promisc=off'') @ ''>'')))
       else if any_label U t [''IFLA_PROTO_DOWN'', ''IFLA_OPERSTATE'', ''IFLA_LINKMODE'', ''IFLA_CARRIER''] then
         io_bind (load8 m (rta + 4)) (\<lambda>num.
         io_bind (rta_type_to_str U t) (\<lambda>name.
         c_snprintf str len (name @ '' <'' @ fmt_u (unat num) @ ''>'')))
       else if any_label U t [''IFLA_NUM_TX_QUEUES'', ''IFLA_NUM_RX_QUEUES'', ''IFLA_MTU'', ''IFLA_LINK'',
           ''IFLA_GROUP'', ''IFLA_QDISC'', ''IFLA_CARRIER_CHANGES'', ''IFLA_TXQLEN''] then
         io_bind (load32 m (rta + 4)) (\<lambda>num.
         io_bind (rta_type_to_str U t) (\<lambda>name.
         c_snprintf str len (name @ '' <'' @ fmt_u (unat num) @ ''>'')))
       else if is_label U t ''IFLA_LINKINFO'' then rta_to_str_IFLA_LINKINFO U m rta str len
       else if is_label U t ''IFLA_AF_SPEC'' then rta_to_str_IFLA_AF_SPEC m rta str len
       else
         io_bind (c_memset0 (c_array 10000) 10000) (\<lambda>dstr.
         io_bind (rta_len m rta) (\<lambda>l.
         io_bind (hex_cat_loop [] 6 m (rta + 4) (unat (ucast l - 4 :: u64)) 0 dstr) (\<lambda>dstr.
         io_bind (rta_type_to_str U t) (\<lambda>name.
         io_bind (c_snprintf str len (name @ '' unsupport-data=<'' @ c_str dstr @ ''>'')) (\<lambda>str.
         io_seq (hexdump Std_out m rta (unat l)) (ret str)))))))"

section \<open>Every branch ends in the caller's array\<close>

definition leaves_string :: "nat \<Rightarrow> cbuf io \<Rightarrow> bool" where
  "leaves_string n x \<longleftrightarrow> (\<forall>b. snd x = Inr b \<longrightarrow> length b = n \<and> NUL \<in> set b)"

lemma leaves_string_bind [intro]: "(\<And>a. leaves_string n (f a)) \<Longrightarrow> leaves_string n (io_bind x f)"
  by (auto simp: leaves_string_def elim: snd_io_bind_InrE)

lemma leaves_string_stop [intro]: "leaves_string n (stop e)"
  by (simp add: leaves_string_def)

lemma leaves_string_snprintf [intro]: "length str = n \<Longrightarrow> 0 < n \<Longrightarrow> leaves_string n (c_snprintf str n s)"
  by (auto simp: leaves_string_def c_snprintf_def Let_def split: if_splits)

lemma leaves_string_then: "leaves_string n x \<Longrightarrow> leaves_string n (io_bind x (\<lambda>b. io_seq (f b) (ret b)))"
  by (auto simp: leaves_string_def elim!: snd_io_bind_InrE)

lemma leaves_string_then2:
  "leaves_string n x \<Longrightarrow> leaves_string n (io_bind x (\<lambda>b. io_bind y (\<lambda>k. io_seq (g k) (ret b))))"
  by (auto simp: leaves_string_def elim!: snd_io_bind_InrE)

lemma leaves_string_if [intro]: "leaves_string n x \<Longrightarrow> leaves_string n y \<Longrightarrow> leaves_string n (if c then x else y)"
  by simp

lemma leaves_string_option [intro]:
  "leaves_string n x \<Longrightarrow> (\<And>a. leaves_string n (f a)) \<Longrightarrow> leaves_string n (case v of None \<Rightarrow> x | Some a \<Rightarrow> f a)"
  by (simp split: option.split)

lemma leaves_string_prod [intro]: "(\<And>a b. leaves_string n (f a b)) \<Longrightarrow> leaves_string n (case p of (a, b) \<Rightarrow> f a b)"
  by (simp split: prod.split)

lemmas leaves_string_rules =
  leaves_string_then [OF leaves_string_snprintf] leaves_string_then2 [OF leaves_string_snprintf]
  leaves_string_snprintf leaves_string_stop leaves_string_if leaves_string_option leaves_string_prod
  leaves_string_bind

lemma leaves_string_linkinfo:
  "length str = n \<Longrightarrow> 0 < n \<Longrightarrow> leaves_string n (rta_to_str_IFLA_LINKINFO U m a str n)"
  unfolding rta_to_str_IFLA_LINKINFO_def Let_def by (intro leaves_string_rules)

lemma leaves_string_rta:
  "length str = n \<Longrightarrow> 0 < n \<Longrightarrow> leaves_string n (rta_to_str U m a str n)"
  unfolding rta_to_str_def rta_to_str_IFLA_AF_SPEC_def Let_def
  by (intro leaves_string_rules leaves_string_linkinfo)

section \<open>The byte loops\<close>

definition hex_text_sep :: "string \<Rightarrow> u8 list \<Rightarrow> string" where
  "hex_text_sep sep bs = concat (map (\<lambda>b. fmt_0x 2 (unat b) @ sep) bs)"

lemma length_hex_text_sep: "length (hex_text_sep sep bs) = (2 + length sep) * length bs"
proof -
  have "length (fmt_0x 2 (unat b)) = 2" for b :: u8
    using unat_word_less [of b] by (intro length_fmt_0x) simp_all
  then show ?thesis by (induction bs) (simp_all add: hex_text_sep_def)
qed

lemma NUL_notin_hex_text_sep: "NUL \<notin> set sep \<Longrightarrow> NUL \<notin> set (hex_text_sep sep bs)"
  by (induction bs) (simp_all add: hex_text_sep_def)

text \<open>\<open>holds k s d\<close>: the array of \<open>k\<close> characters holds the string \<open>s\<close>.\<close>

definition holds :: "nat \<Rightarrow> string \<Rightarrow> cbuf \<Rightarrow> bool" where
  "holds k s d \<longleftrightarrow> length d = k \<and> NUL \<in> set d \<and> c_str d = s"

lemma c_strncat_all:
  assumes "holds k s d" and "NUL \<notin> set t"
  shows "if length s + length t < k then \<exists>d'. c_strncat d t (length t) = ret d' \<and> holds k (s @ t) d'
    else c_strncat d t (length t) = stop Write_OOB"
proof (cases "length s + length t < k")
  case True
  let ?d = "s @ t @ NUL # drop (length s + length t + 1) d"
  have "NUL \<notin> set s" using assms(1) NUL_notin_c_str [of d] by (auto simp: holds_def)
  then have "holds k (s @ t) ?d"
    using assms True c_str_append_NUL [of "s @ t" "drop (length s + length t + 1) d"] by (auto simp: holds_def)
  then show ?thesis using assms True by (simp add: holds_def c_strncat_def Let_def)
qed (use assms in \<open>simp add: holds_def c_strncat_def Let_def\<close>)

lemma hex_cat_loop_text:
  assumes "holds k s d" and "NUL \<notin> set sep" and "2 + length sep < sub_size"
    and "ptr + n \<le> length m" and "i \<le> n"
  shows "if length s + (2 + length sep) * (n - i) < k \<or> i = n
    then \<exists>d'. hex_cat_loop sep sub_size m ptr n i d = ret d' \<and>
      holds k (s @ hex_text_sep sep (take (n - i) (drop (ptr + i) m))) d'
    else hex_cat_loop sep sub_size m ptr n i d = stop Write_OOB"
  using assms
proof (induction "n - i" arbitrary: i s d)
  case 0
  then have "i = n" by simp
  with 0 show ?case
    by (simp add: hex_cat_loop.simps [of sep sub_size m ptr n n d] hex_text_sep_def)
next
  case (Suc r)
  let ?b = "m ! (ptr + i)" and ?t = "fmt_0x 2 (unat (m ! (ptr + i))) @ sep"
  from Suc.hyps(2) have i: "i < n" by simp
  have t: "length ?t = 2 + length sep" "NUL \<notin> set ?t"
    using length_fmt_0x [of "unat ?b" 2] unat_word_less [of ?b] Suc.prems(2) by simp_all
  have sub: "c_snprintf (c_array sub_size) sub_size ?t = ret (?t @ NUL # drop (length ?t + 1) (c_array sub_size))"
    using t Suc.prems(3) by (simp add: c_snprintf_def Let_def)
  have loop: "hex_cat_loop sep sub_size m ptr n i d =
      io_bind (c_strncat d ?t (length ?t)) (hex_cat_loop sep sub_size m ptr n (i + 1))"
    using i sub t Suc.prems(4)
    by (subst hex_cat_loop.simps)
      (simp add: load8_in c_str_append_NUL [of ?t, simplified])
  have bytes: "take (n - i) (drop (ptr + i) m) = ?b # take (n - (i + 1)) (drop (ptr + (i + 1)) m)"
  proof -
    have "drop (ptr + i) m = ?b # drop (Suc (ptr + i)) m"
      using i Suc.prems(4) by (intro Cons_nth_drop_Suc [symmetric]) simp
    with i show ?thesis by (simp add: Suc_diff_Suc take_Cons')
  qed
  show ?case
  proof (cases "length s + length ?t < k")
    case True
    then obtain d' where d': "c_strncat d ?t (length ?t) = ret d'" "holds k (s @ ?t) d'"
      using c_strncat_all [OF Suc.prems(1) t(2)] by auto
    have IH: "if length (s @ ?t) + (2 + length sep) * (n - (i + 1)) < k \<or> i + 1 = n
      then \<exists>d''. hex_cat_loop sep sub_size m ptr n (i + 1) d' = ret d'' \<and>
        holds k ((s @ ?t) @ hex_text_sep sep (take (n - (i + 1)) (drop (ptr + (i + 1)) m))) d''
      else hex_cat_loop sep sub_size m ptr n (i + 1) d' = stop Write_OOB"
      using Suc.hyps(2) Suc.prems d'(2) i by (intro Suc.hyps(1)) auto
    have "n - i = Suc (n - (i + 1))" using i by simp
    then have c: "length s + (2 + length sep) * (n - i) = length (s @ ?t) + (2 + length sep) * (n - (i + 1))"
      using t by simp
    have "length (s @ ?t) + (2 + length sep) * (n - (i + 1)) < k \<or> i + 1 = n \<longleftrightarrow>
        length (s @ ?t) + (2 + length sep) * (n - (i + 1)) < k"
      using True by auto
    with IH i show ?thesis
      unfolding loop d'(1) bytes c by (simp add: hex_text_sep_def split: if_splits)
  next
    case False
    have "length ?t \<le> (2 + length sep) * (n - i)" using i t by (cases "n - i") auto
    with False i show ?thesis
      using c_strncat_all [OF Suc.prems(1) t(2)] unfolding loop by simp
  qed
qed

section \<open>Which branch is taken\<close>

definition handled_labels :: "string list" where
  "handled_labels =
    [''IFLA_IFNAME'', ''IFLA_ADDRESS'', ''IFLA_BROADCAST'', ''IFLA_STATS64'', ''IFLA_STATS'', ''IFLA_MAP'',
     ''IFLA_PROMISCUITY'', ''IFLA_PROTO_DOWN'', ''IFLA_OPERSTATE'', ''IFLA_LINKMODE'', ''IFLA_CARRIER'',
     ''IFLA_NUM_TX_QUEUES'', ''IFLA_NUM_RX_QUEUES'', ''IFLA_MTU'', ''IFLA_LINK'', ''IFLA_GROUP'',
     ''IFLA_QDISC'', ''IFLA_CARRIER_CHANGES'', ''IFLA_TXQLEN'', ''IFLA_LINKINFO'', ''IFLA_AF_SPEC'']"

lemma handled_are_named: "set handled_labels \<subseteq> set (map fst rta_type_cases)"
  by (simp add: handled_labels_def rta_type_cases_def)

lemma is_label_iff:
  assumes "uapi_names U" and "is_label U t l" and "l \<in> set handled_labels" and "l' \<in> set handled_labels"
  shows "is_label U t l' \<longleftrightarrow> l' = l"
proof -
  have d: "distinct (map (uconst U) (map fst rta_type_cases))"
    using assms(1) by (simp add: uapi_names_def labels_distinct_def)
  have "inj_on (uconst U) (set (map fst rta_type_cases))"
    using d by (simp only: distinct_map)
  moreover have "l \<in> set (map fst rta_type_cases)" "l' \<in> set (map fst rta_type_cases)"
    using assms(3,4) handled_are_named by blast+
  ultimately have "uconst U l' = uconst U l \<longleftrightarrow> l' = l" by (simp only: inj_on_eq_iff)
  then show ?thesis using assms(2) by (auto simp: is_label_def)
qed

lemma rta_name:
  assumes "uapi_names U" and "is_label U t l" and "(l, s) \<in> set rta_type_cases"
  shows "rta_type_to_str U t = ret s"
  using uapi_names.names_hit(5) [OF assms(1,3)] assms(2) by (simp add: rta_type_to_str_def is_label_def)

definition u8_labels :: "string list" where
  "u8_labels = [''IFLA_PROTO_DOWN'', ''IFLA_OPERSTATE'', ''IFLA_LINKMODE'', ''IFLA_CARRIER'']"

definition u32_labels :: "string list" where
  "u32_labels =
    [''IFLA_NUM_TX_QUEUES'', ''IFLA_NUM_RX_QUEUES'', ''IFLA_MTU'', ''IFLA_LINK'', ''IFLA_GROUP'',
     ''IFLA_QDISC'', ''IFLA_CARRIER_CHANGES'', ''IFLA_TXQLEN'']"

text \<open>The guards of the branches in terms of the one label that fits.\<close>

lemma branch_tests:
  assumes "uapi_names U" and "is_label U t l" and "l \<in> set handled_labels"
  shows "is_label U t ''IFLA_IFNAME'' \<longleftrightarrow> l = ''IFLA_IFNAME''"
    and "any_label U t [''IFLA_ADDRESS'', ''IFLA_BROADCAST''] \<longleftrightarrow> l \<in> {''IFLA_ADDRESS'', ''IFLA_BROADCAST''}"
    and "is_label U t ''IFLA_STATS64'' \<longleftrightarrow> l = ''IFLA_STATS64''"
    and "is_label U t ''IFLA_STATS'' \<longleftrightarrow> l = ''IFLA_STATS''"
    and "is_label U t ''IFLA_MAP'' \<longleftrightarrow> l = ''IFLA_MAP''"
    and "is_label U t ''IFLA_PROMISCUITY'' \<longleftrightarrow> l = ''IFLA_PROMISCUITY''"
    and "any_label U t [''IFLA_PROTO_DOWN'', ''IFLA_OPERSTATE'', ''IFLA_LINKMODE'', ''IFLA_CARRIER''] \<longleftrightarrow>
      l \<in> set u8_labels"
    and "any_label U t [''IFLA_NUM_TX_QUEUES'', ''IFLA_NUM_RX_QUEUES'', ''IFLA_MTU'', ''IFLA_LINK'',
      ''IFLA_GROUP'', ''IFLA_QDISC'', ''IFLA_CARRIER_CHANGES'', ''IFLA_TXQLEN''] \<longleftrightarrow> l \<in> set u32_labels"
proof -
  have "is_label U t l' \<longleftrightarrow> l = l'" if "l' \<in> set handled_labels" for l'
    using is_label_iff [OF assms that] by (simp only: eq_commute)
  then have all: "\<forall>l' \<in> set handled_labels. is_label U t l' \<longleftrightarrow> l = l'" by blast
  note tests = all [unfolded handled_labels_def list.set ball_simps]
  show "is_label U t ''IFLA_IFNAME'' \<longleftrightarrow> l = ''IFLA_IFNAME''"
    and "any_label U t [''IFLA_ADDRESS'', ''IFLA_BROADCAST''] \<longleftrightarrow> l \<in> {''IFLA_ADDRESS'', ''IFLA_BROADCAST''}"
    and "is_label U t ''IFLA_STATS64'' \<longleftrightarrow> l = ''IFLA_STATS64''"
    and "is_label U t ''IFLA_STATS'' \<longleftrightarrow> l = ''IFLA_STATS''"
    and "is_label U t ''IFLA_MAP'' \<longleftrightarrow> l = ''IFLA_MAP''"
    and "is_label U t ''IFLA_PROMISCUITY'' \<longleftrightarrow> l = ''IFLA_PROMISCUITY''"
    and "any_label U t [''IFLA_PROTO_DOWN'', ''IFLA_OPERSTATE'', ''IFLA_LINKMODE'', ''IFLA_CARRIER''] \<longleftrightarrow>
      l \<in> set u8_labels"
    and "any_label U t [''IFLA_NUM_TX_QUEUES'', ''IFLA_NUM_RX_QUEUES'', ''IFLA_MTU'', ''IFLA_LINK'',
      ''IFLA_GROUP'', ''IFLA_QDISC'', ''IFLA_CARRIER_CHANGES'', ''IFLA_TXQLEN''] \<longleftrightarrow> l \<in> set u32_labels"
    using tests by (simp_all only: any_label_def u8_labels_def u32_labels_def list_ex_iff list.set
        bex_simps insert_iff empty_iff simp_thms)
qed

lemma own_name:
  assumes "uapi_names U" and "is_label U t l" and "l \<in> {''IFLA_ADDRESS'', ''IFLA_BROADCAST'', ''IFLA_STATS64''}"
  shows "rta_type_to_str U t = ret l"
  using assms(3) by (intro rta_name [OF assms(1,2)]) (auto simp: rta_type_cases_def)

lemma attr_at_rta: "attr_at m a t p \<Longrightarrow> rta_type m a = ret t"
  by (auto dest!: attr_at_hdr simp: load_simps)

lemma rta_to_str_address:
  assumes "uapi_names U" and "is_label U t l" and "l \<in> {''IFLA_ADDRESS'', ''IFLA_BROADCAST''}"
    and "rta_type m a = ret t"
  shows "rta_to_str U m a str n =
    io_bind (rta_len m a) (\<lambda>k.
    io_bind (hex_cat_loop '':'' 100 m (a + 4) (unat (ucast k - 4 :: u64)) 0 (c_array 1000)) (\<lambda>substr.
    c_snprintf str n (l @ '' <'' @ c_str substr @ ''>'')))"
proof -
  have l: "l \<in> set handled_labels" using assms(3) by (auto simp: handled_labels_def)
  note tests = branch_tests [OF assms(1,2) l]
  have "l \<noteq> ''IFLA_IFNAME''" using assms(3) by auto
  moreover have "rta_type_to_str U t = ret l" using assms(3) by (intro own_name [OF assms(1,2)]) auto
  ultimately show ?thesis
    unfolding rta_to_str_def assms(4) Let_def
    using assms(3) by (simp only: tests c_memset0_all length_c_array io_bind_ret if_True if_False)
qed

lemma c_snprintf_ex:
  "NUL \<notin> set s \<Longrightarrow> length str = n \<Longrightarrow> 0 < n \<Longrightarrow> \<exists>b. c_snprintf str n s = ret b \<and> c_str b = take (n - 1) s"
  using c_snprintf_result [of s n str] by auto

lemma holds_c_array: "0 < k \<Longrightarrow> holds k [] (c_array k)"
  by (simp add: holds_def) (simp add: c_array_def)

lemma hex_cat_attr:
  assumes "attr_at m a t p" and "NUL \<notin> set sep" and "2 + length sep < sub_size" and "0 < k"
  shows "if (2 + length sep) * length p < k
    then \<exists>d. hex_cat_loop sep sub_size m (a + 4) (length p) 0 (c_array k) = ret d \<and>
      c_str d = hex_text_sep sep p
    else hex_cat_loop sep sub_size m (a + 4) (length p) 0 (c_array k) = stop Write_OOB"
  using hex_cat_loop_text [OF holds_c_array [OF assms(4)] assms(2,3), of "a + 4" "length p" m 0] assms(4)
    attr_at_payload [OF assms(1)]
  by (auto simp: holds_def split: if_splits)

lemma attr_at_data_len:
  assumes "attr_at m a t p"
  shows "unat (ucast (of_nat (4 + length p) :: u16) - 4 :: u64) = length p"
  using attr_at_unat_len [OF assms] by (subst unat_payload_len) simp_all

section \<open>Numbers and structures\<close>

lemma load_fields_bytes:
  assumes "take (w * length vs) (drop a m) = concat (map (le_bytes w) vs)" and "\<forall>v \<in> set vs. v < 256 ^ w" and "0 < w"
  shows "load_fields w m a (length vs) = ret vs"
  using assms
proof (induction vs arbitrary: a)
  case Nil
  then show ?case by simp
next
  case (Cons v vs)
  have split: "take w (drop a m) @ take (w * length vs) (drop (a + w) m) = le_bytes w v @ concat (map (le_bytes w) vs)"
    using Cons.prems(1) take_add [of w "w * length vs" "drop a m"] by (simp add: add.commute)
  have "length (concat (map (le_bytes w) (v # vs))) = w * length (v # vs)"
    by (induction vs) simp_all
  then have "w * length (v # vs) \<le> length m - a"
    using Cons.prems(1) by (metis length_drop length_take min.absorb_iff2 min.commute)
  then have "length (take w (drop a m)) = w" and fits: "0 < w \<Longrightarrow> a + w \<le> length m"
    by (cases "w = 0"; simp)+
  with split have v: "take w (drop a m) = le_bytes w v"
    and vs: "take (w * length vs) (drop (a + w) m) = concat (map (le_bytes w) vs)"
    by (simp_all add: append_eq_append_conv)
  have "le_nat (le_bytes w v) = v" using Cons.prems(2) by (simp add: le_nat_le_bytes_id)
  then show ?case
    using fits v Cons.IH [OF vs] Cons.prems(2,3) by (simp add: load_def)
qed

lemma blank_notin_fmt_u: "CHR '' '' \<notin> set (fmt_u n)"
proof
  assume "CHR '' '' \<in> set (fmt_u n)"
  then obtain d where "d < 16" "CHR '' '' = hexdigit d"
    using radix_set [of 10 n] by (auto simp: fmt_u_def)
  with hexdigit_graphic [of d] have "48 \<le> (of_char (CHR '' '') :: nat)" by simp
  then show False by simp
qed

lemma fmt_fields_Cons [simp]: "fmt_fields (l # ls) (v # vs) = l @ fmt_u v @ fmt_fields ls vs"
  by (simp add: fmt_fields_def)

lemma fmt_fields_Nil [simp]: "fmt_fields [] vs = []" "fmt_fields ls [] = []"
  by (simp_all add: fmt_fields_def)

definition blank_labels :: "string list \<Rightarrow> bool" where
  "blank_labels ls \<longleftrightarrow> (\<forall>l \<in> set ls. l \<noteq> [] \<and> hd l = CHR '' '')"

lemma fmt_fields_start:
  "blank_labels ls \<Longrightarrow> fmt_fields ls vs = [] \<or> (\<exists>r. fmt_fields ls vs = CHR '' '' # r)"
  by (cases ls; cases vs) (auto simp: blank_labels_def neq_Nil_conv)

lemma takeWhile_fmt_u:
  assumes "blank_labels ls"
  shows "takeWhile (\<lambda>c. c \<noteq> CHR '' '') (fmt_u v @ fmt_fields ls vs) = fmt_u v"
proof -
  have "takeWhile (\<lambda>c. c \<noteq> CHR '' '') (fmt_fields ls vs) = []"
    using fmt_fields_start [OF assms, of vs] by auto
  moreover have "\<forall>c \<in> set (fmt_u v). c \<noteq> CHR '' ''" using blank_notin_fmt_u [of v] by metis
  ultimately show ?thesis by (subst takeWhile_append2) auto
qed

lemma fmt_fields_inject:
  assumes "blank_labels ls" and "length vs = length ls" and "length vs' = length ls"
    and "fmt_fields ls vs = fmt_fields ls vs'"
  shows "vs = vs'"
  using assms
proof (induction ls arbitrary: vs vs')
  case Nil
  then show ?case by simp
next
  case (Cons l ls)
  from Cons.prems obtain v w v' w' where v: "vs = v # w" "vs' = v' # w'"
    by (metis length_Suc_conv length_Cons)
  have b: "blank_labels ls" using Cons.prems(1) by (simp add: blank_labels_def)
  from Cons.prems(4) v have e: "fmt_u v @ fmt_fields ls w = fmt_u v' @ fmt_fields ls w'" by simp
  then have u: "fmt_u v = fmt_u v'" using takeWhile_fmt_u [OF b] by metis
  then have "v = v'" by simp
  moreover have "w = w'"
    using Cons.prems(2,3) v e u by (intro Cons.IH [OF b]) simp_all
  ultimately show ?case using v by simp
qed

lemma length_fmt_fields:
  "length vs = length ls \<Longrightarrow> \<forall>v \<in> set vs. v < 10 ^ k \<Longrightarrow> 0 < k \<Longrightarrow>
   length (fmt_fields ls vs) \<le> length (concat ls) + k * length ls"
proof (induction ls arbitrary: vs)
  case Nil
  then show ?case by simp
next
  case (Cons l ls)
  then obtain v w where v: "vs = v # w" by (cases vs) auto
  have "length (fmt_u v) \<le> k" using Cons.prems v by (intro length_fmt_u) simp_all
  moreover have "length (fmt_fields ls w) \<le> length (concat ls) + k * length ls"
    using Cons.prems v by (intro Cons.IH) simp_all
  ultimately show ?case using v by simp
qed

lemma NUL_notin_fmt_fields: "NUL \<notin> set (concat ls) \<Longrightarrow> NUL \<notin> set (fmt_fields ls vs)"
  by (induction ls arbitrary: vs) (auto simp: fmt_fields_def split: list.splits dest!: set_zip_leftD)

lemma rta_case_strings: "\<forall>x \<in> set rta_type_cases. NUL \<notin> set (snd x)"
  by (simp add: rta_type_cases_def)

lemma stats64_facts:
  "length stats64_labels = 23" "blank_labels stats64_labels" "length (concat stats64_labels) \<le> 450"
  "NUL \<notin> set (concat stats64_labels)"
  by (simp_all add: stats64_labels_def blank_labels_def)

lemma linux_names_ok: "uapi_names linux_uapi"
  by (rule linux_names.uapi_names_axioms)

lemma attr_at_self: "length p < 65532 \<Longrightarrow> attr_at (attr t p @ post) 0 t p"
  using attr_at_segment [of p "[]" t post] by simp

section \<open>Properties\<close>

text \<open>
  C33: whenever \<open>rta_to_str\<close> returns, for any attribute bytes and any type, it leaves a terminated
  string in the caller's array and has not changed the array's size.
\<close>

theorem rta_to_str_terminates_string:
  assumes "snd (rta_to_str U m a str n) = Inr b" and "length str = n" and "0 < n"
  shows "length b = n \<and> length (c_str b) < n"
  using leaves_string_rta [OF assms(2,3)] assms(1) length_c_str_less
  by (fastforce simp: leaves_string_def)

theorem rta_to_str_terminates_string_witness:
  "\<exists>b. rta_to_str linux_uapi (attr 26 []) 0 (c_array 9) 9 = ret b \<and> length (c_str b) < 9"
proof -
  have "is_label linux_uapi 26 ''IFLA_AF_SPEC''" by (simp add: is_label_def linux_eval)
  then have "rta_to_str linux_uapi (attr 26 []) 0 (c_array 9) 9 =
      c_snprintf (c_array 9) 9 ''IFLA_AF_SPEC <unsupported yet>''"
    using attr_at_rta [OF attr_at_self [of "[]" 26 "[]"]]
    by (simp add: rta_to_str_def rta_to_str_IFLA_AF_SPEC_def any_label_def is_label_def linux_eval)
  moreover obtain b where "c_snprintf (c_array 9) 9 ''IFLA_AF_SPEC <unsupported yet>'' = ret b"
    by (simp add: c_snprintf_def Let_def)
  ultimately show ?thesis
    using rta_to_str_terminates_string [of linux_uapi "attr 26 []" 0 "c_array 9" 9 b] by simp
qed

text \<open>
  C25: an address attribute of up to 333 bytes is printed as its name and its bytes in hexadecimal,
  each followed by a colon; from 334 bytes on the local array of 1000 characters is written past
  its end.
\<close>

theorem rta_address_text:
  assumes "uapi_names U" and "is_label U t l" and "l \<in> {''IFLA_ADDRESS'', ''IFLA_BROADCAST''}"
    and "attr_at m a t p" and "length str = n" and "0 < n"
  shows "if length p \<le> 333
    then \<exists>b. rta_to_str U m a str n = ret b \<and> c_str b = take (n - 1) (l @ '' <'' @ hex_text_sep '':'' p @ ''>'')
    else rta_to_str U m a str n = stop Write_OOB"
proof -
  have branch: "rta_to_str U m a str n =
      io_bind (hex_cat_loop '':'' 100 m (a + 4) (length p) 0 (c_array 1000)) (\<lambda>substr.
      c_snprintf str n (l @ '' <'' @ c_str substr @ ''>''))"
    unfolding rta_to_str_address [OF assms(1-3) attr_at_rta [OF assms(4)]] attr_at_len [OF assms(4)]
    by (simp only: io_bind_ret attr_at_data_len [OF assms(4)])
  have "NUL \<notin> set (l @ '' <'' @ hex_text_sep '':'' p @ ''>'')"
    using assms(3) NUL_notin_hex_text_sep [of "'':''" p] by auto
  then obtain b where "c_snprintf str n (l @ '' <'' @ hex_text_sep '':'' p @ ''>'') = ret b"
    "c_str b = take (n - 1) (l @ '' <'' @ hex_text_sep '':'' p @ ''>'')"
    using c_snprintf_ex [OF _ assms(5,6)] by blast
  moreover have "3 * length p < 1000 \<longleftrightarrow> length p \<le> 333" by presburger
  ultimately show ?thesis
    using hex_cat_attr [OF assms(4), of "'':''" 100 1000] unfolding branch
    by (auto split: if_splits)
qed

theorem rta_address_text_witness:
  "(\<exists>b. rta_to_str linux_uapi (attr 1 [0xaa, 0xbb]) 0 (c_array 100) 100 = ret b \<and>
     c_str b = ''IFLA_ADDRESS <aa:bb:>'') \<and>
   rta_to_str linux_uapi (attr 1 (replicate 334 0)) 0 (c_array 100) 100 = stop Write_OOB"
proof -
  have l: "is_label linux_uapi 1 ''IFLA_ADDRESS''" by (simp add: is_label_def linux_eval)
  have at: "attr_at (attr 1 [0xaa, 0xbb]) 0 1 [0xaa, 0xbb]" "attr_at (attr 1 (replicate 334 0)) 0 1 (replicate 334 0)"
    using attr_at_self [of _ 1 "[]"] by simp_all
  have "hex_text_sep '':'' [0xaa, 0xbb] = ''aa:bb:''"
    by (simp add: hex_text_sep_def fmt_0x_def pad0_def radix.simps hexdigit_def)
  then show ?thesis
    using rta_address_text [OF linux_names_ok l _ at(1), of "c_array 100" 100]
      rta_address_text [OF linux_names_ok l _ at(2), of "c_array 100" 100] by simp
qed

lemma rta_type_to_str_string:
  "\<exists>s. snd (rta_type_to_str U t) = Inr s \<and> NUL \<notin> set s"
proof (cases "switch (uconst U) rta_type_cases (unat t)")
  case (Some s)
  have "switch c cs v = Some s \<Longrightarrow> s \<in> snd ` set cs" for c v and cs :: "(string \<times> string) list"
    by (induction c cs v rule: switch.induct) (auto split: if_splits)
  with Some have "s \<in> snd ` set rta_type_cases" by blast
  with Some show ?thesis using rta_case_strings by (auto simp: rta_type_to_str_def)
qed (simp add: rta_type_to_str_def)

text \<open>
  C26: an attribute of a type without a branch of its own, whether the type has a name or not, is printed
  as its name (\<open>unknown\<close>, with a complaint on the error output, if it has none) and its bytes in
  hexadecimal, and dumped on the standard output; from 5000 bytes on the local array of 10000 characters
  is written past its end before anything is printed.
\<close>

theorem rta_default_text:
  assumes "\<not> any_label U t handled_labels" and "attr_at m a t p" and "length str = n" and "0 < n"
  shows "if length p < 5000
    then \<exists>s b. snd (rta_type_to_str U t) = Inr s \<and>
      rta_to_str U m a str n = (fst (rta_type_to_str U t) @ fst (hexdump Std_out m a (4 + length p)), Inr b) \<and>
      c_str b = take (n - 1) (s @ '' unsupport-data=<'' @ hex_text_sep [] p @ ''>'')
    else rta_to_str U m a str n = stop Write_OOB"
proof -
  have none: "\<forall>l \<in> set handled_labels. \<not> is_label U t l"
    using assms(1) by (simp add: any_label_def list_ex_iff)
  have branch: "rta_to_str U m a str n =
      io_bind (hex_cat_loop [] 6 m (a + 4) (length p) 0 (c_array 10000)) (\<lambda>dstr.
      io_bind (rta_type_to_str U t) (\<lambda>name.
      io_bind (c_snprintf str n (name @ '' unsupport-data=<'' @ c_str dstr @ ''>'')) (\<lambda>str.
      io_seq (hexdump Std_out m a (4 + length p)) (ret str))))"
    unfolding rta_to_str_def attr_at_rta [OF assms(2)] attr_at_len [OF assms(2)] io_bind_ret
      attr_at_data_len [OF assms(2)] attr_at_unat_len [OF assms(2)] c_memset0_all [OF length_c_array [symmetric]]
    using none by (simp only: any_label_def list_ex_iff handled_labels_def list.set bex_simps ball_simps simp_thms if_False)
  obtain s where s: "snd (rta_type_to_str U t) = Inr s" "NUL \<notin> set s" using rta_type_to_str_string by blast
  then have "NUL \<notin> set (s @ '' unsupport-data=<'' @ hex_text_sep [] p @ ''>'')"
    using NUL_notin_hex_text_sep [of "[]" p] by simp
  then obtain b where b: "c_snprintf str n (s @ '' unsupport-data=<'' @ hex_text_sep [] p @ ''>'') = ret b"
    "c_str b = take (n - 1) (s @ '' unsupport-data=<'' @ hex_text_sep [] p @ ''>'')"
    using c_snprintf_ex [OF _ assms(3,4)] by blast
  have dump: "io_seq (hexdump Std_out m a (4 + length p)) (ret b) = (fst (hexdump Std_out m a (4 + length p)), Inr b)"
    using hexdump_text(1) [of a "4 + length p" m Std_out] attr_at_payload(2) [OF assms(2)]
    by (simp add: prod_eq_iff add.assoc)
  have name: "io_bind (rta_type_to_str U t) f = (fst (rta_type_to_str U t) @ fst (f s), snd (f s))" for f :: "string \<Rightarrow> cbuf io"
    by (simp add: prod_eq_iff s(1))
  have "2 * length p < 10000 \<longleftrightarrow> length p < 5000" by presburger
  with hex_cat_attr [OF assms(2), of "[]" 6 10000]
  have cat: "if length p < 5000 then \<exists>d. hex_cat_loop [] 6 m (a + 4) (length p) 0 (c_array 10000) = ret d \<and> c_str d = hex_text_sep [] p
      else hex_cat_loop [] 6 m (a + 4) (length p) 0 (c_array 10000) = stop Write_OOB"
    by (simp split: if_splits)
  show ?thesis
  proof (cases "length p < 5000")
    case True
    with cat obtain d where d: "hex_cat_loop [] 6 m (a + 4) (length p) 0 (c_array 10000) = ret d" "c_str d = hex_text_sep [] p"
      by auto
    have "rta_to_str U m a str n = (fst (rta_type_to_str U t) @ fst (hexdump Std_out m a (4 + length p)), Inr b)"
      unfolding branch d(1) io_bind_ret name d(2) b(1) dump by simp
    with True b(2) s(1) show ?thesis by auto
  next
    case False
    with cat show ?thesis unfolding branch by simp
  qed
qed

text \<open>A type that \<open>types.h\<close> names, and one it does not know.\<close>

theorem rta_default_text_witness:
  "(\<exists>b. snd (rta_to_str linux_uapi (attr 20 [0x41]) 0 (c_array 100) 100) = Inr b \<and>
     c_str b = ''IFLA_IFALIAS unsupport-data=<41>'') \<and>
   (\<exists>b. snd (rta_to_str linux_uapi (attr 99 [0x41]) 0 (c_array 100) 100) = Inr b \<and>
     c_str b = ''unknown unsupport-data=<41>'')"
proof -
  have n: "\<not> any_label linux_uapi 20 handled_labels" "\<not> any_label linux_uapi 99 handled_labels"
    by (simp_all add: any_label_def handled_labels_def is_label_def linux_eval)
  have at: "attr_at (attr t [0x41]) 0 t [0x41]" for t
    using attr_at_self [of _ t "[]"] by simp
  have s: "snd (rta_type_to_str linux_uapi 20) = Inr ''IFLA_IFALIAS''" "snd (rta_type_to_str linux_uapi 99) = Inr ''unknown''"
    by (simp_all add: rta_type_to_str_def rta_type_cases_def linux_eval)
  have h: "hex_text_sep [] [0x41] = ''41''"
    by (simp add: hex_text_sep_def fmt_0x_def pad0_def radix.simps hexdigit_def)
  have "\<exists>b. snd (rta_to_str linux_uapi (attr 20 [0x41]) 0 (c_array 100) 100) = Inr b \<and>
     c_str b = ''IFLA_IFALIAS unsupport-data=<41>''"
    using rta_default_text [OF n(1) at, of "c_array 100" 100] s(1) h by auto
  moreover have "\<exists>b. snd (rta_to_str linux_uapi (attr 99 [0x41]) 0 (c_array 100) 100) = Inr b \<and>
     c_str b = ''unknown unsupport-data=<41>''"
    using rta_default_text [OF n(2) at, of "c_array 100" 100] s(2) h by auto
  ultimately show ?thesis ..
qed

text \<open>
  An attribute of one of the eight 32-bit types or of the four 8-bit types is printed as its
  name and the decimal value it carries.
\<close>

theorem rta_number_text:
  assumes "uapi_names U" and "is_label U t l" and "(l, s) \<in> set rta_type_cases"
    and "length str = n" and "0 < n"
  shows "(l \<in> set u32_labels \<and> attr_at m a t (le_bytes 4 (unat (v :: u32))) \<longrightarrow>
      (\<exists>b. rta_to_str U m a str n = ret b \<and> c_str b = take (n - 1) (s @ '' <'' @ fmt_u (unat v) @ ''>''))) \<and>
    (l \<in> set u8_labels \<and> attr_at m a t [w] \<longrightarrow>
      (\<exists>b. rta_to_str U m a str n = ret b \<and> c_str b = take (n - 1) (s @ '' <'' @ fmt_u (unat w) @ ''>'')))"
proof (intro conjI impI; elim conjE)
  have s: "NUL \<notin> set s" using rta_case_strings assms(3) by fastforce
  then have out: "\<exists>b. c_snprintf str n (s @ '' <'' @ fmt_u k @ ''>'') = ret b \<and>
      c_str b = take (n - 1) (s @ '' <'' @ fmt_u k @ ''>'')" for k
    by (intro c_snprintf_ex assms(4,5)) simp
  note name = rta_name [OF assms(1-3)]
  show "\<exists>b. rta_to_str U m a str n = ret b \<and> c_str b = take (n - 1) (s @ '' <'' @ fmt_u (unat v) @ ''>'')"
    if l: "l \<in> set u32_labels" and at: "attr_at m a t (le_bytes 4 (unat v))"
  proof -
    have "l \<in> set handled_labels" using l by (auto simp: u32_labels_def handled_labels_def)
    note tests = branch_tests [OF assms(1,2) this]
    have v: "load32 m (a + 4) = ret v"
      using attr_at_payload [OF at] unat_word_less [of v] by (simp add: load32_def load_def le_nat_le_bytes_id)
    have "l \<notin> {''IFLA_IFNAME'', ''IFLA_ADDRESS'', ''IFLA_BROADCAST'', ''IFLA_STATS64'', ''IFLA_STATS'',
        ''IFLA_MAP'', ''IFLA_PROMISCUITY''} \<union> set u8_labels"
      using l by (auto simp: u32_labels_def u8_labels_def)
    then have "rta_to_str U m a str n = c_snprintf str n (s @ '' <'' @ fmt_u (unat v) @ ''>'')"
      unfolding rta_to_str_def attr_at_rta [OF at] io_bind_ret name v
      using l by (simp only: tests insert_iff empty_iff Un_iff de_Morgan_disj if_False if_True simp_thms)
    then show ?thesis using out by simp
  qed
  show "\<exists>b. rta_to_str U m a str n = ret b \<and> c_str b = take (n - 1) (s @ '' <'' @ fmt_u (unat w) @ ''>'')"
    if l: "l \<in> set u8_labels" and at: "attr_at m a t [w]"
  proof -
    have "l \<in> set handled_labels" using l by (auto simp: u8_labels_def handled_labels_def)
    note tests = branch_tests [OF assms(1,2) this]
    have v: "load8 m (a + 4) = ret w"
      using attr_at_payload [OF at] by (simp add: load8_def load_def)
    have "l \<notin> {''IFLA_IFNAME'', ''IFLA_ADDRESS'', ''IFLA_BROADCAST'', ''IFLA_STATS64'', ''IFLA_STATS'',
        ''IFLA_MAP'', ''IFLA_PROMISCUITY''}"
      using l by (auto simp: u8_labels_def)
    then have "rta_to_str U m a str n = c_snprintf str n (s @ '' <'' @ fmt_u (unat w) @ ''>'')"
      unfolding rta_to_str_def attr_at_rta [OF at] io_bind_ret name v
      using l by (simp only: tests insert_iff empty_iff Un_iff de_Morgan_disj if_False if_True simp_thms)
    then show ?thesis using out by simp
  qed
qed

theorem rta_number_text_witness:
  "\<exists>b. rta_to_str linux_uapi (attr 4 (le_bytes 4 1500)) 0 (c_array 100) 100 = ret b \<and>
     c_str b = ''IFLA_MTU <1500>''"
proof -
  have l: "is_label linux_uapi 4 ''IFLA_MTU''" by (simp add: is_label_def linux_eval)
  have s: "(''IFLA_MTU'', ''IFLA_MTU'') \<in> set rta_type_cases" by (simp add: rta_type_cases_def)
  have at: "attr_at (attr 4 (le_bytes 4 1500)) 0 4 (le_bytes 4 (unat (1500 :: u32)))"
    using attr_at_self [of _ 4 "[]"] by simp
  have "fmt_u 1500 = ''1500''" by (simp add: fmt_u_def radix.simps hexdigit_def)
  then show ?thesis
    using rta_number_text [OF linux_names_ok l s, of "c_array 100" 100 "attr 4 (le_bytes 4 1500)" 0 1500] at
    by (simp add: u32_labels_def)
qed

text \<open>
  C27: the 23 counters of a \<open>rtnl_link_stats64\<close> are all printed: with the array of 1000 characters of
  \<open>netlink_link_msg_dump\<close> the text is never cut, whatever the counters, and it determines them.
\<close>

theorem rta_stats64_text:
  assumes "uapi_names U" and "is_label U t ''IFLA_STATS64''"
    and "attr_at m a t (concat (map (le_bytes 8) vs))" and "length vs = 23" and "\<forall>v \<in> set vs. v < 2 ^ 64"
  shows "\<exists>b. rta_to_str U m a (c_array 1000) 1000 = ret b \<and>
    c_str b = ''IFLA_STATS64'' @ fmt_fields stats64_labels vs @ '' '' @ [NL] \<and>
    (\<forall>vs'. length vs' = 23 \<and> fmt_fields stats64_labels vs' = fmt_fields stats64_labels vs \<longrightarrow> vs' = vs)"
proof -
  let ?s = "''IFLA_STATS64'' @ fmt_fields stats64_labels vs @ '' '' @ [NL]"
  have "''IFLA_STATS64'' \<in> set handled_labels" by (simp add: handled_labels_def)
  note tests = branch_tests [OF assms(1,2) this]
  have "length (concat (map (le_bytes 8) vs)) = 8 * 23"
    using assms(4) by (subst length_concat_const) simp_all
  then have "take (8 * length vs) (drop (a + 4) m) = concat (map (le_bytes 8) vs)"
    using attr_at_payload(1) [OF assms(3)] assms(4) by simp
  then have fields: "load_fields 8 m (a + 4) 23 = ret vs"
    using load_fields_bytes [of 8 vs "a + 4" m] assms(4,5) by simp
  have name: "rta_type_to_str U t = ret ''IFLA_STATS64''" by (rule own_name [OF assms(1,2)]) simp
  have b: "rta_to_str U m a (c_array 1000) 1000 = c_snprintf (c_array 1000) 1000 ?s"
    unfolding rta_to_str_def attr_at_rta [OF assms(3)] io_bind_ret name fields tests
    by simp
  have "\<forall>v \<in> set vs. v < 10 ^ 20" using assms(5) by fastforce
  then have "length (fmt_fields stats64_labels vs) \<le> 450 + 20 * 23"
    using length_fmt_fields [of vs stats64_labels 20] assms(4) stats64_facts by simp
  then have "take 999 ?s = ?s" by simp
  moreover have "NUL \<notin> set ?s"
    using NUL_notin_fmt_fields [OF stats64_facts(4)] by simp
  ultimately have "\<exists>b. c_snprintf (c_array 1000) 1000 ?s = ret b \<and> c_str b = ?s"
    using c_snprintf_ex [of ?s "c_array 1000" 1000] by simp
  then show ?thesis
    unfolding b using fmt_fields_inject [OF stats64_facts(2)] stats64_facts(1) assms(4) by metis
qed

theorem rta_stats64_text_witness:
  "\<exists>b. rta_to_str linux_uapi (attr 23 (concat (map (le_bytes 8) [1..<24]))) 0 (c_array 1000) 1000 = ret b \<and>
    c_str b = ''IFLA_STATS64'' @ fmt_fields stats64_labels [1..<24] @ '' '' @ [NL]"
proof -
  have l: "is_label linux_uapi 23 ''IFLA_STATS64''" by (simp add: is_label_def linux_eval)
  have "length (concat (map (le_bytes 8) [1..<24])) = 8 * 23"
    by (subst length_concat_const) simp_all
  then have at: "attr_at (attr 23 (concat (map (le_bytes 8) [1..<24]))) 0 23 (concat (map (le_bytes 8) [1..<24]))"
    using attr_at_self [of "concat (map (le_bytes 8) [1..<24])" 23 "[]"] by simp
  show ?thesis
    using rta_stats64_text [OF linux_names_ok l at] by auto
qed

end
