(* ===== verification/Flags.thy ===== *)
theory Flags
  imports Uapi
begin

text \<open>
  \<open>yalin/yalin/flags.h\<close>: printing a flag word as the names of its set bits, joined by a bar. The
  two printers \<open>snprintflags_long\<close> and \<open>snprintflags_short\<close> are the same loop over one field or
  the other; they call \<open>strncat\<close> with the size of the whole array as its bound, so an array that is
  too small is written past its end. Three users of the loop hold the tables of names.
\<close>

section \<open>The code\<close>

record flags_str =
  name_long :: string
  name_short :: string

definition fstr_at :: "flags_str list \<Rightarrow> nat \<Rightarrow> flags_str io" where
  "fstr_at fstr i = (if i < length fstr then ret (fstr ! i) else stop Read_OOB)"

fun flags_loop ::
  "(flags_str \<Rightarrow> string) \<Rightarrow> u32 \<Rightarrow> flags_str list \<Rightarrow> nat \<Rightarrow> nat list \<Rightarrow> bool \<Rightarrow> cbuf \<Rightarrow> cbuf io" where
  "flags_loop field flags fstr len [] first str = ret str"
| "flags_loop field flags fstr len (i # is) first str =
     (if flags AND push_bit i 1 \<noteq> 0 then
        io_bind (if first then ret str else c_strncat str ''|'' len) (\<lambda>str.
        io_bind (fstr_at fstr i) (\<lambda>f.
        io_bind (c_strncat str (field f) len) (\<lambda>str.
        flags_loop field flags fstr len is False str)))
      else flags_loop field flags fstr len is first str)"

definition snprintflags ::
  "(flags_str \<Rightarrow> string) \<Rightarrow> cbuf \<Rightarrow> nat \<Rightarrow> u32 \<Rightarrow> flags_str list \<Rightarrow> nat \<Rightarrow> cbuf io" where
  "snprintflags field str len flags fstr max_flag_bit =
     io_bind (c_memset0 str len) (\<lambda>str.
       let n_loop = (if max_flag_bit < 32 then max_flag_bit else 32)
       in flags_loop field flags fstr len [0..<n_loop] True str)"

definition snprintflags_long :: "cbuf \<Rightarrow> nat \<Rightarrow> u32 \<Rightarrow> flags_str list \<Rightarrow> nat \<Rightarrow> cbuf io" where
  "snprintflags_long = snprintflags name_long"

definition snprintflags_short :: "cbuf \<Rightarrow> nat \<Rightarrow> u32 \<Rightarrow> flags_str list \<Rightarrow> nat \<Rightarrow> cbuf io" where
  "snprintflags_short = snprintflags name_short"

definition non :: "string list \<Rightarrow> flags_str list" where
  "non ns = map (\<lambda>n. \<lparr>name_long = n, name_short = ''non''\<rparr>) ns"

definition ifi_flag_names :: "string list" where
  "ifi_flag_names =
     [''IFA_F_TEMPORARY'', ''IFA_F_NODAD'', ''IFA_F_OPTIMISTIC'', ''IFA_F_DADFAILED'',
      ''IFA_F_HOMEADDRESS'', ''IFA_F_DEPRECATED'', ''IFA_F_TENTATIVE'', ''IFA_F_PERMANENT'',
      ''IFA_F_MANAGETEMPADDR'', ''IFA_F_NOPREFIXROUTE'', ''IFA_F_MCAUTOJOIN'',
      ''IFA_F_STABLE_PRIVACY'']"

definition ifi_flags_to_str :: "u32 \<Rightarrow> cbuf \<Rightarrow> nat \<Rightarrow> cbuf io" where
  "ifi_flags_to_str flags str len =
     (let f = non ifi_flag_names in snprintflags_long str len flags f (length f))"

definition nlmsg_new_names :: "string list" where
  "nlmsg_new_names =
     [''NLM_F_REQUEST'', ''NLM_F_MULTI'', ''NLM_F_ACK'', ''NLM_F_ECHO'', ''NLM_F_DUMP_INTR'',
      ''NLM_F_DUMP_FILTERED'', ''NLM_F_REPLACE'', ''NLM_F_EXCL'', ''NLM_F_CREATE'', ''NLM_F_APPEND'']"

definition nlmsg_flags_to_str_new :: "u32 \<Rightarrow> cbuf \<Rightarrow> nat \<Rightarrow> cbuf io" where
  "nlmsg_flags_to_str_new flags str len =
     (let f_new = non nlmsg_new_names in
      io_bind (snprintflags_long (c_array 100) 100 flags f_new (length f_new)) (\<lambda>newstr.
      c_snprintf str len (c_str newstr)))"

definition nlmsg_get_names :: "string list" where
  "nlmsg_get_names =
     [''NLM_F_REQUEST'', ''NLM_F_MULTI'', ''NLM_F_ACK'', ''NLM_F_ECHO'', ''NLM_F_DUMP_INTR'',
      ''NLM_F_DUMP_FILTERED'', ''NLM_F_ROOT'', ''NLM_F_MATCH'', ''NLM_F_ATOMIC'']"

definition nlmsg_flags_to_str_get :: "u32 \<Rightarrow> cbuf \<Rightarrow> nat \<Rightarrow> cbuf io" where
  "nlmsg_flags_to_str_get flags str len =
     (let f_get = non nlmsg_get_names in
      io_bind (snprintflags_long (c_array 100) 100 flags f_get (length f_get)) (\<lambda>getstr.
      c_snprintf str len (c_str getstr)))"

section \<open>What the loop computes\<close>

text \<open>A zeroed array that holds a string.\<close>

definition filled :: "nat \<Rightarrow> string \<Rightarrow> cbuf" where
  "filled n s = s @ replicate (n - length s) NUL"

fun joined :: "string list \<Rightarrow> string" where
  "joined [] = []"
| "joined [w] = w"
| "joined (w # ws) = w @ ''|'' @ joined ws"

definition flag_words :: "string list \<Rightarrow> u32 \<Rightarrow> string list" where
  "flag_words names flags = map (\<lambda>i. names ! i) (filter (bit flags) [0..<length names])"

definition flag_text :: "string list \<Rightarrow> u32 \<Rightarrow> string" where
  "flag_text names flags = joined (flag_words names flags)"

lemma c_array_filled: "c_array n = filled n []"
  by (simp add: c_array_def filled_def)

lemma c_str_filled [simp]: "NUL \<notin> set s \<Longrightarrow> length s < n \<Longrightarrow> c_str (filled n s) = s"
proof -
  assume "NUL \<notin> set s" "length s < n"
  moreover from this(2) have "filled n s = s @ NUL # replicate (n - length s - 1) NUL"
    by (cases "n - length s") (auto simp: filled_def)
  ultimately show ?thesis by simp
qed

lemma length_filled [simp]: "length s \<le> n \<Longrightarrow> length (filled n s) = n"
  by (simp add: filled_def)

lemma c_strncat_filled:
  assumes "NUL \<notin> set s" and "length s < n" and "length t \<le> k"
  shows "c_strncat (filled n s) t k =
    (if length s + length t < n then ret (filled n (s @ t)) else stop Write_OOB)"
proof -
  have NUL: "NUL \<in> set (filled n s)" using assms(2) by (simp add: filled_def)
  have "drop (length s + length t + 1) (filled n s) = replicate (n - (length s + length t + 1)) NUL"
    by (simp add: filled_def)
  moreover have "NUL # replicate (n - (length s + length t + 1)) NUL = replicate (n - (length s + length t)) NUL"
    if "length s + length t < n"
    using that by (simp add: replicate_Suc [symmetric] Suc_diff_Suc del: replicate_Suc)
  ultimately have "t @ NUL # drop (length s + length t + 1) (filled n s) =
      t @ replicate (n - (length s + length t)) NUL" if "length s + length t < n"
    using that by simp
  then show ?thesis
    using assms NUL
    by (simp add: c_strncat_def Let_def) (simp add: filled_def)
qed

lemma and_push_bit_iff: "flags AND push_bit i 1 \<noteq> 0 \<longleftrightarrow> bit flags i" for flags :: u32
  by (simp add: and_exp_eq_0_iff_not_bit push_bit_of_1)

fun appended :: "bool \<Rightarrow> string list \<Rightarrow> string" where
  "appended first [] = []"
| "appended first (w # ws) = (if first then [] else ''|'') @ w @ appended False ws"

lemma appended_True: "appended True ws = joined ws"
proof -
  have "appended False ws = (if ws = [] then [] else ''|'' @ joined ws)" for ws
    by (induction ws rule: joined.induct) auto
  then show ?thesis by (cases ws) (auto split: if_splits, metis joined.simps(2) joined.simps(3) append_Cons append_Nil neq_Nil_conv)
qed

lemma flags_loop_filled:
  assumes "\<forall>f \<in> set fstr. NUL \<notin> set (field f) \<and> length (field f) \<le> len"
    and "\<forall>i \<in> set is. i < length fstr \<and> i < 32" and "0 < len"
    and "NUL \<notin> set acc" and "length acc < n"
  shows "flags_loop field flags fstr len is first (filled n acc) =
    (let t = acc @ appended first (map (\<lambda>i. field (fstr ! i)) (filter (bit flags) is)) in
     if length t < n then ret (filled n t) else stop Write_OOB)"
  using assms(2,4,5)
proof (induction "is" arbitrary: acc first)
  case Nil
  then show ?case by simp
next
  case (Cons i "is")
  show ?case
  proof (cases "bit flags i")
    case False
    with Cons show ?thesis by (simp add: and_exp_eq_0_iff_not_bit)
  next
    case True
    let ?w = "field (fstr ! i)" and ?bar = "if first then [] else ''|''"
    let ?rest = "appended False (map (\<lambda>i. field (fstr ! i)) (filter (bit flags) is))"
    have i: "i < length fstr" "i < 32" using Cons.prems by auto
    then have w: "NUL \<notin> set ?w" "length ?w \<le> len" using assms(1) by auto
    have bar: "(if first then ret (filled n acc) else c_strncat (filled n acc) ''|'' len) =
        (if length (acc @ ?bar) < n then ret (filled n (acc @ ?bar)) else stop Write_OOB)"
      using Cons.prems assms(3) by (simp add: c_strncat_filled)
    have loop: "flags_loop field flags fstr len (i # is) first (filled n acc) =
        io_bind (if first then ret (filled n acc) else c_strncat (filled n acc) ''|'' len) (\<lambda>str.
        io_bind (c_strncat str ?w len) (\<lambda>str. flags_loop field flags fstr len is False str))"
      using True i by (simp add: and_exp_eq_0_iff_not_bit fstr_at_def)
    show ?thesis
    proof (cases "length (acc @ ?bar @ ?w) < n")
      case True
      have "c_strncat (filled n (acc @ ?bar)) ?w len = ret (filled n (acc @ ?bar @ ?w))"
        using True w Cons.prems by (subst c_strncat_filled) auto
      moreover have "flags_loop field flags fstr len is False (filled n (acc @ ?bar @ ?w)) =
          (let t = (acc @ ?bar @ ?w) @ ?rest in if length t < n then ret (filled n t) else stop Write_OOB)"
        using True w Cons.prems by (intro Cons.IH) auto
      ultimately show ?thesis
        unfolding loop bar using True \<open>bit flags i\<close> by (simp add: Let_def)
    next
      case False
      have "c_strncat (filled n (acc @ ?bar)) ?w len = stop Write_OOB" if "length (acc @ ?bar) < n"
        using that False w Cons.prems by (subst c_strncat_filled) auto
      then show ?thesis
        unfolding loop bar using False \<open>bit flags i\<close> by (simp add: Let_def)
    qed
  qed
qed

text \<open>A table of names that fits the printer: no NUL, no name longer than the bound, at most 32 of them.\<close>

definition names_fit :: "nat \<Rightarrow> string list \<Rightarrow> bool" where
  "names_fit len names \<longleftrightarrow>
     0 < len \<and> length names \<le> 32 \<and> (\<forall>w \<in> set names. NUL \<notin> set w \<and> length w \<le> len)"

lemma snprintflags_fstr:
  assumes "names_fit len (map field fstr)" and "length str = len"
  shows "snprintflags field str len flags fstr (length fstr) =
    (let t = flag_text (map field fstr) flags in
     if length t < len then ret (filled len t) else stop Write_OOB)"
proof -
  have n: "length fstr \<le> 32" "0 < len" using assms(1) by (auto simp: names_fit_def)
  then have loop: "[0..<if length fstr < 32 then length fstr else 32] = [0..<length fstr]" by simp
  have "flags_loop field flags fstr len [0..<length fstr] True (filled len []) =
    (let t = [] @ appended True (map (\<lambda>i. field (fstr ! i)) (filter (bit flags) [0..<length fstr])) in
     if length t < len then ret (filled len t) else stop Write_OOB)"
    using assms(1) n by (intro flags_loop_filled) (auto simp: names_fit_def)
  moreover have "map (\<lambda>i. field (fstr ! i)) (filter (bit flags) [0..<length fstr]) =
      flag_words (map field fstr) flags"
    by (simp add: flag_words_def)
  ultimately show ?thesis
    using assms(2) by (simp add: snprintflags_def Let_def c_memset0_def c_array_filled [symmetric]
        c_array_def [symmetric] loop appended_True flag_text_def)
qed

lemma map_long_non [simp]: "map name_long (non ns) = ns" and length_non [simp]: "length (non ns) = length ns"
  by (simp_all add: non_def comp_def)

lemma snprintflags_long_non:
  "names_fit len names \<Longrightarrow> length str = len \<Longrightarrow>
   snprintflags_long str len flags (non names) (length names) =
     (let t = flag_text names flags in if length t < len then ret (filled len t) else stop Write_OOB)"
  using snprintflags_fstr [of len name_long "non names" str flags] by (simp add: snprintflags_long_def)

section \<open>The three users\<close>

lemma names_fit_tables: "names_fit 100 ifi_flag_names" "names_fit 100 nlmsg_new_names" "names_fit 100 nlmsg_get_names"
  by (simp_all add: names_fit_def ifi_flag_names_def nlmsg_new_names_def nlmsg_get_names_def)

lemma NUL_notin_joined: "(\<And>w. w \<in> set ws \<Longrightarrow> NUL \<notin> set w) \<Longrightarrow> NUL \<notin> set (joined ws)"
  by (induction ws rule: joined.induct) auto

lemma NUL_notin_flag_text: "names_fit len names \<Longrightarrow> NUL \<notin> set (flag_text names flags)"
  unfolding flag_text_def by (rule NUL_notin_joined) (auto simp: flag_words_def names_fit_def)

lemma nlmsg_flags_to_str_eq:
  "nlmsg_flags_to_str_new flags str len =
    (let t = flag_text nlmsg_new_names flags in
     if length t < 100 then c_snprintf str len t else stop Write_OOB)"
  "nlmsg_flags_to_str_get flags str len =
    (let t = flag_text nlmsg_get_names flags in
     if length t < 100 then c_snprintf str len t else stop Write_OOB)"
  using NUL_notin_flag_text [OF names_fit_tables(2), of flags] NUL_notin_flag_text [OF names_fit_tables(3), of flags]
  by (simp_all add: nlmsg_flags_to_str_new_def nlmsg_flags_to_str_get_def Let_def names_fit_tables
      snprintflags_long_non)

lemma ifi_flags_to_str_eq:
  "length str = 100 \<Longrightarrow> ifi_flags_to_str flags str 100 =
    (let t = flag_text ifi_flag_names flags in if length t < 100 then ret (filled 100 t) else stop Write_OOB)"
  by (simp add: ifi_flags_to_str_def Let_def snprintflags_long_non names_fit_tables)

lemma c_snprintf_c_array: "length t < n \<Longrightarrow> c_snprintf (c_array n) n t = ret (filled n t)"
  by (simp add: c_snprintf_def Let_def filled_def c_array_def replicate_Suc [symmetric] Suc_diff_Suc
      del: replicate_Suc)

section \<open>Properties\<close>

text \<open>
  C14: \<open>snprintflags_long\<close> and \<open>snprintflags_short\<close>, on a table whose names fit and an array of the
  size they are told, leave in the array the names of the set bits in bit order, joined by bars;
  they write past the array exactly when that text and its NUL do not fit.
\<close>

theorem snprintflags_result:
  assumes "length str = len"
  shows "(names_fit len (map name_long fstr) \<longrightarrow>
      snprintflags_long str len flags fstr (length fstr) =
        (let t = flag_text (map name_long fstr) flags in
         if length t < len then ret (filled len t) else stop Write_OOB)) \<and>
    (names_fit len (map name_short fstr) \<longrightarrow>
      snprintflags_short str len flags fstr (length fstr) =
        (let t = flag_text (map name_short fstr) flags in
         if length t < len then ret (filled len t) else stop Write_OOB))"
  using snprintflags_fstr [OF _ assms]
  by (simp add: snprintflags_long_def snprintflags_short_def)

theorem snprintflags_result_witness:
  "snprintflags_long (c_array 40) 40 6 (non nlmsg_get_names) 9 = ret (filled 40 ''NLM_F_MULTI|NLM_F_ACK'') \<and>
   snprintflags_long (c_array 20) 20 6 (non nlmsg_get_names) 9 = stop Write_OOB"
proof -
  have fit: "names_fit 40 (map name_long (non nlmsg_get_names))" "names_fit 20 (map name_long (non nlmsg_get_names))"
    by (simp_all add: names_fit_def nlmsg_get_names_def)
  have t: "flag_text (map name_long (non nlmsg_get_names)) 6 = ''NLM_F_MULTI|NLM_F_ACK''"
    by (simp add: flag_text_def flag_words_def nlmsg_get_names_def upt_rec)
  have n: "length (non nlmsg_get_names) = 9" by (simp add: nlmsg_get_names_def)
  show ?thesis
    using snprintflags_result [of "c_array 40" 40 "non nlmsg_get_names" 6]
      snprintflags_result [of "c_array 20" 20 "non nlmsg_get_names" 6] fit
    unfolding t n by simp
qed

text \<open>
  None of the three callers' arrays holds the names of all its flags: with every bit of its
  table set, \<open>ifi_flags_to_str\<close> writes past the array of 100 that \<open>netlink_link_msg_dump\<close> passes,
  and both \<open>nlmsg_flags_to_str\<close> functions write past their local array of 100.
\<close>

theorem flag_arrays_too_small:
  "ifi_flags_to_str 0xfff (c_array 100) 100 = stop Write_OOB \<and>
   nlmsg_flags_to_str_new 0x3ff (c_array 100) 100 = stop Write_OOB \<and>
   nlmsg_flags_to_str_get 0x1ff (c_array 100) 100 = stop Write_OOB"
  by (simp add: ifi_flags_to_str_eq nlmsg_flags_to_str_eq flag_text_def flag_words_def
      ifi_flag_names_def nlmsg_new_names_def nlmsg_get_names_def upt_rec Let_def)

text \<open>
  On the flag values of the Linux headers the first six message flags are printed by their own
  names, but the tables leave out the bits 6 and 7: \<open>NLM_F_ROOT\<close> is printed as \<open>NLM_F_ATOMIC\<close>,
  \<open>NLM_F_REPLACE\<close> as \<open>NLM_F_CREATE\<close>, and \<open>NLM_F_MATCH\<close> and \<open>NLM_F_CREATE\<close> are not printed at all.
\<close>

theorem nlmsg_flags_misnamed:
  "list_all (\<lambda>l.
      nlmsg_flags_to_str_get (of_nat (uconst linux_uapi l)) (c_array 100) 100 = ret (filled 100 l) \<and>
      nlmsg_flags_to_str_new (of_nat (uconst linux_uapi l)) (c_array 100) 100 = ret (filled 100 l))
     [''NLM_F_REQUEST'', ''NLM_F_MULTI'', ''NLM_F_ACK'', ''NLM_F_ECHO'', ''NLM_F_DUMP_INTR'',
      ''NLM_F_DUMP_FILTERED''] \<and>
   nlmsg_flags_to_str_get (of_nat (uconst linux_uapi ''NLM_F_ROOT'')) (c_array 100) 100
     = ret (filled 100 ''NLM_F_ATOMIC'') \<and>
   nlmsg_flags_to_str_new (of_nat (uconst linux_uapi ''NLM_F_REPLACE'')) (c_array 100) 100
     = ret (filled 100 ''NLM_F_CREATE'') \<and>
   nlmsg_flags_to_str_get (of_nat (uconst linux_uapi ''NLM_F_MATCH'')) (c_array 100) 100
     = ret (filled 100 []) \<and>
   nlmsg_flags_to_str_new (of_nat (uconst linux_uapi ''NLM_F_CREATE'')) (c_array 100) 100
     = ret (filled 100 [])"
  by (simp add: nlmsg_flags_to_str_eq flag_text_def flag_words_def linux_eval c_snprintf_c_array
      nlmsg_new_names_def nlmsg_get_names_def upt_rec Let_def)

end
