(* ===== verification/Dump.thy ===== *)
theory Dump
  imports Rta_Str Flags
begin

text \<open>
  \<open>yalin/yalin/dump.h\<close>: a netlink message as text. Four functions print the body of a link, address,
  route or neighbour message and then its attributes; \<open>netlink_msg_dump\<close> prints the header and
  dispatches. The four attribute loops are the same code but for the first attribute and the size
  of the local array, so they are one function, \<open>attr_loop\<close>; its count is a \<open>size_t\<close> and wraps around.
  The parameter \<open>fp\<close> of the source's functions is never used. \<open>ifname\<close> is the library function
  \<open>if_indextoname\<close>, with \<open>None\<close> for NULL, which the C library prints as \<open>(null)\<close>.
\<close>

section \<open>The code\<close>

definition line :: "string \<Rightarrow> unit io" where
  "line s = put Std_out (s @ [NL])"

text \<open>
  \<open>for (rta = ...; RTA_OK (rta, rta_len); rta = RTA_NEXT (rta, rta_len))\<close> with the \<open>printf\<close> of its body.
  A step of zero bytes would repeat the same attribute for ever.
\<close>

function attr_loop :: "uapi \<Rightarrow> mem \<Rightarrow> nat \<Rightarrow> nat \<Rightarrow> u64 \<Rightarrow> nat \<Rightarrow> unit io" where
  "attr_loop U m sz rta rta_length i =
     io_bind (rta_ok U (rta_len m rta) rta_length) (\<lambda>ok.
       if ok then
         io_bind (rta_to_str U m rta (c_array sz) sz) (\<lambda>str.
         io_seq (line (''attr['' @ fmt_d (int i) @ '']: '' @ c_str str))
         (io_bind (rta_len m rta) (\<lambda>l.
           if rta_align U l = 0 then stop Diverge
           else attr_loop U m sz (rta + unat (rta_align U l)) (rta_length - rta_align U l) (i + 1))))
       else ret ())"
  by pat_completeness auto
termination
proof (relation "measure (\<lambda>(U, m, sz, rta, rta_length, i). length m - rta)")
  fix U :: uapi and m :: mem and sz rta i :: nat and rta_length :: u64 and ok str l
  assume "snd (rta_len m rta) = Inr l" and "rta_align U l \<noteq> 0"
  moreover from this(2) have "0 < unat (rta_align U l)"
    by (metis gr0I unat_eq_zero)
  ultimately show "((U, m, sz, rta + unat (rta_align U l), rta_length - rta_align U l, i + 1),
      U, m, sz, rta, rta_length, i) \<in> measure (\<lambda>(U, m, sz, rta, rta_length, i). length m - rta)"
    by (auto simp: load16_def load_def split: if_splits)
qed simp

declare attr_loop.simps [simp del]

definition netlink_link_msg_dump :: "uapi \<Rightarrow> mem \<Rightarrow> nat \<Rightarrow> unit io" where
  "netlink_link_msg_dump U m hdr =
     (let ifm = hdr + 16 in
      io_bind (load8 m ifm) (\<lambda>family.
      io_bind (ifa_family_to_str U family) (\<lambda>family_name.
      io_seq (line (''ifi_family: '' @ fmt_u (unat family) @ '' <'' @ family_name @ ''>''))
      (io_bind (load16 m (ifm + 2)) (\<lambda>type.
      io_seq (line (''ifi_type: '' @ fmt_u (unat type) @ '' <'' @ ifi_type_to_str U type @ ''>''))
      (io_bind (load32 m (ifm + 4)) (\<lambda>index.
      io_seq (line (''ifi_index: '' @ fmt_d (sint index)))
      (io_bind (load32 m (ifm + 8)) (\<lambda>flags.
      io_bind (ifi_flags_to_str flags (c_array 100) 100) (\<lambda>strbuf.
      io_seq (line (''ifi_flags: 0x'' @ fmt_x (unat flags) @ '' <'' @ c_str strbuf @ ''>''))
      (io_bind (load32 m (ifm + 12)) (\<lambda>change.
      io_seq (line (''ifi_change: 0x'' @ fmt_x (unat change)))
      (io_bind (nlmsg_len m hdr) (\<lambda>len.
      attr_loop U m 1000 (ifla_rta U ifm) (ifa_payload U len) 0))))))))))))))"

definition netlink_addr_msg_dump :: "uapi \<Rightarrow> (u32 \<Rightarrow> string option) \<Rightarrow> mem \<Rightarrow> nat \<Rightarrow> unit io" where
  "netlink_addr_msg_dump U ifname m hdr =
     (let ifa = hdr + 16 in
      io_bind (load8 m ifa) (\<lambda>family.
      io_bind (ifa_family_to_str U family) (\<lambda>family_name.
      io_seq (line (''ifa_family: '' @ fmt_u (unat family) @ '' ('' @ family_name @ '')''))
      (io_bind (load8 m (ifa + 1)) (\<lambda>prefixlen.
      io_seq (line (''ifa_prefixlen: '' @ fmt_u (unat prefixlen)))
      (io_bind (load8 m (ifa + 2)) (\<lambda>flags.
      io_seq (line (''ifa_flags: 0x'' @ fmt_x (unat flags)))
      (io_bind (load8 m (ifa + 3)) (\<lambda>scope.
      io_seq (line (''ifa_scope: '' @ fmt_u (unat scope)))
      (io_bind (load32 m (ifa + 4)) (\<lambda>index.
      io_seq (line (''ifa_index: '' @ fmt_d (sint index) @ '' ('' @
        (case ifname index of Some s \<Rightarrow> s | None \<Rightarrow> ''(null)'') @ '')''))
      (io_bind (nlmsg_len m hdr) (\<lambda>len.
      attr_loop U m 512 (ifa_rta U ifa) (ifa_payload U len) 0)))))))))))))"

definition netlink_route_msg_dump :: "uapi \<Rightarrow> mem \<Rightarrow> nat \<Rightarrow> unit io" where
  "netlink_route_msg_dump U m hdr =
     (let rtm = hdr + 16 in
      io_bind (load8 m rtm) (\<lambda>family.
      io_bind (ifa_family_to_str U family) (\<lambda>family_name.
      io_seq (line (''rtm_family: '' @ fmt_u (unat family) @ '' ('' @ family_name @ '')''))
      (io_bind (load8 m (rtm + 1)) (\<lambda>dst_len.
      io_seq (line (''rtm_dst_len: '' @ fmt_u (unat dst_len)))
      (io_bind (load8 m (rtm + 2)) (\<lambda>src_len.
      io_seq (line (''rtm_src_len: '' @ fmt_u (unat src_len)))
      (io_bind (load8 m (rtm + 3)) (\<lambda>tos.
      io_seq (line (''rtm_tos: '' @ fmt_u (unat tos)))
      (io_bind (load8 m (rtm + 4)) (\<lambda>table.
      io_seq (line (''rtm_table: '' @ fmt_u (unat table)))
      (io_bind (load8 m (rtm + 5)) (\<lambda>protocol.
      io_seq (line (''rtm_protocol: '' @ fmt_u (unat protocol)))
      (io_bind (load8 m (rtm + 6)) (\<lambda>scope.
      io_seq (line (''rtm_scope: '' @ fmt_u (unat scope)))
      (io_bind (load8 m (rtm + 7)) (\<lambda>type.
      io_bind (rtn_type_to_str U type) (\<lambda>type_name.
      io_seq (line (''rtm_type: '' @ fmt_u (unat type) @ '' ('' @ type_name @ '')''))
      (io_bind (load32 m (rtm + 8)) (\<lambda>flags.
      io_seq (line (''rtm_flags: 0x'' @ fmt_x (unat flags)))
      (io_bind (nlmsg_len m hdr) (\<lambda>len.
      attr_loop U m 512 (rtm_rta U rtm) (ifa_payload U len) 0))))))))))))))))))))))"

text \<open>\<open>NDM_RTA\<close> is defined by \<open>dump.h\<close> itself; \<open>struct ndmsg\<close> has 12 bytes.\<close>

definition ndm_rta :: "uapi \<Rightarrow> nat \<Rightarrow> nat" where
  "ndm_rta U r = r + unat (nlmsg_align U 12)"

definition netlink_neigh_msg_dump :: "uapi \<Rightarrow> mem \<Rightarrow> nat \<Rightarrow> unit io" where
  "netlink_neigh_msg_dump U m hdr =
     (let ndm = hdr + 16 in
      io_bind (load8 m ndm) (\<lambda>family.
      io_seq (line (''ndm_family: '' @ fmt_u (unat family)))
      (io_bind (load8 m (ndm + 1)) (\<lambda>pad1.
      io_seq (line (''ndm_pad1: '' @ fmt_u (unat pad1)))
      (io_bind (load16 m (ndm + 2)) (\<lambda>pad2.
      io_seq (line (''ndm_pad2: '' @ fmt_u (unat pad2)))
      (io_bind (load32 m (ndm + 4)) (\<lambda>ifindex.
      io_seq (line (''ndm_ifindex: '' @ fmt_d (sint ifindex)))
      (io_bind (load16 m (ndm + 8)) (\<lambda>state.
      io_seq (line (''ndm_state: '' @ fmt_u (unat state)))
      (io_bind (load8 m (ndm + 10)) (\<lambda>flags.
      io_seq (line (''ndm_flags: 0x'' @ fmt_x (unat flags)))
      (io_bind (load8 m (ndm + 11)) (\<lambda>type.
      io_seq (line (''ndm_type: '' @ fmt_u (unat type)))
      (io_bind (nlmsg_len m hdr) (\<lambda>len.
      attr_loop U m 512 (ndm_rta U ndm) (ifa_payload U len) 0))))))))))))))))"

text \<open>\<open>nlmsg_type_to_str\<close> is called twice, once for the test of its result and once for the result.\<close>

definition netlink_msg_dump :: "uapi \<Rightarrow> (u32 \<Rightarrow> string option) \<Rightarrow> mem \<Rightarrow> nat \<Rightarrow> unit io" where
  "netlink_msg_dump U ifname m hdr =
     io_seq (line ''-----NLMSG-BEGIN---------------------------'')
     (io_bind (nlmsg_len m hdr) (\<lambda>len.
     io_seq (line (''nlmsg_len: '' @ fmt_u (unat len)))
     (io_bind (nlmsg_type m hdr) (\<lambda>type.
     io_bind (nlmsg_type_to_str U type) (\<lambda>_.
     io_bind (nlmsg_type_to_str U type) (\<lambda>type_name.
     io_seq (line (''nlmsg_type: '' @ fmt_u (unat type) @ '' <'' @ type_name @ ''>''))
     (io_bind (nlmsg_flags m hdr) (\<lambda>flags.
     io_bind (nlmsg_flags_to_str_get (ucast flags) (c_array 100) 100) (\<lambda>strbuf.
     io_seq (line (''nlmsg_flags(get): 0x'' @ fmt_x (unat flags) @ '' <'' @ c_str strbuf @ ''>''))
     (io_bind (nlmsg_flags_to_str_new (ucast flags) strbuf 100) (\<lambda>strbuf.
     io_seq (line (''nlmsg_flags(new): 0x'' @ fmt_x (unat flags) @ '' <'' @ c_str strbuf @ ''>''))
     (io_bind (nlmsg_seq m hdr) (\<lambda>seq.
     io_seq (line (''nlmsg_seq: '' @ fmt_u (unat seq)))
     (io_bind (nlmsg_pid m hdr) (\<lambda>pid.
     io_seq (line (''nlmsg_pid: '' @ fmt_u (unat pid)))
     (io_seq
       (if any_label U type [''RTM_NEWLINK'', ''RTM_DELLINK'', ''RTM_GETLINK''] then
          netlink_link_msg_dump U m hdr
        else if any_label U type [''RTM_NEWADDR'', ''RTM_DELADDR'', ''RTM_GETADDR''] then
          netlink_addr_msg_dump U ifname m hdr
        else if any_label U type [''RTM_NEWROUTE'', ''RTM_DELROUTE'', ''RTM_GETROUTE''] then
          netlink_route_msg_dump U m hdr
        else if any_label U type [''RTM_NEWNEIGH'', ''RTM_DELNEIGH'', ''RTM_GETNEIGH''] then
          netlink_neigh_msg_dump U m hdr
        else
          io_seq (put Std_err (''netlink_msg_dump: unknown type('' @ fmt_u (unat type) @ '')'' @ [NL]))
            (hexdump Std_err m hdr (unat len)))
       (line ''-----NLMSG-END-----------------------------'')))))))))))))))))"

section \<open>No dump runs for ever\<close>

definition ends :: "'a io \<Rightarrow> bool" where
  "ends x \<longleftrightarrow> snd x \<noteq> Inl Diverge"

lemma ends_bind: "ends x \<Longrightarrow> (\<And>a. snd x = Inr a \<Longrightarrow> ends (f a)) \<Longrightarrow> ends (io_bind x f)"
  by (auto simp: ends_def snd_io_bind split: sum.splits)

lemma ends_basic: "ends (ret a)" "e \<noteq> Diverge \<Longrightarrow> ends (stop e)" "ends (put s t)" "ends (put_ptr s p)"
    "ends (io_assert b)" "ends (line t)"
  by (simp_all add: ends_def io_assert_def line_def)

lemma ends_cases:
  "(c \<Longrightarrow> ends x) \<Longrightarrow> (\<not> c \<Longrightarrow> ends y) \<Longrightarrow> ends (if c then x else y)"
  "(v = None \<Longrightarrow> ends x) \<Longrightarrow> (\<And>a. v = Some a \<Longrightarrow> ends (f a)) \<Longrightarrow>
    ends (case v of None \<Rightarrow> x | Some a \<Rightarrow> f a)"
  "(\<And>a b. p = (a, b) \<Longrightarrow> ends (g a b)) \<Longrightarrow> ends (case p of (a, b) \<Rightarrow> g a b)"
  by (auto split: option.split prod.split)

lemma ends_each: "(\<And>x. ends (f x)) \<Longrightarrow> ends (io_each f xs)"
  by (induction xs) (auto intro: ends_basic ends_bind)

lemma ends_memory: "ends (load n m a)" "ends (load_str m a)" "ends (c_memset0 b n)" "ends (c_strncat b s n)"
    "ends (c_snprintf b n s)" "ends (fstr_at fs i)"
  by (simp_all add: ends_def load_def load_str_def c_memset0_def c_strncat_def c_snprintf_def fstr_at_def Let_def)

lemma ends_loads: "ends (load8 m a)" "ends (load16 m a)" "ends (load32 m a)" "ends (load64 m a)"
  unfolding load8_def load16_def load32_def load64_def
  by (intro ends_bind ends_memory ends_basic)+

lemmas ends_rules = ends_bind ends_basic ends_cases ends_each ends_memory ends_loads

lemma ends_hexdump_line: "ends (hexdump_line fp m a n row)" "ends (carrydump_line fp m a n row)"
  unfolding hexdump_line_def carrydump_line_def hex_cell_def char_cell_def carry_cell_def
  by (intro ends_rules)+

lemma ends_hexdump: "ends (hexdump fp m a n)"
proof -
  have "ends (hexdump_loop fp m a n row)" for a n row
    by (induction fp m a n row rule: hexdump_loop.induct)
      (subst hexdump_loop.simps, simp only: Let_def, intro ends_rules ends_hexdump_line; simp)
  then show ?thesis by (simp add: hexdump_def)
qed

lemma ends_carrydump: "ends (carrydump fp c m a n)"
proof -
  have "ends (carrydump_loop fp m a n row)" for a n row
    by (induction fp m a n row rule: carrydump_loop.induct)
      (subst carrydump_loop.simps, simp only: Let_def, intro ends_rules ends_hexdump_line; simp)
  then show ?thesis unfolding carrydump_def by (intro ends_rules)
qed

lemma ends_flags_loop: "ends (flags_loop field flags fstr len is first str)"
  by (induction "is" arbitrary: first str) (simp_all add: ends_rules)

lemma ends_flags: "ends (ifi_flags_to_str f b n)" "ends (nlmsg_flags_to_str_get f b n)"
    "ends (nlmsg_flags_to_str_new f b n)"
  unfolding ifi_flags_to_str_def nlmsg_flags_to_str_get_def nlmsg_flags_to_str_new_def snprintflags_long_def
    snprintflags_def Let_def
  by (intro ends_rules ends_flags_loop)+

lemma ends_names: "ends (nlmsg_type_to_str U t)" "ends (rta_type_to_str U t)" "ends (ifa_family_to_str U f)"
    "ends (rtn_type_to_str U r)"
  unfolding nlmsg_type_to_str_def rta_type_to_str_def ifa_family_to_str_def rtn_type_to_str_def
  by (intro ends_rules; simp)+

lemma ends_rtattr: "ends (rtattr_type m a)" "ends (rtattr_len m a)" "ends (rtattr_payload_len m a)"
    "ends (rtattr_next m a n)"
  unfolding rtattr_type_def rtattr_len_def rtattr_payload_len_def rtattr_next_def Let_def
  by (intro ends_rules)+

lemma ends_readers: "ends (rtattr_read_16bit m a)" "ends (rtattr_read_64bit m a)" "ends (rtattr_read_str m a b n)"
  unfolding rtattr_read_16bit_def rtattr_read_64bit_def rtattr_read_str_def read_miss_def
  by (intro ends_rules ends_rtattr; simp)+

lemma ends_vlan_loop: "ends (vlan_loop U m a n v)"
proof (induction U m a n v rule: vlan_loop.induct)
  case (1 U m a n v)
  show ?case
    by (subst vlan_loop.simps, intro ends_rules ends_rtattr)
      (auto simp: vlan_switch_def intro!: ends_rules ends_rtattr ends_readers 1)
qed

lemma ends_linkinfo: "ends (rta_to_str_IFLA_LINKINFO U m a str n)"
  unfolding rta_to_str_IFLA_LINKINFO_def Let_def
  by (intro ends_rules ends_rtattr ends_readers ends_vlan_loop ends_carrydump; simp)

lemma ends_hex_cat_loop: "ends (hex_cat_loop sep k m a n i d)"
  by (induction sep k m a n i d rule: hex_cat_loop.induct)
    (subst hex_cat_loop.simps, intro ends_rules; simp)

lemma ends_load_fields: "ends (load_fields w m a k)"
  by (induction k arbitrary: a) (simp_all add: ends_rules)

lemma ends_rta_to_str: "ends (rta_to_str U m a str n)"
  unfolding rta_to_str_def rta_to_str_IFLA_AF_SPEC_def Let_def
  by (intro ends_rules ends_names ends_linkinfo ends_hex_cat_loop ends_load_fields ends_hexdump)

lemma rta_ok_doc:
  assumes "uapi_macros_ok U"
  shows "rta_ok U r n = (if n < 4 then ret False else io_bind r (\<lambda>l. ret (4 \<le> unat l \<and> unat l \<le> unat n)))"
  using uapi_macros_okD(1) [OF assms] by (simp add: documented_rta_ok_def)

lemma rta_align_nonzero:
  assumes "uapi_macros_ok U" and "4 \<le> unat l"
  shows "rta_align U l \<noteq> 0"
proof
  assume "rta_align U l = 0"
  then have "round_up4 (unat l) = 0" using uapi_macros_okD(2) [OF assms(1), of l] by simp
  with assms(2) show False by simp
qed

lemma ends_attr_loop:
  assumes "uapi_macros_ok U"
  shows "ends (attr_loop U m sz a n i)"
  using assms
proof (induction U m sz a n i rule: attr_loop.induct)
  case (1 U m sz a n i)
  have ok: "ends (rta_ok U (rta_len m a) n)"
    unfolding rta_ok_doc [OF 1(2)] by (intro ends_rules)
  have nz: "rta_align U l \<noteq> 0" if "snd (rta_ok U (rta_len m a) n) = Inr True" "snd (rta_len m a) = Inr l" for l
    using that by (intro rta_align_nonzero [OF 1(2)])
      (simp add: rta_ok_doc [OF 1(2)] snd_io_bind split: if_splits)
  show ?case
    by (subst attr_loop.simps, intro ends_rules ok ends_rta_to_str)
      (use 1 nz in auto)
qed

lemma ends_msg_dumps:
  assumes "uapi_macros_ok U"
  shows "ends (netlink_link_msg_dump U m h)" "ends (netlink_addr_msg_dump U ifname m h)"
    "ends (netlink_route_msg_dump U m h)" "ends (netlink_neigh_msg_dump U m h)"
  unfolding netlink_link_msg_dump_def netlink_addr_msg_dump_def netlink_route_msg_dump_def
    netlink_neigh_msg_dump_def Let_def
  by (intro ends_rules ends_names ends_flags ends_attr_loop [OF assms])+

lemma ends_netlink_msg_dump: "uapi_macros_ok U \<Longrightarrow> ends (netlink_msg_dump U ifname m h)"
  unfolding netlink_msg_dump_def
  by (intro ends_rules ends_names ends_flags ends_hexdump ends_msg_dumps)

section \<open>The loop on a list of attributes\<close>

text \<open>What the loop is meant to print: each attribute of the list, numbered.\<close>

fun dump_attrs :: "uapi \<Rightarrow> mem \<Rightarrow> nat \<Rightarrow> nat \<Rightarrow> nat \<Rightarrow> (u16 \<times> u8 list) list \<Rightarrow> unit io" where
  "dump_attrs U m sz a i [] = ret ()"
| "dump_attrs U m sz a i ((t, p) # xs) =
     io_bind (rta_to_str U m a (c_array sz) sz) (\<lambda>str.
     io_seq (line (''attr['' @ fmt_d (int i) @ '']: '' @ c_str str))
       (dump_attrs U m sz (a + round_up4 (4 + length p)) (i + 1) xs))"

lemma attr_loop_attrs:
  assumes "uapi_macros_ok U" and "attrs_at m a xs" and "attrs_size xs + k < 2 ^ 64"
  shows "attr_loop U m sz a (of_nat (attrs_size xs + k)) i =
    io_seq (dump_attrs U m sz a i xs) (attr_loop U m sz (a + attrs_size xs) (of_nat k) (i + length xs))"
  using assms(2,3)
proof (induction xs arbitrary: a i)
  case Nil
  then show ?case by simp
next
  case (Cons x xs)
  obtain t p where x: "x = (t, p)" by (cases x)
  let ?s = "round_up4 (4 + length p)" and ?n = "attrs_size (x # xs) + k"
  from Cons.prems(1) x have at: "attr_at m a t p" and rest: "attrs_at m (a + ?s) xs" by auto
  have l: "rta_len m a = ret (of_nat (4 + length p))" by (rule attr_at_len [OF at])
  have n: "unat (of_nat ?n :: u64) = ?n" using Cons.prems(2) by (intro unat_of_nat_small) simp
  have s: "4 + length p \<le> ?s" "?s \<le> ?n" using x by simp_all
  have "4 \<le> ?n" using s by linarith
  then have "\<not> (of_nat ?n :: u64) < 4" using n by (simp add: word_less_nat_alt)
  moreover have "4 + length p \<le> ?n" using s by linarith
  ultimately have ok: "rta_ok U (rta_len m a) (of_nat ?n) = ret True"
    using n attr_at_unat_len [OF at] unfolding rta_ok_doc [OF assms(1)] l by simp
  have al: "unat (rta_align U (of_nat (4 + length p))) = ?s"
    using uapi_macros_okD(2) [OF assms(1)] attr_at_unat_len [OF at] by simp
  have sub: "of_nat ?n - rta_align U (of_nat (4 + length p)) = (of_nat (attrs_size xs + k) :: u64)"
  proof -
    have "rta_align U (of_nat (4 + length p)) = of_nat ?s"
      using al s(2) Cons.prems(2) by (simp only: word_unat_eq_iff) (subst unat_of_nat_small, simp_all)
    then show ?thesis using x by simp
  qed
  have nz: "rta_align U (of_nat (4 + length p)) \<noteq> 0"
    using attr_at_unat_len [OF at] by (intro rta_align_nonzero [OF assms(1)]) simp
  show ?case
    apply (subst attr_loop.simps)
    unfolding l ok [unfolded l] io_bind_ret if_True al sub if_not_P [OF nz]
    using Cons.IH [OF rest, of "i + 1"] Cons.prems(2) x by (simp add: add.assoc)
qed

lemma attr_loop_stops:
  assumes "uapi_macros_ok U" and "unat n < 4"
  shows "attr_loop U m sz a n i = ret ()"
  using assms(2) by (subst attr_loop.simps) (simp add: rta_ok_doc [OF assms(1)] word_less_nat_alt)

lemma attr_loop_all:
  assumes "uapi_macros_ok U" and "attrs_at m a xs" and "unat n = attrs_size xs + k" and "k < 4"
  shows "attr_loop U m sz a n i = dump_attrs U m sz a i xs"
proof -
  have n: "n = of_nat (attrs_size xs + k)" by (simp flip: assms(3))
  have "attrs_size xs + k < 2 ^ 64" using unat_word_less [of n] by (simp flip: assms(3))
  moreover have "unat (of_nat k :: u64) = k" using assms(4) by (intro unat_of_nat_small) simp
  ultimately show ?thesis
    using assms(4) unfolding n
    by (subst attr_loop_attrs [OF assms(1,2)]) (simp_all add: attr_loop_stops [OF assms(1)])
qed

lemma dump_attrs_append:
  "dump_attrs U m sz a i (xs @ ys) =
    io_seq (dump_attrs U m sz a i xs) (dump_attrs U m sz (a + attrs_size xs) (i + length xs) ys)"
proof (induction xs arbitrary: a i)
  case (Cons x xs)
  then show ?case by (cases x) (simp add: add.assoc)
qed simp

lemma attrs_at_append: "attrs_at m a (xs @ ys) \<longleftrightarrow> attrs_at m a xs \<and> attrs_at m (a + attrs_size xs) ys"
proof (induction xs arbitrary: a)
  case (Cons x xs)
  then show ?case by (cases x) (simp add: add.assoc)
qed simp

lemma attrs_size_append [simp]: "attrs_size (xs @ ys) = attrs_size xs + attrs_size ys"
proof (induction xs)
  case (Cons x xs)
  then show ?case by (cases x) simp
qed simp

text \<open>The last attribute without its padding: the count wraps around below zero.\<close>

lemma attr_loop_unpadded:
  assumes "uapi_macros_ok U" and "attrs_at m a (xs @ [(t, p)])" and "\<not> 4 dvd length p"
    and "attrs_size xs + 4 + length p < 2 ^ 64"
  shows "\<exists>n. 2 ^ 64 - 4 < unat n \<and>
    attr_loop U m sz a (of_nat (attrs_size xs + 4 + length p)) i =
      io_seq (dump_attrs U m sz a i (xs @ [(t, p)]))
        (attr_loop U m sz (a + attrs_size (xs @ [(t, p)])) n (i + length xs + 1))"
proof -
  let ?s = "round_up4 (4 + length p)" and ?e = "a + attrs_size xs"
  have xs: "attrs_at m a xs" and at: "attr_at m ?e t p" using assms(2) by (simp_all add: attrs_at_append)
  let ?l = "of_nat (4 + length p) :: u16" and ?k = "of_nat (4 + length p) :: u64"
  have l: "rta_len m ?e = ret ?l" "unat ?l = 4 + length p"
    using attr_at_len [OF at] attr_at_unat_len [OF at] .
  have k: "unat ?k = 4 + length p" using assms(4) by (intro unat_of_nat_small) simp
  have ok: "rta_ok U (rta_len m ?e) ?k = ret True"
    using k l(2) unfolding rta_ok_doc [OF assms(1)] l(1) by (simp add: word_less_nat_alt)
  have al: "unat (rta_align U ?l) = ?s" using uapi_macros_okD(2) [OF assms(1)] l(2) by simp
  have nz: "rta_align U ?l \<noteq> 0" using l(2) by (intro rta_align_nonzero [OF assms(1)]) simp
  have lt: "4 + length p < ?s" "?s < 4 + length p + 4"
  proof -
    have "\<not> 4 dvd 4 + length p" using assms(3) by simp
    then have "?s \<noteq> 4 + length p" using round_up4_dvd [of "4 + length p"] by metis
    then show "4 + length p < ?s" using round_up4_ge [of "4 + length p"] by linarith
    show "?s < 4 + length p + 4" by (rule round_up4_lt)
  qed
  have "unat (?k - rta_align U ?l) = 2 ^ 64 + (4 + length p) - ?s"
    using k al lt unat_word_less [of "rta_align U ?l"] by (subst unat_sub_if') (simp add: word_le_nat_alt)
  then have "2 ^ 64 - 4 < unat (?k - rta_align U ?l)" using lt by simp
  moreover have "attr_loop U m sz a (of_nat (attrs_size xs + 4 + length p)) i =
      io_seq (dump_attrs U m sz a i (xs @ [(t, p)]))
        (attr_loop U m sz (a + attrs_size (xs @ [(t, p)])) (?k - rta_align U ?l) (i + length xs + 1))"
  proof -
    have "attr_loop U m sz ?e ?k (i + length xs) =
      io_seq (dump_attrs U m sz ?e (i + length xs) [(t, p)])
        (attr_loop U m sz (?e + ?s) (?k - rta_align U ?l) (i + length xs + 1))"
      apply (subst attr_loop.simps)
      unfolding l(1) ok [unfolded l(1)] io_bind_ret if_True al if_not_P [OF nz]
      by simp
    then show ?thesis
      using attr_loop_attrs [OF assms(1) xs, of "4 + length p" sz i] assms(4)
      by (simp add: dump_attrs_append add.assoc)
  qed
  ultimately show ?thesis by blast
qed

lemma nlmsg_label_iff:
  assumes "uapi_names U" and "is_label U t l" and "l \<in> set (map fst nlmsg_type_cases)"
    and "l' \<in> set (map fst nlmsg_type_cases)"
  shows "is_label U t l' \<longleftrightarrow> l = l'"
proof -
  have "inj_on (uconst U) (set (map fst nlmsg_type_cases))"
    using assms(1) by (simp only: uapi_names_def labels_distinct_def distinct_map)
  then have "uconst U l = uconst U l' \<longleftrightarrow> l = l'" using assms(3,4) by (simp only: inj_on_eq_iff)
  then show ?thesis using assms(2) by (auto simp: is_label_def)
qed

text \<open>The lines \<open>netlink_msg_dump\<close> prints before the body.\<close>

definition header_lines :: "string \<Rightarrow> u32 \<Rightarrow> u16 \<Rightarrow> u16 \<Rightarrow> u32 \<Rightarrow> u32 \<Rightarrow> string list" where
  "header_lines name len type flags seq pid =
    [''-----NLMSG-BEGIN---------------------------'',
     ''nlmsg_len: '' @ fmt_u (unat len),
     ''nlmsg_type: '' @ fmt_u (unat type) @ '' <'' @ name @ ''>'',
     ''nlmsg_flags(get): 0x'' @ fmt_x (unat flags) @ '' <'' @ flag_text nlmsg_get_names (ucast flags) @ ''>'',
     ''nlmsg_flags(new): 0x'' @ fmt_x (unat flags) @ '' <'' @ flag_text nlmsg_new_names (ucast flags) @ ''>'',
     ''nlmsg_seq: '' @ fmt_u (unat seq),
     ''nlmsg_pid: '' @ fmt_u (unat pid)]"

definition body_dumps :: "uapi \<Rightarrow> (u32 \<Rightarrow> string option) \<Rightarrow> mem \<Rightarrow> nat \<Rightarrow> (string \<times> unit io) list" where
  "body_dumps U ifname m h =
    map (\<lambda>l. (l, netlink_link_msg_dump U m h)) [''RTM_NEWLINK'', ''RTM_DELLINK'', ''RTM_GETLINK''] @
    map (\<lambda>l. (l, netlink_addr_msg_dump U ifname m h)) [''RTM_NEWADDR'', ''RTM_DELADDR'', ''RTM_GETADDR''] @
    map (\<lambda>l. (l, netlink_route_msg_dump U m h)) [''RTM_NEWROUTE'', ''RTM_DELROUTE'', ''RTM_GETROUTE''] @
    map (\<lambda>l. (l, netlink_neigh_msg_dump U m h)) [''RTM_NEWNEIGH'', ''RTM_DELNEIGH'', ''RTM_GETNEIGH'']"

lemma body_of_label:
  assumes "uapi_names U" and "is_label U t l" and "(l, body) \<in> set (body_dumps U ifname m h)"
  shows "(if any_label U t [''RTM_NEWLINK'', ''RTM_DELLINK'', ''RTM_GETLINK''] then netlink_link_msg_dump U m h
     else if any_label U t [''RTM_NEWADDR'', ''RTM_DELADDR'', ''RTM_GETADDR''] then netlink_addr_msg_dump U ifname m h
     else if any_label U t [''RTM_NEWROUTE'', ''RTM_DELROUTE'', ''RTM_GETROUTE''] then netlink_route_msg_dump U m h
     else if any_label U t [''RTM_NEWNEIGH'', ''RTM_DELNEIGH'', ''RTM_GETNEIGH''] then netlink_neigh_msg_dump U m h
     else other) = body"
    and "nlmsg_type_to_str U t = ret l"
proof -
  let ?ls = "[''RTM_NEWLINK'', ''RTM_DELLINK'', ''RTM_GETLINK'', ''RTM_NEWADDR'', ''RTM_DELADDR'', ''RTM_GETADDR'',
    ''RTM_NEWROUTE'', ''RTM_DELROUTE'', ''RTM_GETROUTE'', ''RTM_NEWNEIGH'', ''RTM_DELNEIGH'', ''RTM_GETNEIGH'']"
  have sub: "set ?ls \<subseteq> set (map fst nlmsg_type_cases)" by (simp add: nlmsg_type_cases_def)
  have l: "l \<in> set ?ls" using assms(3) by (auto simp: body_dumps_def)
  then have lc: "l \<in> set (map fst nlmsg_type_cases)" using sub by blast
  have "\<forall>l' \<in> set ?ls. is_label U t l' \<longleftrightarrow> l = l'"
    using nlmsg_label_iff [OF assms(1,2) lc] sub by blast
  then have tests: "is_label U t ''RTM_NEWLINK'' \<longleftrightarrow> l = ''RTM_NEWLINK''" "is_label U t ''RTM_DELLINK'' \<longleftrightarrow> l = ''RTM_DELLINK''"
    "is_label U t ''RTM_GETLINK'' \<longleftrightarrow> l = ''RTM_GETLINK''" "is_label U t ''RTM_NEWADDR'' \<longleftrightarrow> l = ''RTM_NEWADDR''"
    "is_label U t ''RTM_DELADDR'' \<longleftrightarrow> l = ''RTM_DELADDR''" "is_label U t ''RTM_GETADDR'' \<longleftrightarrow> l = ''RTM_GETADDR''"
    "is_label U t ''RTM_NEWROUTE'' \<longleftrightarrow> l = ''RTM_NEWROUTE''" "is_label U t ''RTM_DELROUTE'' \<longleftrightarrow> l = ''RTM_DELROUTE''"
    "is_label U t ''RTM_GETROUTE'' \<longleftrightarrow> l = ''RTM_GETROUTE''" "is_label U t ''RTM_NEWNEIGH'' \<longleftrightarrow> l = ''RTM_NEWNEIGH''"
    "is_label U t ''RTM_DELNEIGH'' \<longleftrightarrow> l = ''RTM_DELNEIGH''" "is_label U t ''RTM_GETNEIGH'' \<longleftrightarrow> l = ''RTM_GETNEIGH''"
    by (simp_all only: list.set ball_simps insert_iff simp_thms)
  show "(if any_label U t [''RTM_NEWLINK'', ''RTM_DELLINK'', ''RTM_GETLINK''] then netlink_link_msg_dump U m h
     else if any_label U t [''RTM_NEWADDR'', ''RTM_DELADDR'', ''RTM_GETADDR''] then netlink_addr_msg_dump U ifname m h
     else if any_label U t [''RTM_NEWROUTE'', ''RTM_DELROUTE'', ''RTM_GETROUTE''] then netlink_route_msg_dump U m h
     else if any_label U t [''RTM_NEWNEIGH'', ''RTM_DELNEIGH'', ''RTM_GETNEIGH''] then netlink_neigh_msg_dump U m h
     else other) = body"
    using assms(3) unfolding any_label_def list_ex_iff list.set bex_simps tests
    by (auto simp: body_dumps_def)
  have "(l, l) \<in> set nlmsg_type_cases"
    using assms(3) by (auto simp: body_dumps_def nlmsg_type_cases_def)
  then show "nlmsg_type_to_str U t = ret l"
    using uapi_names.names_hit(2) [OF assms(1)] assms(2) by (simp add: nlmsg_type_to_str_def is_label_def)
qed

lemma load_word_eval:
  "a + 4 \<le> length m \<Longrightarrow> load32 m a = ret (of_nat (le_nat (take 4 (drop a m))))"
  "a + 2 \<le> length m \<Longrightarrow> load16 m a = ret (of_nat (le_nat (take 2 (drop a m))))"
  by (simp_all add: load32_def load16_def load_def)

text \<open>An address message with one attribute, and a link message without any.\<close>

definition example_addr :: mem where
  "example_addr =
    [32, 0, 0, 0, 20, 0, 0, 0, 0, 0, 0, 0, 0, 0, 0, 0, 2, 24, 0, 0, 1, 0, 0, 0,
     5, 0, 16, 0, 6, 0, 0, 0]"

definition example_link :: "u8 \<Rightarrow> u8 \<Rightarrow> mem" where
  "example_link f1 f2 =
    [32, 0, 0, 0, 16, 0, f1, f2, 0, 0, 0, 0, 0, 0, 0, 0, 0, 0, 1, 0, 1, 0, 0, 0, 0, 0, 0, 0, 0, 0, 0, 0,
     8, 0, 4, 0, 1, 2, 3, 4]"

section \<open>Properties\<close>

text \<open>
  C1: the attribute loop of each message kind, started where and with the count with which the code
  starts it, visits the attributes of the message in order. For addresses it visits exactly these.
  For the other kinds the count is that of an address message, whose body is shorter: 8 (link) or
  4 (route and neighbour) bytes behind the message are still taken for attributes.
\<close>

theorem attr_loops_visit_attributes:
  assumes "uapi_macros_ok U" and "nlmsg_len m h = ret L"
  shows "(unat L = 24 + attrs_size xs \<and> attrs_at m (h + 24) xs \<longrightarrow>
      attr_loop U m 512 (ifa_rta U (h + 16)) (ifa_payload U L) 0 = dump_attrs U m 512 (h + 24) 0 xs) \<and>
    (unat L = 32 + attrs_size xs \<and> attrs_at m (h + 32) xs \<longrightarrow>
      attr_loop U m 1000 (ifla_rta U (h + 16)) (ifa_payload U L) 0 =
        io_seq (dump_attrs U m 1000 (h + 32) 0 xs)
          (attr_loop U m 1000 (h + 32 + attrs_size xs) 8 (length xs))) \<and>
    (unat L = 28 + attrs_size xs \<and> attrs_at m (h + 28) xs \<longrightarrow>
      attr_loop U m 512 (rtm_rta U (h + 16)) (ifa_payload U L) 0 =
        io_seq (dump_attrs U m 512 (h + 28) 0 xs)
          (attr_loop U m 512 (h + 28 + attrs_size xs) 4 (length xs)) \<and>
      attr_loop U m 512 (ndm_rta U (h + 16)) (ifa_payload U L) 0 =
        io_seq (dump_attrs U m 512 (h + 28) 0 xs)
          (attr_loop U m 512 (h + 28 + attrs_size xs) 4 (length xs)))"
proof -
  have rta: "ifa_rta U (h + 16) = h + 24" "ifla_rta U (h + 16) = h + 32" "rtm_rta U (h + 16) = h + 28"
    using uapi_macros_okD(5-7) [OF assms(1), of "h + 16"] by simp_all
  have "unat (nlmsg_align U 12) = round_up4 (unat (12 :: u32))"
    by (rule uapi_macros_okD(3) [OF assms(1)]) simp
  then have ndm: "ndm_rta U (h + 16) = h + 28" by (simp add: ndm_rta_def round_up4_def)
  have loop: "attr_loop U m sz a (ifa_payload U L) 0 =
      io_seq (dump_attrs U m sz a 0 xs) (attr_loop U m sz (a + attrs_size xs) (of_nat k) (length xs))"
    if "attrs_at m a xs" "unat L = 24 + (attrs_size xs + k)" for sz a k
  proof -
    have u: "unat (ifa_payload U L) = attrs_size xs + k"
      using uapi_macros_okD(4) [OF assms(1), of L] that(2) by simp
    have "ifa_payload U L = of_nat (attrs_size xs + k)" by (simp flip: u)
    moreover have "attrs_size xs + k < 2 ^ 64"
      using unat_word_less [of L] that(2) by simp
    ultimately show ?thesis
      using attr_loop_attrs [OF assms(1) that(1), of k sz 0] by simp
  qed
  have fin: "attr_loop U m sz a 0 i = ret ()" for sz a i
    by (rule attr_loop_stops [OF assms(1)]) simp
  show ?thesis
    using loop [of "h + 24" 0 512] loop [of "h + 32" 8 1000] loop [of "h + 28" 4 512]
    unfolding rta ndm by (simp add: fin)
qed

theorem attr_loops_visit_attributes_witness:
  "attr_loop linux_uapi example_addr 512 24 (ifa_payload linux_uapi 32) 0 =
    dump_attrs linux_uapi example_addr 512 24 0 [(16, [6])]"
proof -
  have "nlmsg_len example_addr 0 = ret 32" by (simp add: load_word_eval example_addr_def)
  moreover have "attrs_at example_addr (0 + 24) [(16, [6])]"
    by (simp add: attr_eval example_addr_def)
  ultimately show ?thesis
    using attr_loops_visit_attributes [OF linux_uapi_macros_ok, of example_addr 0 32 "[(16, [6])]"]
    by (simp add: round_up4_def)
qed

text \<open>
  So an attribute of up to four bytes that stands behind a link message in the receive buffer is
  printed as if it belonged to the message.
\<close>

theorem link_dump_phantom_attribute:
  assumes "uapi_macros_ok U" and "nlmsg_len m h = ret L" and "unat L = 32 + attrs_size xs"
    and "attrs_at m (h + 32) (xs @ [(t, p)])" and "p \<noteq> []" and "length p \<le> 4"
  shows "attr_loop U m 1000 (ifla_rta U (h + 16)) (ifa_payload U L) 0 =
    dump_attrs U m 1000 (h + 32) 0 (xs @ [(t, p)])"
proof -
  have "0 < length p" using assms(5) by simp
  then have s: "round_up4 (4 + length p) = 8"
    using assms(6) unfolding round_up4_def by presburger
  have "unat (ifa_payload U L) = attrs_size (xs @ [(t, p)]) + 0"
    using uapi_macros_okD(4) [OF assms(1), of L] assms(3) s by simp
  moreover have "ifla_rta U (h + 16) = h + 32" using uapi_macros_okD(5) [OF assms(1), of "h + 16"] by simp
  ultimately show ?thesis
    using attr_loop_all [OF assms(1,4), of _ 0] by simp
qed

theorem link_dump_phantom_attribute_witness:
  "attr_loop linux_uapi (example_link 0 0) 1000 32 (ifa_payload linux_uapi 32) 0 =
    dump_attrs linux_uapi (example_link 0 0) 1000 32 0 [(4, [1, 2, 3, 4])]"
proof -
  have "nlmsg_len (example_link 0 0) 0 = ret 32" by (simp add: load_word_eval example_link_def)
  moreover have "attrs_at (example_link 0 0) (0 + 32) ([] @ [(4, [1, 2, 3, 4])])"
    by (simp add: attr_eval example_link_def)
  ultimately show ?thesis
    using link_dump_phantom_attribute [OF linux_uapi_macros_ok, of "example_link 0 0" 0 32 "[]" 4 "[1, 2, 3, 4]"]
    by simp
qed

text \<open>
  C40: when the last attribute is counted without its padding, the unsigned count wraps around: the
  loop prints the attributes and then reads behind the message. If the block ends there, the dump
  never returns normally.
\<close>

theorem unpadded_last_attribute_overruns:
  assumes "uapi_macros_ok U" and "attrs_at m a (xs @ [(t, p)])" and "\<not> 4 dvd length p"
    and "unat n = attrs_size xs + 4 + length p" and "length m < a + attrs_size (xs @ [(t, p)]) + 2"
  shows "attr_loop U m sz a n i =
    io_seq (dump_attrs U m sz a i (xs @ [(t, p)])) (stop Read_OOB)"
proof -
  have n: "n = of_nat (attrs_size xs + 4 + length p)" by (simp flip: assms(4))
  have "attrs_size xs + 4 + length p < 2 ^ 64" using unat_word_less [of n] by (simp flip: assms(4))
  from attr_loop_unpadded [OF assms(1-3) this, of sz i] obtain k where k: "2 ^ 64 - 4 < unat k"
    "attr_loop U m sz a n i =
      io_seq (dump_attrs U m sz a i (xs @ [(t, p)]))
        (attr_loop U m sz (a + attrs_size (xs @ [(t, p)])) k (i + length xs + 1))"
    unfolding n by blast
  have "rta_len m (a + attrs_size (xs @ [(t, p)])) = stop Read_OOB"
    using assms(5) by (simp add: load16_def load_def)
  moreover have "\<not> k < 4" using k(1) by (simp add: word_less_nat_alt)
  ultimately have "attr_loop U m sz (a + attrs_size (xs @ [(t, p)])) k (i + length xs + 1) = stop Read_OOB"
    by (subst attr_loop.simps) (simp add: rta_ok_doc [OF assms(1)])
  then show ?thesis using k(2) by simp
qed

theorem unpadded_last_attribute_overruns_witness:
  "attr_loop linux_uapi (attr 16 [6]) 512 0 5 0 =
    io_seq (dump_attrs linux_uapi (attr 16 [6]) 512 0 0 [(16, [6])]) (stop Read_OOB)"
proof -
  have "attrs_at (attr 16 [6]) 0 ([] @ [(16, [6])])" using attr_at_self [of "[6]" 16 "[]"] by simp
  from unpadded_last_attribute_overruns [OF linux_uapi_macros_ok this, of 5 512 0] show ?thesis
    by (simp add: round_up4_def)
qed

text \<open>
  C17: the dump of a message ends on every memory and every message, however malformed: it returns or
  stops with a fault or an exit, but no loop runs for ever.
\<close>

theorem netlink_msg_dump_ends:
  assumes "uapi_macros_ok U"
  shows "snd (netlink_msg_dump U ifname m h) \<noteq> Inl Diverge"
  using ends_netlink_msg_dump [OF assms] by (simp add: ends_def)

theorem netlink_msg_dump_ends_witness:
  "snd (netlink_msg_dump linux_uapi (\<lambda>_. None) (replicate 64 0xff) 0) \<noteq> Inl Diverge"
  by (rule netlink_msg_dump_ends [OF linux_uapi_macros_ok])

text \<open>
  C16: a message of one of the twelve link, address, route and neighbour types is printed as its
  header, then the body of its own kind, then the end line, provided that the names of its flags fit;
  with more flags than that the dump overruns its array and never reaches the body.
\<close>

theorem netlink_msg_dump_dispatch:
  assumes "uapi_names U" and "is_label U t l" and "(l, body) \<in> set (body_dumps U ifname m h)"
    and "nlmsg_len m h = ret len" and "nlmsg_type m h = ret t" and "nlmsg_flags m h = ret f"
    and "nlmsg_seq m h = ret s" and "nlmsg_pid m h = ret p"
  shows "(length (flag_text nlmsg_get_names (ucast f)) < 100 \<and> length (flag_text nlmsg_new_names (ucast f)) < 100 \<longrightarrow>
      netlink_msg_dump U ifname m h =
        io_seq (io_each line (header_lines l len t f s p))
          (io_seq body (line ''-----NLMSG-END-----------------------------''))) \<and>
    (100 \<le> length (flag_text nlmsg_get_names (ucast f)) \<or> 100 \<le> length (flag_text nlmsg_new_names (ucast f)) \<longrightarrow>
      snd (netlink_msg_dump U ifname m h) = Inl Write_OOB)"
proof -
  note tables = NUL_notin_flag_text [OF names_fit_tables(3), of "ucast f"] NUL_notin_flag_text [OF names_fit_tables(2), of "ucast f"]
  have get: "nlmsg_flags_to_str_get (ucast f) (c_array 100) 100 =
      (if length (flag_text nlmsg_get_names (ucast f)) < 100 then ret (filled 100 (flag_text nlmsg_get_names (ucast f)))
       else stop Write_OOB)"
    by (simp add: nlmsg_flags_to_str_eq Let_def c_snprintf_c_array)
  have new: "\<exists>b. nlmsg_flags_to_str_new (ucast f) (filled 100 t0) 100 =
      (if length (flag_text nlmsg_new_names (ucast f)) < 100 then ret b else stop Write_OOB) \<and>
      (length (flag_text nlmsg_new_names (ucast f)) < 100 \<longrightarrow> c_str b = flag_text nlmsg_new_names (ucast f))"
    if "NUL \<notin> set t0" "length t0 < 100" for t0
    using c_snprintf_ex [OF tables(2), of "filled 100 t0" 100] that
    by (auto simp: nlmsg_flags_to_str_eq Let_def)
  let ?g = "flag_text nlmsg_get_names (ucast f)" and ?n = "flag_text nlmsg_new_names (ucast f)"
  note start = netlink_msg_dump_def [of U ifname m h] assms(4-8) io_bind_ret body_of_label(2) [OF assms(1-3)] get
  show ?thesis
  proof (cases "length ?g < 100")
    case False
    then show ?thesis unfolding start by (simp add: line_def)
  next
    case g: True
    obtain b where b: "nlmsg_flags_to_str_new (ucast f) (filled 100 ?g) 100 =
        (if length ?n < 100 then ret b else stop Write_OOB)" "length ?n < 100 \<longrightarrow> c_str b = ?n"
      using new [OF tables(1) g] by blast
    have str: "c_str (filled 100 ?g) = ?g" using tables(1) g by simp
    note start = start if_P [OF g] b(1) str body_of_label(1) [OF assms(1-3)]
    show ?thesis
    proof (cases "length ?n < 100")
      case False
      then show ?thesis unfolding start by (simp add: line_def)
    next
      case True
      then have "c_str b = ?n" using b(2) by simp
      then show ?thesis
        using True g unfolding start header_lines_def io_each.simps by simp
    qed
  qed
qed

theorem netlink_msg_dump_dispatch_witness:
  "netlink_msg_dump linux_uapi (\<lambda>_. None) (example_link 2 0) 0 =
     io_seq (io_each line (header_lines ''RTM_NEWLINK'' 32 16 2 0 0))
       (io_seq (netlink_link_msg_dump linux_uapi (example_link 2 0) 0)
         (line ''-----NLMSG-END-----------------------------'')) \<and>
   snd (netlink_msg_dump linux_uapi (\<lambda>_. None) (example_link 255 1) 0) = Inl Write_OOB"
proof -
  have l: "is_label linux_uapi 16 ''RTM_NEWLINK''" by (simp add: is_label_def linux_eval)
  have b: "(''RTM_NEWLINK'', netlink_link_msg_dump linux_uapi m 0) \<in> set (body_dumps linux_uapi (\<lambda>_. None) m 0)" for m
    by (simp add: body_dumps_def)
  have h: "nlmsg_len (example_link f1 f2) 0 = ret 32" "nlmsg_type (example_link f1 f2) 0 = ret 16"
    "nlmsg_flags (example_link f1 f2) 0 = ret (of_nat (unat f1 + 256 * unat f2))"
    "nlmsg_seq (example_link f1 f2) 0 = ret 0" "nlmsg_pid (example_link f1 f2) 0 = ret 0" for f1 f2
    by (simp_all add: load_word_eval example_link_def)
  have few: "length (flag_text nlmsg_get_names 2) < 100" "length (flag_text nlmsg_new_names 2) < 100"
    by (simp_all add: flag_text_def flag_words_def nlmsg_get_names_def nlmsg_new_names_def upt_rec)
  have many: "100 \<le> length (flag_text nlmsg_get_names 0x1ff)"
    by (simp add: flag_text_def flag_words_def nlmsg_get_names_def upt_rec)
  show ?thesis
    using netlink_msg_dump_dispatch [OF linux_names_ok l b h [of 2 0]]
      netlink_msg_dump_dispatch [OF linux_names_ok l b h [of 255 1]] few many
    by simp
qed

end
