(* ===== verification/Monitor.thy ===== *)
theory Monitor
  imports Dump
begin

text \<open>
  \<open>yalin/yalin/socket.h\<close>, \<open>yalin/yalin/request.h\<close> and \<open>yalin/main.c\<close>: opening the netlink socket,
  the receive loop and the monitor that dumps every message. The kernel's answers are parameters:
  \<open>answers\<close> holds what the calls of \<open>netlink_open\<close> return, a list of \<open>recv\<close> what \<open>recvmsg\<close> delivers,
  in order; when the list is used up the program is blocked in \<open>recvmsg\<close>. The resources a process
  holds are kept in \<open>sys\<close>. The handler a caller passes to \<open>netlink_listen\<close> has the contract
  \<open>msg_handler\<close>, which the monitor's \<open>dump_msg\<close> fulfils.
\<close>

section \<open>The code: the socket\<close>

record sys =
  open_fds :: "int list"
  blocks :: nat

record netlink =
  nl_fd :: int
  nl_proto :: int
  nl_groups :: u32

record answers =
  a_malloc :: bool
  a_socket :: int
  a_sndbuf :: int
  a_rcvbuf :: int
  a_bind :: int
  a_getsockname :: int
  a_strerror :: string

definition perror :: "answers \<Rightarrow> string \<Rightarrow> unit io" where
  "perror A s = put Std_err (s @ '': '' @ a_strerror A @ [NL])"

text \<open>
  \<open>netlink_open\<close>; \<open>None\<close> is NULL. The result of the third \<open>setsockopt\<close>, the extended acknowledgements,
  is not looked at. \<open>getsockname\<close> overwrites \<open>local\<close> with the kernel's address, whose groups are those
  that were bound.
\<close>

definition netlink_open :: "answers \<Rightarrow> u32 \<Rightarrow> int \<Rightarrow> sys \<Rightarrow> (netlink option \<times> sys) io" where
  "netlink_open A subscriptions protocol S =
     (if \<not> a_malloc A then stop Null_Deref
      else let S = S\<lparr>blocks := blocks S + 1\<rparr> in
      if a_socket A < 0 then io_seq (perror A ''socket'') (ret (None, S))
      else let S = S\<lparr>open_fds := a_socket A # open_fds S\<rparr> in
      if a_sndbuf A < 0 then io_seq (perror A ''setsockopt(SO_SNDBUF)'') (ret (None, S))
      else if a_rcvbuf A < 0 then io_seq (perror A ''setsockopt(SO_RCVBUF)'') (ret (None, S))
      else if a_bind A < 0 then io_seq (perror A ''bind local addr'') (ret (None, S))
      else if a_getsockname A < 0 then io_seq (perror A ''getsockname'') (ret (None, S))
      else ret (Some \<lparr>nl_fd = a_socket A, nl_proto = protocol, nl_groups = subscriptions\<rparr>, S))"

definition netlink_close :: "netlink \<Rightarrow> sys \<Rightarrow> sys" where
  "netlink_close nl S =
     (let S = (if 0 \<le> nl_fd nl then S\<lparr>open_fds := remove1 (nl_fd nl) (open_fds S)\<rparr> else S)
      in S\<lparr>blocks := blocks S - 1\<rparr>)"

section \<open>The code: the receive loop\<close>

type_synonym handler = "mem \<Rightarrow> nat \<Rightarrow> int io"

text \<open>
  \<open>recvmsg\<close>: its result, \<open>errno\<close> (whether it is one of \<open>EINTR\<close>, \<open>EAGAIN\<close>, \<open>ENOBUFS\<close>), the bytes it
  stores at the start of the buffer, and the flag \<open>MSG_TRUNC\<close>.
\<close>

record recv =
  status :: u32
  retry :: bool
  bytes :: "u8 list"
  truncated :: bool

datatype outcome = Returned int | Blocked

text \<open>
  The inner loop. \<open>status\<close> is an \<open>int\<close>; \<open>status >= sizeof (*h)\<close> converts it to an unsigned 64-bit
  integer. \<open>NLMSG_ALIGN (len)\<close> is unsigned, so is the subtraction. \<open>Inl\<close> is the handler's error,
  \<open>Inr\<close> the rest of \<open>status\<close>. First the loop as it is written, for at most \<open>n\<close> iterations: where it
  would go on after them it answers with \<open>h\<close> and \<open>status\<close> at that point.
\<close>

fun msg_iterate :: "uapi \<Rightarrow> handler \<Rightarrow> mem \<Rightarrow> nat \<Rightarrow> nat \<Rightarrow> u32 \<Rightarrow> (nat \<times> u32 + (int + u32)) io" where
  "msg_iterate U handler m 0 h st = ret (Inl (h, st))"
| "msg_iterate U handler m (Suc n) h st =
     (if 16 \<le> (scast st :: u64) then
        io_bind (nlmsg_len m h) (\<lambda>len.
        io_bind (handler m h) (\<lambda>err.
          if err < 0 then ret (Inr (Inl err))
          else msg_iterate U handler m n (h + unat (nlmsg_align U len)) (st - nlmsg_align U len)))
      else ret (Inr (Inr st)))"

text \<open>
  The same loop run to its end. A step of zero leaves \<open>h\<close> and \<open>status\<close> as they were; the function has
  to answer something there, and its answer is \<open>Diverge\<close>. That this is the answer exactly where the loop
  as written never ends is proved below.
\<close>

function msg_loop :: "uapi \<Rightarrow> handler \<Rightarrow> mem \<Rightarrow> nat \<Rightarrow> u32 \<Rightarrow> (int + u32) io" where
  "msg_loop U handler m h st =
     (if 16 \<le> (scast st :: u64) then
        io_bind (nlmsg_len m h) (\<lambda>len.
        io_bind (handler m h) (\<lambda>err.
          if err < 0 then ret (Inl err)
          else if nlmsg_align U len = 0 then stop Diverge
          else msg_loop U handler m (h + unat (nlmsg_align U len)) (st - nlmsg_align U len)))
      else ret (Inr st))"
  by pat_completeness auto
termination
proof (relation "measure (\<lambda>(U, handler, m, h, st). length m - h)")
  fix U :: uapi and handler :: handler and m :: mem and h :: nat and st :: u32 and l e
  assume "snd (nlmsg_len m h) = Inr l" and "nlmsg_align U l \<noteq> 0"
  moreover from this(2) have "0 < unat (nlmsg_align U l)"
    by (metis gr0I unat_eq_zero)
  ultimately show "((U, handler, m, h + unat (nlmsg_align U l), st - nlmsg_align U l), U, handler, m, h, st)
      \<in> measure (\<lambda>(U, handler, m, h, st). length m - h)"
    by (auto simp: load32_def load_def split: if_splits)
qed simp

declare msg_loop.simps [simp del]

fun netlink_listen :: "uapi \<Rightarrow> handler \<Rightarrow> mem \<Rightarrow> recv list \<Rightarrow> outcome io" where
  "netlink_listen U handler buf [] = ret Blocked"
| "netlink_listen U handler buf (r # rs) =
     (if sint (status r) < 0 then
        if retry r then netlink_listen U handler buf rs else ret (Returned (- 1))
      else if status r = 0 then
        io_seq (put Std_err (''EOF on netlink'' @ [NL])) (ret (Returned (- 1)))
      else
        let buf = bytes r @ drop (length (bytes r)) buf in
        io_bind (msg_loop U handler buf 0 (status r)) (\<lambda>rest.
          case rest of
            Inl err \<Rightarrow> ret (Returned err)
          | Inr st \<Rightarrow>
              if truncated r then netlink_listen U handler buf rs
              else if st \<noteq> 0 then stop (Exit 1)
              else netlink_listen U handler buf rs))"

section \<open>The code: the monitor\<close>

definition dump_msg :: "uapi \<Rightarrow> (u32 \<Rightarrow> string option) \<Rightarrow> handler" where
  "dump_msg U ifname m n = io_seq (netlink_msg_dump U ifname m n) (ret 0)"

text \<open>\<open>main\<close>: the exit status, and what the process holds when it exits or blocks.\<close>

definition NETLINK_ROUTE :: int where
  "NETLINK_ROUTE = 0"

definition main :: "uapi \<Rightarrow> (u32 \<Rightarrow> string option) \<Rightarrow> answers \<Rightarrow> mem \<Rightarrow> recv list \<Rightarrow> sys \<Rightarrow> (outcome \<times> sys) io" where
  "main U ifname A buf script S =
     io_bind (netlink_open A (NOT 0) NETLINK_ROUTE S) (\<lambda>(nl, S).
       case nl of
         None \<Rightarrow> ret (Returned 1, S)
       | Some nl \<Rightarrow>
           io_bind (netlink_listen U (dump_msg U ifname) buf script) (\<lambda>out.
             case out of
               Blocked \<Rightarrow> ret (Blocked, S)
             | Returned r \<Rightarrow>
                 if r < 0 then ret (Returned 1, S)
                 else ret (Returned 0, netlink_close nl S)))"

section \<open>The contract of a handler\<close>

text \<open>Well-formed messages one behind the other, each with at least a header and padded.\<close>

fun msgs_at :: "mem \<Rightarrow> nat \<Rightarrow> u32 list \<Rightarrow> bool" where
  "msgs_at m h [] \<longleftrightarrow> True"
| "msgs_at m h (L # Ls) \<longleftrightarrow> nlmsg_len m h = ret L \<and> 16 \<le> unat L \<and> msgs_at m (h + round_up4 (unat L)) Ls"

fun msgs_size :: "u32 list \<Rightarrow> nat" where
  "msgs_size [] = 0"
| "msgs_size (L # Ls) = round_up4 (unat L) + msgs_size Ls"

text \<open>What the inner loop is meant to do: the handler on each message, in order.\<close>

fun handle_all :: "handler \<Rightarrow> mem \<Rightarrow> nat \<Rightarrow> u32 list \<Rightarrow> unit io" where
  "handle_all handler m h [] = ret ()"
| "handle_all handler m h (L # Ls) =
     io_bind (handler m h) (\<lambda>_. handle_all handler m (h + round_up4 (unat L)) Ls)"

lemma sint32_uint: "uint (scast (st :: u32) :: u64) = sint st mod 2 ^ 64"
  by (simp only: scast_eq unsigned_of_int take_bit_eq_mod len_num1 len_bit0) simp

lemma sint32_range: "- (2 ^ 31) \<le> sint (st :: u32)" "sint (st :: u32) < 2 ^ 31"
  using signed_take_bit_int_greater_eq_minus_exp [of 31 "uint st"] signed_take_bit_int_less_exp [of 31 "uint st"]
  by (simp_all add: sint_uint)

lemma sizeof_test: "16 \<le> (scast st :: u64) \<longleftrightarrow> sint st < 0 \<or> 16 \<le> sint st" for st :: u32
proof -
  have "16 \<le> (scast st :: u64) \<longleftrightarrow> 16 \<le> sint st mod 2 ^ 64"
    unfolding sint32_uint [symmetric] by (simp add: word_le_def)
  also have "\<dots> \<longleftrightarrow> sint st < 0 \<or> 16 \<le> sint st"
  proof (cases "sint st < 0")
    case True
    have "sint st mod 2 ^ 64 = (sint st + 2 ^ 64) mod 2 ^ 64" by simp
    also have "\<dots> = sint st + 2 ^ 64" using True sint32_range [of st] by (intro mod_pos_pos_trivial) auto
    finally show ?thesis using True sint32_range [of st] by simp
  next
    case False
    then show ?thesis using sint32_range [of st] by (simp add: mod_pos_pos_trivial)
  qed
  finally show ?thesis .
qed

lemma sint32_of_nat: "n < 2 ^ 31 \<Longrightarrow> sint (of_nat n :: u32) = int n"
proof -
  assume n: "n < 2 ^ 31"
  then have "unat (of_nat n :: u32) = n" by (intro unat_of_nat_small) simp
  then have "uint (of_nat n :: u32) = int n" by (metis uint_nat)
  moreover have "signed_take_bit 31 (int n) = int n"
    using n by (intro signed_take_bit_int_eq_self) auto
  ultimately show ?thesis by (simp add: sint_uint)
qed

lemma sint32_sub:
  assumes "0 \<le> sint (a :: u32)" and "0 \<le> sint b"
  shows "sint (a - b) = sint a - sint b"
proof -
  have "sint (a - b) = signed_take_bit 31 (sint a - sint b)" by (simp add: sint_word_ariths)
  also have "\<dots> = sint a - sint b"
    using assms sint32_range [of a] sint32_range [of b] by (intro signed_take_bit_int_eq_self) auto
  finally show ?thesis .
qed

lemma nlmsg_align_eq:
  assumes "uapi_macros_ok U" and "unat L + 3 < 2 ^ 31"
  shows "unat (nlmsg_align U L) = round_up4 (unat L)" and "nlmsg_align U L = of_nat (round_up4 (unat L))"
    and "sint (nlmsg_align U L) = int (round_up4 (unat L))"
proof -
  show u: "unat (nlmsg_align U L) = round_up4 (unat L)"
    using assms(2) by (intro uapi_macros_okD(3) [OF assms(1)]) simp
  show w: "nlmsg_align U L = of_nat (round_up4 (unat L))" by (simp flip: u)
  show "sint (nlmsg_align U L) = int (round_up4 (unat L))"
    unfolding w using round_up4_lt [of "unat L"] assms(2) by (intro sint32_of_nat) simp
qed


locale msg_handler =
  fixes handler :: handler
  assumes not_negative: "snd (handler m h) = Inr e \<Longrightarrow> 0 \<le> e"
    and handler_ends: "ends (handler m h)"
begin

lemma io_bind_handler:
  "io_bind (handler m h) (\<lambda>e. if e < 0 then f e else g e) = io_bind (handler m h) g"
  by (rule io_bind_cong [OF refl]) (use not_negative in force)

lemma msg_loop_step:
  assumes "16 \<le> (scast st :: u64)" and "nlmsg_len m h = ret L" and "nlmsg_align U L \<noteq> 0"
  shows "msg_loop U handler m h st =
    io_bind (handler m h) (\<lambda>_. msg_loop U handler m (h + unat (nlmsg_align U L)) (st - nlmsg_align U L))"
  by (subst msg_loop.simps) (simp add: assms io_bind_handler)

lemma msg_loop_zero:
  assumes "16 \<le> (scast st :: u64)" and "nlmsg_len m h = ret L" and "nlmsg_align U L = 0"
  shows "msg_loop U handler m h st = io_bind (handler m h) (\<lambda>_. stop Diverge)"
  by (subst msg_loop.simps) (simp add: assms io_bind_handler)

lemma msg_loop_rest: "snd (msg_loop U handler m h st) = Inr r \<Longrightarrow> \<exists>s. r = Inr s \<and> 0 \<le> sint s \<and> sint s < 16"
proof (induction "length m - h" arbitrary: h st rule: less_induct)
  case less
  show ?case
  proof (cases "16 \<le> (scast st :: u64)")
    case False
    then show ?thesis
      using less.prems by (subst (asm) msg_loop.simps) (auto simp: sizeof_test)
  next
    case True
    with less.prems obtain L e where L: "snd (nlmsg_len m h) = Inr L" and e: "snd (handler m h) = Inr e"
      and r: "snd (if e < 0 then ret (Inl e) else if nlmsg_align U L = 0 then stop Diverge
        else msg_loop U handler m (h + unat (nlmsg_align U L)) (st - nlmsg_align U L)) = Inr r"
      by (subst (asm) msg_loop.simps) (auto elim!: snd_io_bind_InrE)
    have "0 \<le> e" by (rule not_negative [OF e])
    with r have nz: "nlmsg_align U L \<noteq> 0"
      and rest: "snd (msg_loop U handler m (h + unat (nlmsg_align U L)) (st - nlmsg_align U L)) = Inr r"
      by (auto split: if_splits)
    have "h + 4 \<le> length m" using L by (auto simp: load32_def load_def split: if_splits)
    moreover have "0 < unat (nlmsg_align U L)" using nz by (metis gr0I unat_eq_zero)
    ultimately show ?thesis by (intro less.hyps [OF _ rest]) linarith
  qed
qed

lemma iterate_step:
  assumes "16 \<le> (scast st :: u64)" and "nlmsg_len m h = ret L"
  shows "msg_iterate U handler m (Suc n) h st =
    io_bind (handler m h) (\<lambda>_. msg_iterate U handler m n (h + unat (nlmsg_align U L)) (st - nlmsg_align U L))"
  using assms by (simp add: io_bind_handler)

text \<open>Where a step is zero the loop is still running after any number of iterations.\<close>

lemma iterate_zero:
  assumes "16 \<le> (scast st :: u64)" and "nlmsg_len m h = ret L" and "nlmsg_align U L = 0" and "snd (handler m h) = Inr e"
  shows "snd (msg_iterate U handler m n h st) = Inr (Inl (h, st))"
proof (induction n)
  case (Suc n)
  with assms(3,4) show ?case unfolding iterate_step [OF assms(1,2)] by simp
qed simp

text \<open>One iteration: the loop is over, stopped by a fault, at a zero step, or goes on further ahead.\<close>

lemma loop_cases:
  obtains (over) "\<not> 16 \<le> (scast st :: u64)"
  | (fault) e where "\<And>n. snd (msg_iterate U handler m (Suc n) h st) = Inl e" "e \<noteq> Diverge"
      "\<And>n. msg_iterate U handler m (Suc n) h st = io_bind (msg_loop U handler m h st) (\<lambda>r. ret (Inr r))"
  | (zero) L e where "16 \<le> (scast st :: u64)" "nlmsg_len m h = ret L" "nlmsg_align U L = 0" "snd (handler m h) = Inr e"
  | (further) L e where "16 \<le> (scast st :: u64)" "nlmsg_len m h = ret L" "nlmsg_align U L \<noteq> 0" "snd (handler m h) = Inr e"
      "length m - (h + unat (nlmsg_align U L)) < length m - h"
proof (cases "16 \<le> (scast st :: u64)")
  case True
  show ?thesis
  proof (cases "h + 4 \<le> length m")
    case False
    then have "nlmsg_len m h = stop Read_OOB" by (simp add: load32_def load_def)
    with True show ?thesis by (intro fault [of Read_OOB]) (simp_all add: msg_loop.simps [of U handler m h])
  next
    case len: True
    then obtain L where L: "nlmsg_len m h = ret L" by (simp add: load32_def load_def)
    show ?thesis
    proof (cases "snd (handler m h)")
      case (Inl e)
      moreover from Inl have "e \<noteq> Diverge" using handler_ends [of m h] by (auto simp: ends_def)
      moreover have "msg_iterate U handler m (Suc n) h st = (fst (handler m h), Inl e)" for n
        using True L Inl by (simp add: io_bind_def)
      moreover have "msg_loop U handler m h st = (fst (handler m h), Inl e)"
        using True L Inl by (subst msg_loop.simps) (simp add: io_bind_def)
      ultimately show ?thesis by (intro fault [of e]) (simp_all add: io_bind_def)
    next
      case (Inr e)
      have "0 < unat (nlmsg_align U L)" if "nlmsg_align U L \<noteq> 0" using that by (metis gr0I unat_eq_zero)
      with True L Inr len show ?thesis by (cases "nlmsg_align U L = 0") (auto intro: zero further)
    qed
  qed
qed (rule over)

lemma iterate_diverge:
  "snd (msg_loop U handler m h st) = Inl Diverge \<Longrightarrow> \<exists>at. snd (msg_iterate U handler m n h st) = Inr (Inl at)"
proof (induction n arbitrary: h st)
  case (Suc n)
  show ?case
  proof (cases rule: loop_cases [where U = U and m = m and h = h and st = st])
    case over
    with Suc.prems show ?thesis by (simp add: msg_loop.simps [of U handler m h])
  next
    case (fault e)
    with Suc.prems show ?thesis by (metis snd_io_bind_Inl sum.inject(1))
  next
    case (zero L e)
    then show ?thesis using iterate_zero by blast
  next
    case (further L e)
    with Suc show ?thesis
      unfolding iterate_step [OF further(1,2)] msg_loop_step [OF further(1-3)] by simp
  qed
qed simp

lemma iterate_end:
  "snd (msg_loop U handler m h st) \<noteq> Inl Diverge \<Longrightarrow>
   \<exists>k. \<forall>n\<ge>k. msg_iterate U handler m n h st = io_bind (msg_loop U handler m h st) (\<lambda>r. ret (Inr r))"
proof (induction "length m - h" arbitrary: h st rule: less_induct)
  case less
  have later: "\<exists>k. \<forall>n\<ge>k. P n" if "\<exists>k. \<forall>n\<ge>k. P (Suc n)" for P :: "nat \<Rightarrow> bool"
    using that by (metis Suc_le_D Suc_le_mono)
  show ?case
  proof (cases rule: loop_cases [where U = U and m = m and h = h and st = st])
    case over
    then show ?thesis by (intro later [OF exI [of _ 0]]) (simp add: msg_loop.simps [of U handler m h])
  next
    case (fault e)
    then show ?thesis by (intro later [OF exI [of _ 0]]) blast
  next
    case (zero L e)
    with less.prems show ?thesis unfolding msg_loop_zero [OF zero(1-3)] by simp
  next
    case (further L e)
    with less.prems have "snd (msg_loop U handler m (h + unat (nlmsg_align U L)) (st - nlmsg_align U L)) \<noteq> Inl Diverge"
      unfolding msg_loop_step [OF further(1-3)] by simp
    from less.hyps [OF further(5) this] obtain k where
      "\<forall>n\<ge>k. msg_iterate U handler m n (h + unat (nlmsg_align U L)) (st - nlmsg_align U L) =
        io_bind (msg_loop U handler m (h + unat (nlmsg_align U L)) (st - nlmsg_align U L)) (\<lambda>r. ret (Inr r))" by blast
    then have "\<forall>n\<ge>k. msg_iterate U handler m (Suc n) h st = io_bind (msg_loop U handler m h st) (\<lambda>r. ret (Inr r))"
      unfolding iterate_step [OF further(1,2)] msg_loop_step [OF further(1-3)] by simp
    then show ?thesis by (intro later [OF exI [of _ k]])
  qed
qed

lemma msg_loop_messages:
  assumes "uapi_macros_ok U" and "msgs_at m h Ls" and "msgs_size Ls + k < 2 ^ 31" and "k < 16"
  shows "msg_loop U handler m h (of_nat (msgs_size Ls + k)) =
    io_bind (handle_all handler m h Ls) (\<lambda>_. ret (Inr (of_nat k)))"
  using assms(2,3)
proof (induction Ls arbitrary: h)
  case Nil
  have "\<not> 16 \<le> (scast (of_nat k :: u32) :: u64)"
    unfolding sizeof_test using assms(4) by (subst (1 2) sint32_of_nat) simp_all
  then show ?case by (simp add: msg_loop.simps [of U handler m h])
next
  case (Cons L Ls)
  let ?n = "msgs_size (L # Ls) + k"
  from Cons.prems have L: "nlmsg_len m h = ret L" "16 \<le> unat L" "msgs_at m (h + round_up4 (unat L)) Ls"
    and n: "msgs_size Ls + k < 2 ^ 31" by auto
  have r: "16 \<le> round_up4 (unat L)" "round_up4 (unat L) < 2 ^ 31"
    using L(2) round_up4_ge [of "unat L"] Cons.prems(2) by (linarith, simp)
  have L31: "unat L + 3 < 2 ^ 31"
  proof -
    obtain q where q: "round_up4 (unat L) = 4 * q" using round_up4_dvd [of "unat L"] by (elim dvdE)
    have "round_up4 (unat L) \<le> 2 ^ 31 - 4" using r(2) unfolding q by simp
    with round_up4_ge [of "unat L"] have "unat L \<le> 2 ^ 31 - 4" by (rule le_trans)
    then show ?thesis by simp
  qed
  note al = nlmsg_align_eq [OF assms(1) L31]
  have nz: "nlmsg_align U L \<noteq> 0"
  proof
    assume "nlmsg_align U L = 0"
    then show False using al(1) L(2) by simp
  qed
  have "16 \<le> (scast (of_nat ?n :: u32) :: u64)"
    unfolding sizeof_test using Cons.prems(2) r(1) by (subst (2) sint32_of_nat) simp_all
  from msg_loop_step [OF this L(1) nz] show ?case
    using Cons.IH [OF L(3) n] al(1,2) by simp
qed

lemma listen_returns: "snd (netlink_listen U handler buf rs) = Inr (Returned k) \<Longrightarrow> k = - 1"
proof (induction rs arbitrary: buf)
  case Nil
  then show ?case by simp
next
  case (Cons r rs)
  let ?buf = "bytes r @ drop (length (bytes r)) buf"
  consider "sint (status r) < 0" | "\<not> sint (status r) < 0" "status r = 0"
    | "\<not> sint (status r) < 0" "status r \<noteq> 0" by blast
  then show ?case
  proof cases
    case 1
    then show ?thesis using Cons by (auto split: if_splits)
  next
    case 2
    then show ?thesis using Cons.prems by simp
  next
    case 3
    with Cons.prems obtain x where x: "snd (msg_loop U handler ?buf 0 (status r)) = Inr x"
      and c: "snd (case x of Inl err \<Rightarrow> ret (Returned err)
          | Inr st \<Rightarrow> if truncated r then netlink_listen U handler ?buf rs
              else if st \<noteq> 0 then stop (Exit 1) else netlink_listen U handler ?buf rs) = Inr (Returned k)"
      by (auto simp: Let_def elim!: snd_io_bind_InrE)
    from msg_loop_rest [OF x] obtain s where "x = Inr s" by blast
    with c show ?thesis using Cons.IH by (auto split: if_splits)
  qed
qed

lemma listen_datagram:
  assumes "uapi_macros_ok U" and "unat (status r) = length (bytes r)" and "length (bytes r) < 2 ^ 31"
    and "length (bytes r) = msgs_size Ls + k" and "k < 16" and "bytes r \<noteq> []"
    and "msgs_at (bytes r @ drop (length (bytes r)) buf) 0 Ls"
  shows "netlink_listen U handler buf (r # rs) =
    io_bind (handle_all handler (bytes r @ drop (length (bytes r)) buf) 0 Ls) (\<lambda>_.
      if k = 0 \<or> truncated r then netlink_listen U handler (bytes r @ drop (length (bytes r)) buf) rs
      else stop (Exit 1))"
proof -
  have st: "status r = of_nat (msgs_size Ls + k)" unfolding assms(4) [symmetric] by (simp flip: assms(2))
  have "0 < length (bytes r)" using assms(6) by simp
  then have n: "msgs_size Ls + k < 2 ^ 31" "0 < msgs_size Ls + k" using assms(3) by (simp_all only: assms(4))
  have "sint (status r) = int (msgs_size Ls + k)" unfolding st using n(1) by (intro sint32_of_nat) simp
  then have pos: "\<not> sint (status r) < 0" "status r \<noteq> 0" using n(2) by auto
  have "unat (of_nat k :: u32) = k" using assms(5) by (intro unat_of_nat_small) simp
  then have k: "(of_nat k :: u32) = 0 \<longleftrightarrow> k = 0" by (auto simp: word_unat_eq_iff)
  have "netlink_listen U handler buf (r # rs) =
    io_bind (msg_loop U handler (bytes r @ drop (length (bytes r)) buf) 0 (of_nat (msgs_size Ls + k))) (\<lambda>rest.
      case rest of
        Inl err \<Rightarrow> ret (Returned err)
      | Inr st \<Rightarrow>
          if truncated r then netlink_listen U handler (bytes r @ drop (length (bytes r)) buf) rs
          else if st \<noteq> 0 then stop (Exit 1)
          else netlink_listen U handler (bytes r @ drop (length (bytes r)) buf) rs)"
    using pos by (simp add: Let_def st [symmetric] del: of_nat_add)
  then show ?thesis
    unfolding msg_loop_messages [OF assms(1,7) n(1) assms(5)] by (simp add: k)
qed

end

text \<open>The monitor's handler fulfils the contract, whatever the headers' macros do as documented.\<close>

lemma dump_msg_handler: "uapi_macros_ok U \<Longrightarrow> msg_handler (dump_msg U ifname)"
proof
  show "snd (dump_msg U ifname m h) = Inr e \<Longrightarrow> 0 \<le> e" for m h e
    by (auto simp: dump_msg_def elim!: snd_io_bind_InrE)
  show "uapi_macros_ok U \<Longrightarrow> ends (dump_msg U ifname m h)" for m h
    unfolding dump_msg_def by (intro ends_rules ends_netlink_msg_dump)
qed

interpretation monitor: msg_handler "dump_msg linux_uapi ifname" for ifname
  by (rule dump_msg_handler [OF linux_uapi_macros_ok])

lemma quiet_handler: "msg_handler (\<lambda>m h. ret 0)"
  by unfold_locales (simp_all add: ends_basic)

lemma le_nat_zeros [simp]: "le_nat (replicate n 0) = 0"
  by (induction n) simp_all

definition good_answers :: answers where
  "good_answers = \<lparr>a_malloc = True, a_socket = 3, a_sndbuf = 0, a_rcvbuf = 0, a_bind = 0, a_getsockname = 0,
     a_strerror = ''Success''\<rparr>"

section \<open>Properties\<close>

text \<open>
  C8: a datagram of well-formed messages is handed to the handler message by message, in order, each
  once; then the loop waits for the next datagram. Bytes left behind the last message end the
  process with status 1, unless the datagram was truncated.
\<close>

theorem netlink_listen_datagram:
  assumes "uapi_macros_ok U" and "msg_handler handler"
    and "unat (status r) = length (bytes r)" and "length (bytes r) < 2 ^ 31" and "bytes r \<noteq> []"
    and "msgs_at (bytes r @ drop (length (bytes r)) buf) 0 Ls" and "length (bytes r) = msgs_size Ls + k" and "k < 16"
  shows "netlink_listen U handler buf (r # rs) =
    io_bind (handle_all handler (bytes r @ drop (length (bytes r)) buf) 0 Ls) (\<lambda>_.
      if k = 0 \<or> truncated r then netlink_listen U handler (bytes r @ drop (length (bytes r)) buf) rs
      else stop (Exit 1))"
  by (rule msg_handler.listen_datagram [OF assms(2,1,3,4,7,8,5,6)])

theorem netlink_listen_datagram_witness:
  "netlink_listen linux_uapi (dump_msg linux_uapi (\<lambda>_. None)) []
     [\<lparr>status = 20, retry = False, bytes = 16 # replicate 19 0, truncated = False\<rparr>] =
   io_bind (dump_msg linux_uapi (\<lambda>_. None) (16 # replicate 19 0) 0) (\<lambda>_. stop (Exit 1))"
proof -
  let ?r = "\<lparr>status = 20, retry = False, bytes = 16 # replicate 19 0, truncated = False\<rparr>"
  have "load32 (16 # replicate 19 0) 0 = ret 16"
    by (simp add: load_word_eval)
  then have m: "msgs_at (bytes ?r @ drop (length (bytes ?r)) []) 0 [16]" by simp
  show ?thesis
    using netlink_listen_datagram [OF linux_uapi_macros_ok dump_msg_handler [OF linux_uapi_macros_ok] _ _ _ m, of 4 "\<lambda>_. None" "[]"]
    by (simp add: round_up4_def)
qed

text \<open>
  C39: a message of length zero is handled for ever: the loop as it is written has, after any number of
  iterations, called the handler that many times on the same message and is where it was.
\<close>

theorem zero_length_message_diverges:
  assumes "uapi_macros_ok U" and "nlmsg_len m h = ret 0" and "16 \<le> sint st" and "handler m h = (evs, Inr e)" and "0 \<le> e"
  shows "msg_iterate U handler m n h st = (concat (replicate n evs), Inr (Inl (h, st)))"
proof (induction n)
  case (Suc n)
  have "unat (nlmsg_align U 0) = 0" using uapi_macros_okD(3) [OF assms(1), of 0] by simp
  then have "nlmsg_align U 0 = 0" by (simp add: word_unat_eq_iff)
  moreover have "16 \<le> (scast st :: u64)" using assms(3) by (simp add: sizeof_test)
  ultimately show ?case using assms(2,4,5) Suc by (simp add: io_bind_def)
qed (simp add: ret_def)

theorem zero_length_message_diverges_witness:
  "snd (msg_iterate linux_uapi (\<lambda>m h. ret 0) (replicate 16 0) 1000 0 16) = Inr (Inl (0, 16))"
proof -
  have "load32 (replicate 16 0) 0 = ret 0" by (simp add: load_word_eval)
  then have "msg_iterate linux_uapi (\<lambda>m h. ret 0) (replicate 16 0) 1000 0 16 = (concat (replicate 1000 []), Inr (Inl (0, 16)))"
    by (intro zero_length_message_diverges [OF linux_uapi_macros_ok, where e = 0]) (simp_all add: ret_def)
  then show ?thesis by (metis snd_conv)
qed



text \<open>
  C38: a message that claims more bytes than were received does not end the loop. The remaining count
  becomes negative, the comparison with \<open>sizeof\<close> takes it for a huge number, and the handler is
  called again on the bytes behind the message, whatever they are.
\<close>

theorem overlong_message_goes_on:
  assumes "uapi_macros_ok U" and "msg_handler handler" and "nlmsg_len m h = ret L" and "unat L + 3 < 2 ^ 31"
    and "16 \<le> sint st" and "sint st < int (round_up4 (unat L))"
    and "nlmsg_len m (h + round_up4 (unat L)) = ret L'" and "L' \<noteq> 0" and "unat L' + 3 < 2 ^ 31"
  shows "\<exists>st'. msg_loop U handler m h st =
    io_bind (handler m h) (\<lambda>_. io_bind (handler m (h + round_up4 (unat L))) (\<lambda>_.
      msg_loop U handler m (h + round_up4 (unat L) + round_up4 (unat L')) st'))"
proof -
  let ?h = "h + round_up4 (unat L)"
  note al = nlmsg_align_eq [OF assms(1,4)] and al' = nlmsg_align_eq [OF assms(1,9)]
  have "sint (st - nlmsg_align U L) = sint st - int (round_up4 (unat L))"
    using assms(5) al(3) by (subst sint32_sub) simp_all
  then have big: "16 \<le> (scast st :: u64)" "16 \<le> (scast (st - nlmsg_align U L) :: u64)"
    unfolding sizeof_test using assms(5,6) by simp_all
  have "nlmsg_align U L \<noteq> 0"
  proof
    assume "nlmsg_align U L = 0"
    then show False using al(3) assms(5,6) round_up4_of_dvd [of 0] by simp
  qed
  note one = msg_handler.msg_loop_step [OF assms(2) big(1) assms(3) this]
  have "nlmsg_align U L' \<noteq> 0"
  proof
    assume "nlmsg_align U L' = 0"
    then show False using al'(1) assms(8) by (simp add: word_unat_eq_iff)
  qed
  note two = msg_handler.msg_loop_step [OF assms(2) big(2) assms(7) this]
  show ?thesis
    unfolding one al(1) two al'(1) by blast
qed

theorem overlong_message_goes_on_witness:
  "\<exists>st'. msg_loop linux_uapi (\<lambda>m h. ret 0) (32 # replicate 31 0 @ 16 # replicate 15 0) 0 16 =
    msg_loop linux_uapi (\<lambda>m h. ret 0) (32 # replicate 31 0 @ 16 # replicate 15 0) 48 st'"
proof -
  let ?m = "32 # replicate 31 0 @ 16 # replicate 15 (0 :: u8)"
  have r: "round_up4 32 = 32" "round_up4 16 = 16" by (simp_all add: round_up4_def)
  have "load32 ?m 0 = ret 32" "load32 ?m 32 = ret 16" by (simp_all add: load_word_eval)
  then show ?thesis
    using overlong_message_goes_on [OF linux_uapi_macros_ok quiet_handler, of ?m 0 32 16 16] by (simp add: r)
qed

text \<open>
  Opening and closing the socket gives back exactly what was taken, one descriptor and one
  block of memory.
\<close>

theorem open_close_roundtrip:
  assumes "netlink_open A groups protocol S = ret (Some nl, S')"
  shows "netlink_close nl S' = S \<and> nl_fd nl = a_socket A \<and> nl_proto nl = protocol \<and> nl_groups nl = groups \<and>
    open_fds S' = nl_fd nl # open_fds S"
  using assms by (auto simp: netlink_open_def netlink_close_def perror_def Let_def split: if_splits)

theorem open_close_roundtrip_witness:
  "\<exists>nl S'. netlink_open good_answers 1 0 \<lparr>open_fds = [2], blocks = 0\<rparr> = ret (Some nl, S') \<and>
     netlink_close nl S' = \<lparr>open_fds = [2], blocks = 0\<rparr>"
proof -
  obtain nl S' where o: "netlink_open good_answers 1 0 \<lparr>open_fds = [2], blocks = 0\<rparr> = ret (Some nl, S')"
    by (simp add: netlink_open_def good_answers_def)
  with open_close_roundtrip [OF o] show ?thesis by blast
qed

text \<open>
  An open that fails gives nothing back: the memory stays allocated in every case, and the
  descriptor stays open unless the socket itself was refused.
\<close>

theorem failed_open_leaks:
  assumes "snd (netlink_open A groups protocol S) = Inr (None, S')"
  shows "blocks S' = blocks S + 1 \<and>
    open_fds S' = (if a_socket A < 0 then open_fds S else a_socket A # open_fds S)"
  using assms by (auto simp: netlink_open_def Let_def perror_def split: if_splits)

theorem failed_open_leaks_witness:
  "\<exists>S'. snd (netlink_open (good_answers\<lparr>a_bind := - 1\<rparr>) 1 0 \<lparr>open_fds = [2], blocks = 0\<rparr>) = Inr (None, S') \<and>
     open_fds S' = [3, 2]"
proof -
  obtain S' where o: "snd (netlink_open (good_answers\<lparr>a_bind := - 1\<rparr>) 1 0 \<lparr>open_fds = [2], blocks = 0\<rparr>) = Inr (None, S')"
    by (simp add: netlink_open_def good_answers_def perror_def)
  with failed_open_leaks [OF o] show ?thesis by (auto simp: good_answers_def)
qed

text \<open>
  The monitor never closes its socket and never exits with status 0: whenever it ends normally,
  its status is 1 and what it opened is still open.
\<close>

theorem monitor_never_closes:
  assumes "uapi_macros_ok U" and "snd (main U ifname A buf script S) = Inr (out, S')"
  shows "out \<in> {Returned 1, Blocked} \<and> blocks S' = blocks S + 1"
proof -
  from assms(2) obtain nl S1 where o: "snd (netlink_open A (NOT 0) NETLINK_ROUTE S) = Inr (nl, S1)"
    and rest: "snd (case nl of
         None \<Rightarrow> ret (Returned 1, S1)
       | Some nl \<Rightarrow>
           io_bind (netlink_listen U (dump_msg U ifname) buf script) (\<lambda>out.
             case out of
               Blocked \<Rightarrow> ret (Blocked, S1)
             | Returned r \<Rightarrow>
                 if r < 0 then ret (Returned 1, S1)
                 else ret (Returned 0, netlink_close nl S1))) = Inr (out, S')"
    unfolding main_def by (auto elim!: snd_io_bind_InrE)
  have b: "blocks S1 = blocks S + 1"
    using o by (auto simp: netlink_open_def Let_def perror_def split: if_splits)
  show ?thesis
  proof (cases nl)
    case None
    then show ?thesis using rest b by auto
  next
    case (Some n)
    with rest obtain l where l: "snd (netlink_listen U (dump_msg U ifname) buf script) = Inr l"
      and e: "snd (case l of
               Blocked \<Rightarrow> ret (Blocked, S1)
             | Returned r \<Rightarrow>
                 if r < 0 then ret (Returned 1, S1)
                 else (ret (Returned 0, netlink_close n S1) :: (outcome \<times> sys) io)) = Inr (out, S')"
      by (auto elim!: snd_io_bind_InrE)
    show ?thesis
    proof (cases l)
      case (Returned r)
      then have "r = - 1"
        using msg_handler.listen_returns [OF dump_msg_handler [OF assms(1)]] l by blast
      then show ?thesis using e b Returned by auto
    next
      case Blocked
      then show ?thesis using e b by auto
    qed
  qed
qed

theorem monitor_never_closes_witness:
  "\<exists>S'. snd (main linux_uapi (\<lambda>_. None) good_answers [] [] \<lparr>open_fds = [], blocks = 0\<rparr>) = Inr (Blocked, S') \<and>
     blocks S' = 1"
proof -
  obtain S' where o: "snd (main linux_uapi (\<lambda>_. None) good_answers [] [] \<lparr>open_fds = [], blocks = 0\<rparr>) = Inr (Blocked, S')"
    by (simp add: main_def netlink_open_def good_answers_def)
  with monitor_never_closes [OF linux_uapi_macros_ok o] show ?thesis by auto
qed

end
