(* ===== verification/Dump_Local.thy ===== *)
theory Dump_Local
  imports Dump
begin

text \<open>
  How far a dump looks. The programs read a message only through loads at addresses in it and behind
  it, so a dump that stays within a block of memory is the same whatever lies behind the block. This is
  one relation on effects, carried through every routine that reads memory.
\<close>

section \<open>Runs on a block and on a longer one\<close>

text \<open>\<open>y\<close> is the run on the longer block: the same as \<open>x\<close>, unless \<open>x\<close> read behind the shorter one.\<close>

definition stable :: "'a io \<Rightarrow> 'a io \<Rightarrow> bool" where
  "stable x y \<longleftrightarrow> snd x = Inl Read_OOB \<or> y = x"

lemma stable_refl: "stable x x"
  by (simp add: stable_def)

lemma stable_bind:
  assumes "stable x y" and "\<And>a. snd x = Inr a \<Longrightarrow> stable (f a) (g a)"
  shows "stable (io_bind x f) (io_bind y g)"
proof (cases "snd x")
  case (Inl e)
  then show ?thesis using assms(1) by (auto simp: stable_def io_bind_def)
next
  case (Inr a)
  then have "y = x" using assms(1) by (simp add: stable_def)
  then show ?thesis using Inr assms(2) [OF Inr] by (auto simp: stable_def io_bind_def)
qed

lemma stable_cases:
  "(c \<Longrightarrow> stable x x') \<Longrightarrow> (\<not> c \<Longrightarrow> stable y y') \<Longrightarrow> stable (if c then x else y) (if c then x' else y')"
  "(v = None \<Longrightarrow> stable x x') \<Longrightarrow> (\<And>a. v = Some a \<Longrightarrow> stable (f a) (f' a)) \<Longrightarrow>
    stable (case v of None \<Rightarrow> x | Some a \<Rightarrow> f a) (case v of None \<Rightarrow> x' | Some a \<Rightarrow> f' a)"
  "(\<And>a b. p = (a, b) \<Longrightarrow> stable (g a b) (g' a b)) \<Longrightarrow>
    stable (case p of (a, b) \<Rightarrow> g a b) (case p of (a, b) \<Rightarrow> g' a b)"
  by (auto split: option.split prod.split)

lemma stable_each: "(\<And>x. stable (f x) (g x)) \<Longrightarrow> stable (io_each f xs) (io_each g xs)"
  by (induction xs) (auto intro: stable_refl stable_bind)

lemma stable_load: "stable (load n m a) (load n (m @ m') a)"
  by (simp add: stable_def load_def)

lemma stable_load_str: "stable (load_str m a) (load_str (m @ m') a)"
proof (cases "0 \<in> set (drop a m)")
  case True
  then have "takeWhile (\<lambda>b. b \<noteq> 0) (drop a m @ drop (a - length m) m') = takeWhile (\<lambda>b. b \<noteq> 0) (drop a m)"
    by (intro takeWhile_append1) auto
  with True show ?thesis by (simp add: stable_def load_str_def)
qed (simp add: stable_def load_str_def)

lemma stable_loads:
  "stable (load8 m a) (load8 (m @ m') a)" "stable (load16 m a) (load16 (m @ m') a)"
  "stable (load32 m a) (load32 (m @ m') a)" "stable (load64 m a) (load64 (m @ m') a)"
  unfolding load8_def load16_def load32_def load64_def
  by (intro stable_bind stable_load stable_refl)+

lemmas stable_rules = stable_refl stable_loads stable_load stable_load_str stable_each stable_cases stable_bind

section \<open>The routines\<close>

lemma stable_lines:
  "stable (hexdump_line fp m a n row) (hexdump_line fp (m @ m') a n row)"
  "stable (carrydump_line fp m a n row) (carrydump_line fp (m @ m') a n row)"
  unfolding hexdump_line_def carrydump_line_def hex_cell_def char_cell_def carry_cell_def
  by (intro stable_rules)+

lemma stable_hexdump: "stable (hexdump fp m a n) (hexdump fp (m @ m') a n)"
proof -
  have "stable (hexdump_loop fp m a n row) (hexdump_loop fp (m @ m') a n row)" for a n row
    by (induction fp m a n row rule: hexdump_loop.induct)
      (subst (1 2) hexdump_loop.simps, simp only: Let_def, intro stable_rules stable_lines; simp)
  then show ?thesis by (simp add: hexdump_def)
qed

lemma stable_carrydump: "stable (carrydump fp c m a n) (carrydump fp c (m @ m') a n)"
proof -
  have "stable (carrydump_loop fp m a n row) (carrydump_loop fp (m @ m') a n row)" for a n row
    by (induction fp m a n row rule: carrydump_loop.induct)
      (subst (1 2) carrydump_loop.simps, simp only: Let_def, intro stable_rules stable_lines; simp)
  then show ?thesis unfolding carrydump_def by (intro stable_rules)
qed

lemma stable_rtattr:
  "stable (rtattr_type m a) (rtattr_type (m @ m') a)" "stable (rtattr_len m a) (rtattr_len (m @ m') a)"
  "stable (rtattr_payload_len m a) (rtattr_payload_len (m @ m') a)" "stable (rtattr_next m a n) (rtattr_next (m @ m') a n)"
  unfolding rtattr_type_def rtattr_len_def rtattr_payload_len_def rtattr_next_def Let_def
  by (intro stable_rules)+

lemma stable_readers:
  "stable (rtattr_read_16bit m a) (rtattr_read_16bit (m @ m') a)"
  "stable (rtattr_read_64bit m a) (rtattr_read_64bit (m @ m') a)"
  "stable (rtattr_read_str m a b n) (rtattr_read_str (m @ m') a b n)"
  unfolding rtattr_read_16bit_def rtattr_read_64bit_def rtattr_read_str_def read_miss_def
  by (intro stable_rules stable_rtattr)+

lemma stable_vlan_loop: "stable (vlan_loop U m a n v) (vlan_loop U (m @ m') a n v)"
proof (induction U m a n v rule: vlan_loop.induct)
  case (1 U m a n v)
  have "stable (vlan_switch U m a v) (vlan_switch U (m @ m') a v)"
    unfolding vlan_switch_def by (intro stable_rules stable_rtattr stable_readers)
  then show ?case
    by (subst (1 2) vlan_loop.simps, intro stable_bind stable_cases stable_rtattr stable_refl 1; simp)
qed

lemma stable_linkinfo:
  "stable (rta_to_str_IFLA_LINKINFO U m a str n) (rta_to_str_IFLA_LINKINFO U (m @ m') a str n)"
  unfolding rta_to_str_IFLA_LINKINFO_def Let_def
  by (intro stable_rules stable_rtattr stable_readers stable_vlan_loop stable_carrydump)

lemma stable_hex_cat_loop: "stable (hex_cat_loop sep k m a n i d) (hex_cat_loop sep k (m @ m') a n i d)"
  by (induction sep k m a n i d rule: hex_cat_loop.induct)
    (subst (1 2) hex_cat_loop.simps, intro stable_rules; simp)

lemma stable_load_fields: "stable (load_fields w m a k) (load_fields w (m @ m') a k)"
  by (induction k arbitrary: a) (simp_all add: stable_rules)

lemma stable_rta_to_str: "stable (rta_to_str U m a str n) (rta_to_str U (m @ m') a str n)"
  unfolding rta_to_str_def rta_to_str_IFLA_AF_SPEC_def Let_def
  by (intro stable_rules stable_linkinfo stable_hex_cat_loop stable_load_fields stable_hexdump)

lemma stable_attr_loop:
  assumes "uapi_macros_ok U"
  shows "stable (attr_loop U m sz a n i) (attr_loop U (m @ m') sz a n i)"
  using assms
proof (induction U m sz a n i rule: attr_loop.induct)
  case (1 U m sz a n i)
  have ok: "stable (rta_ok U (rta_len m a) n) (rta_ok U (rta_len (m @ m') a) n)"
    unfolding rta_ok_doc [OF 1(2)] by (intro stable_rules)
  show ?case
    by (subst (1 2) attr_loop.simps, intro stable_rules ok stable_rta_to_str)
      (use 1 in auto)
qed

lemma stable_msg_dumps:
  assumes "uapi_macros_ok U"
  shows "stable (netlink_link_msg_dump U m h) (netlink_link_msg_dump U (m @ m') h)"
    "stable (netlink_addr_msg_dump U ifname m h) (netlink_addr_msg_dump U ifname (m @ m') h)"
    "stable (netlink_route_msg_dump U m h) (netlink_route_msg_dump U (m @ m') h)"
    "stable (netlink_neigh_msg_dump U m h) (netlink_neigh_msg_dump U (m @ m') h)"
  unfolding netlink_link_msg_dump_def netlink_addr_msg_dump_def netlink_route_msg_dump_def
    netlink_neigh_msg_dump_def Let_def
  by (intro stable_rules stable_attr_loop [OF assms])+

lemma stable_netlink_msg_dump:
  "uapi_macros_ok U \<Longrightarrow> stable (netlink_msg_dump U ifname m h) (netlink_msg_dump U ifname (m @ m') h)"
  unfolding netlink_msg_dump_def
  by (intro stable_rules stable_hexdump stable_msg_dumps)

section \<open>Which dumps stay within\<close>

text \<open>
  The dump of a link message never does. Its attribute loop is started with the count of an address
  message, 8 bytes too many: behind the last attribute it reads on, and on a block that ends with the
  message it leaves the block.
\<close>

theorem link_dump_leaves_message:
  assumes "uapi_macros_ok U" and "nlmsg_len m h = ret L" and "unat L = 32 + attrs_size xs"
    and "attrs_at m (h + 32) xs" and "length m = h + unat L"
  shows "attr_loop U m 1000 (ifla_rta U (h + 16)) (ifa_payload U L) 0 =
    io_seq (dump_attrs U m 1000 (h + 32) 0 xs) (stop Read_OOB)"
proof -
  have u: "unat (ifa_payload U L) = attrs_size xs + 8"
    using uapi_macros_okD(4) [OF assms(1), of L] assms(3) by simp
  have n: "ifa_payload U L = of_nat (attrs_size xs + 8)" by (simp flip: u)
  have "attrs_size xs + 8 < 2 ^ 64" using unat_word_less [of L] assms(3) by simp
  moreover have "attr_loop U m 1000 (h + 32 + attrs_size xs) 8 (length xs) = stop Read_OOB"
    using assms(3,5) by (subst attr_loop.simps) (simp add: rta_ok_doc [OF assms(1)] load16_def load_def)
  ultimately show ?thesis
    using attr_loop_attrs [OF assms(1,4), of 8 1000 0] uapi_macros_okD(5) [OF assms(1), of "h + 16"]
    by (simp add: n add.commute [of 32 h])
qed

theorem link_dump_leaves_message_witness:
  "attr_loop linux_uapi (take 32 (example_link 0 0)) 1000 32 (ifa_payload linux_uapi 32) 0 = stop Read_OOB"
proof -
  have "nlmsg_len (take 32 (example_link 0 0)) 0 = ret 32" by (simp add: load_word_eval example_link_def)
  from link_dump_leaves_message [OF linux_uapi_macros_ok this, of "[]"] show ?thesis
    by (simp add: example_link_def)
qed

end
