(* ===== verification/Dump_Shift.thy ===== *)
theory Dump_Shift
  imports Dump_Local
begin

text \<open>
  Where a message lies does not matter. The programs reach a message only by adding to its address, so
  its dump is the same wherever it lies in the memory; only the one pointer that is printed, that of an
  attribute of a VLAN which is skipped, tells the place. As for the bytes behind a message this is one
  relation on effects, carried through every routine that reads memory.
\<close>

section \<open>Runs on a block and on one with bytes before it\<close>

text \<open>The same run \<open>k\<close> bytes further on: what is printed of a pointer is \<open>k\<close> more.\<close>

fun event_at :: "nat \<Rightarrow> event \<Rightarrow> event" where
  "event_at k (Put s t) = Put s t"
| "event_at k (Put_ptr s p) = Put_ptr s (k + p)"

definition io_at :: "nat \<Rightarrow> 'a io \<Rightarrow> 'a io" where
  "io_at k x = (map (event_at k) (fst x), snd x)"

lemma io_at_text: "text_on s (fst (io_at k x)) = text_on s (fst x)"
proof -
  have "event_text s (event_at k e) = event_text s e" for e by (cases e) simp_all
  then show ?thesis by (simp add: io_at_def text_on_def comp_def)
qed

lemma io_at_0 [simp]: "io_at 0 x = x"
proof -
  have "event_at 0 e = e" for e by (cases e) simp_all
  then have "event_at 0 = id" by (simp add: fun_eq_iff)
  then show ?thesis by (simp add: io_at_def)
qed

definition further :: "nat \<Rightarrow> 'a io \<Rightarrow> 'a io \<Rightarrow> bool" where
  "further k x y \<longleftrightarrow> y = io_at k x"

lemma further_basic:
  "further k (ret a) (ret a)" "further k (stop e) (stop e)" "further k (put s t) (put s t)"
  "further k (line t) (line t)" "further k (io_assert c) (io_assert c)"
  by (simp_all add: further_def io_at_def ret_def stop_def put_def line_def io_assert_def)

lemma further_bind:
  assumes "further k x y" and "\<And>a. snd x = Inr a \<Longrightarrow> further k (f a) (g a)"
  shows "further k (io_bind x f) (io_bind y g)"
  using assms by (cases "snd x") (auto simp: further_def io_at_def io_bind_def)

lemma further_cases:
  "(c \<Longrightarrow> further k x x') \<Longrightarrow> (\<not> c \<Longrightarrow> further k y y') \<Longrightarrow> further k (if c then x else y) (if c then x' else y')"
  "(v = None \<Longrightarrow> further k x x') \<Longrightarrow> (\<And>a. v = Some a \<Longrightarrow> further k (f a) (f' a)) \<Longrightarrow>
    further k (case v of None \<Rightarrow> x | Some a \<Rightarrow> f a) (case v of None \<Rightarrow> x' | Some a \<Rightarrow> f' a)"
  "(\<And>a b. p = (a, b) \<Longrightarrow> further k (g a b) (g' a b)) \<Longrightarrow>
    further k (case p of (a, b) \<Rightarrow> g a b) (case p of (a, b) \<Rightarrow> g' a b)"
  by (auto split: option.split prod.split)

lemma further_each: "(\<And>x. further k (f x) (g x)) \<Longrightarrow> further k (io_each f xs) (io_each g xs)"
  by (induction xs) (auto intro: further_basic further_bind)

lemma further_ptr: "b = k + a \<Longrightarrow> further k (put_ptr s a) (put_ptr s b)"
  by (simp add: further_def io_at_def put_ptr_def)

lemma further_arrays:
  "further k (c_memset0 d n) (c_memset0 d n)" "further k (c_snprintf d n s) (c_snprintf d n s)"
  "further k (c_strncat d s n) (c_strncat d s n)" "further k (fstr_at fs i) (fstr_at fs i)"
  by (simp_all add: further_basic c_memset0_def c_snprintf_def c_strncat_def fstr_at_def Let_def)

lemma further_load: "b = length pre + a \<Longrightarrow> further k (load n m a) (load n (pre @ m) b)"
  by (simp add: further_def io_at_def load_def ret_def stop_def)

lemma further_load_str: "b = length pre + a \<Longrightarrow> further k (load_str m a) (load_str (pre @ m) b)"
  by (simp add: further_def io_at_def load_str_def ret_def stop_def)

lemma further_loads:
  assumes "b = length pre + a"
  shows "further k (load8 m a) (load8 (pre @ m) b)" "further k (load16 m a) (load16 (pre @ m) b)"
    "further k (load32 m a) (load32 (pre @ m) b)" "further k (load64 m a) (load64 (pre @ m) b)"
  unfolding load8_def load16_def load32_def load64_def
  by (intro further_bind further_load further_basic assms)+

lemmas further_rules = further_basic further_ptr further_arrays further_loads further_load further_load_str
  further_each further_cases further_bind

section \<open>The routines\<close>

lemma further_lines:
  assumes "b = length pre + a"
  shows "further k (hexdump_line fp m a n row) (hexdump_line fp (pre @ m) b n row)"
    "further k (carrydump_line fp m a n row) (carrydump_line fp (pre @ m) b n row)"
  unfolding hexdump_line_def carrydump_line_def hex_cell_def char_cell_def carry_cell_def
  by (intro further_rules; simp add: assms)+

lemma further_hexdump:
  assumes "b = length pre + a"
  shows "further k (hexdump fp m a n) (hexdump fp (pre @ m) b n)"
proof -
  have "b = length pre + a \<Longrightarrow> further k (hexdump_loop fp m a n row) (hexdump_loop fp (pre @ m) b n row)" for a n row b
    by (induction fp m a n row arbitrary: b rule: hexdump_loop.induct)
      (subst (1 2) hexdump_loop.simps, simp only: Let_def, intro further_rules further_lines; simp add: add.assoc split del: if_split)
  with assms show ?thesis by (simp add: hexdump_def)
qed

lemma further_carrydump:
  assumes "b = length pre + a"
  shows "further k (carrydump fp c m a n) (carrydump fp c (pre @ m) b n)"
proof -
  have "b = length pre + a \<Longrightarrow> further k (carrydump_loop fp m a n row) (carrydump_loop fp (pre @ m) b n row)" for a n row b
    by (induction fp m a n row arbitrary: b rule: carrydump_loop.induct)
      (subst (1 2) carrydump_loop.simps, simp only: Let_def, intro further_rules further_lines; simp add: add.assoc split del: if_split)
  with assms show ?thesis unfolding carrydump_def by (intro further_rules)
qed

lemma further_flags:
  "further k (ifi_flags_to_str f d n) (ifi_flags_to_str f d n)"
  "further k (nlmsg_flags_to_str_get f d n) (nlmsg_flags_to_str_get f d n)"
  "further k (nlmsg_flags_to_str_new f d n) (nlmsg_flags_to_str_new f d n)"
proof -
  have "further k (flags_loop field f fs n is first d) (flags_loop field f fs n is first d)" for field f fs n "is" first d
    by (induction field f fs n "is" first d rule: flags_loop.induct) (simp only: flags_loop.simps, intro further_rules; simp)+
  then show "further k (ifi_flags_to_str f d n) (ifi_flags_to_str f d n)"
    "further k (nlmsg_flags_to_str_get f d n) (nlmsg_flags_to_str_get f d n)"
    "further k (nlmsg_flags_to_str_new f d n) (nlmsg_flags_to_str_new f d n)"
    unfolding ifi_flags_to_str_def nlmsg_flags_to_str_get_def nlmsg_flags_to_str_new_def snprintflags_long_def
      snprintflags_def Let_def
    by (intro further_rules; simp)+
qed

lemma further_names:
  "further k (nlmsg_type_to_str U t) (nlmsg_type_to_str U t)" "further k (rta_type_to_str U t) (rta_type_to_str U t)"
  "further k (ifa_family_to_str U f) (ifa_family_to_str U f)" "further k (rtn_type_to_str U r) (rtn_type_to_str U r)"
  unfolding nlmsg_type_to_str_def rta_type_to_str_def ifa_family_to_str_def rtn_type_to_str_def
  by (intro further_rules)+

lemma further_rtattr:
  assumes "b = length pre + a"
  shows "further k (rtattr_type m a) (rtattr_type (pre @ m) b)" "further k (rtattr_len m a) (rtattr_len (pre @ m) b)"
    "further k (rtattr_payload_len m a) (rtattr_payload_len (pre @ m) b)"
  unfolding rtattr_type_def rtattr_len_def rtattr_payload_len_def
  by (intro further_rules; simp add: assms)+

text \<open>The next attribute is as much further on as this one.\<close>

lemma further_next:
  assumes "b = length pre + a"
    and "\<And>r n'. snd (rtattr_next m a n) = Inr (r, n') \<Longrightarrow> further k (f r n') (g (map_option ((+) (length pre)) r) n')"
  shows "further k (io_bind (rtattr_next m a n) (\<lambda>(r, n'). f r n')) (io_bind (rtattr_next (pre @ m) b n) (\<lambda>(r, n'). g r n'))"
proof -
  have l: "rta_len (pre @ m) b = rta_len m a" by (simp add: assms(1) load16_def load_def)
  have b: "io_bind (rtattr_next (pre @ m) b n) (\<lambda>(r, n'). g r n') =
      io_bind (rtattr_next m a n) (\<lambda>(r, n'). g (map_option ((+) (length pre)) r) n')"
    unfolding rtattr_next_def rtattr_len_def l Let_def io_bind_assoc io_bind_ret
    by (rule io_bind_cong [OF refl]) (auto simp: assms(1) add.assoc)
  have "further k (rtattr_next m a n) (rtattr_next m a n)"
    unfolding rtattr_next_def rtattr_len_def Let_def
    by (simp add: load16_def load_def further_basic)
  then show ?thesis unfolding b using assms(2) by (intro further_bind) auto
qed

lemma further_option:
  "(r = None \<Longrightarrow> further k x x') \<Longrightarrow> (\<And>a. r = Some a \<Longrightarrow> further k (f a) (f' (h a))) \<Longrightarrow>
   further k (case r of None \<Rightarrow> x | Some a \<Rightarrow> f a) (case map_option h r of None \<Rightarrow> x' | Some a \<Rightarrow> f' a)"
  by (cases r) simp_all

lemma further_readers:
  assumes "b = length pre + a"
  shows "further k (rtattr_read_16bit m a) (rtattr_read_16bit (pre @ m) b)"
    "further k (rtattr_read_64bit m a) (rtattr_read_64bit (pre @ m) b)"
    "further k (rtattr_read_str m a d n) (rtattr_read_str (pre @ m) b d n)"
  unfolding rtattr_read_16bit_def rtattr_read_64bit_def rtattr_read_str_def read_miss_def rtattr_payload_ptr_def
  by (intro further_rtattr further_rules; simp add: assms)+

lemma further_vlan_loop:
  "b = length pre + a \<Longrightarrow> further (length pre) (vlan_loop U m a n v) (vlan_loop U (pre @ m) b n v)"
proof (induction U m a n v arbitrary: b rule: vlan_loop.induct)
  case (1 U m a n v)
  have s: "further (length pre) (vlan_switch U m a v) (vlan_switch U (pre @ m) b v)"
    unfolding vlan_switch_def by (intro further_rtattr further_readers further_rules; simp add: 1(2))
  show ?case
  proof (subst (1 2) vlan_loop.simps, intro further_bind [OF s] further_next [OF 1(2)] further_option further_cases further_basic)
    fix v' r n' a'
    assume "snd (vlan_switch U m a v) = Inr v'" and "snd (rtattr_next m a n) = Inr (r, n')" and "r = Some a'" and "\<not> sint n' \<le> 0"
    with 1(1) show "further (length pre) (vlan_loop U m a' n' v') (vlan_loop U (pre @ m) (length pre + a') n' v')" by simp
  qed
qed

lemma further_linkinfo:
  assumes "b = length pre + a"
  shows "further (length pre) (rta_to_str_IFLA_LINKINFO U m a str n) (rta_to_str_IFLA_LINKINFO U (pre @ m) b str n)"
  unfolding rta_to_str_IFLA_LINKINFO_def Let_def rtattr_nest_next_def rtattr_payload_ptr_def
  by (intro further_next further_option further_rtattr further_readers further_carrydump further_vlan_loop further_rules; simp add: assms add.assoc)

lemma further_hex_cat_loop:
  "b = length pre + a \<Longrightarrow> further k (hex_cat_loop sep sz m a n i d) (hex_cat_loop sep sz (pre @ m) b n i d)"
  by (induction sep sz m a n i d rule: hex_cat_loop.induct)
    (subst (1 2) hex_cat_loop.simps, intro further_rules; simp)

lemma further_load_fields: "b = length pre + a \<Longrightarrow> further k (load_fields w m a n) (load_fields w (pre @ m) b n)"
  by (induction n arbitrary: a b) (simp_all only: load_fields.simps, (intro further_rules; simp add: add.assoc)+)

lemma further_rta_to_str:
  assumes "b = length pre + a"
  shows "further (length pre) (rta_to_str U m a str n) (rta_to_str U (pre @ m) b str n)"
  unfolding rta_to_str_def rta_to_str_IFLA_AF_SPEC_def Let_def
  by (intro further_linkinfo further_hex_cat_loop further_load_fields further_hexdump further_names further_rules;
      simp add: assms add.assoc)

lemma further_attr_loop:
  assumes "uapi_macros_ok U" and "b = length pre + a"
  shows "further (length pre) (attr_loop U m sz a n i) (attr_loop U (pre @ m) sz b n i)"
  using assms
proof (induction U m sz a n i arbitrary: b rule: attr_loop.induct)
  case (1 U m sz a n i)
  have ok: "further (length pre) (rta_ok U (rta_len m a) n) (rta_ok U (rta_len (pre @ m) b) n)"
    unfolding rta_ok_doc [OF 1(2)] by (intro further_rules; simp add: 1(3))
  show ?case
    by (subst (1 2) attr_loop.simps, intro further_bind [OF ok] further_rta_to_str further_rules)
      (use 1 in \<open>auto simp: add.assoc\<close>)
qed

lemma further_msg_dumps:
  assumes "uapi_macros_ok U" and "b = length pre + h"
  shows "further (length pre) (netlink_link_msg_dump U m h) (netlink_link_msg_dump U (pre @ m) b)"
    "further (length pre) (netlink_addr_msg_dump U ifname m h) (netlink_addr_msg_dump U ifname (pre @ m) b)"
    "further (length pre) (netlink_route_msg_dump U m h) (netlink_route_msg_dump U (pre @ m) b)"
    "further (length pre) (netlink_neigh_msg_dump U m h) (netlink_neigh_msg_dump U (pre @ m) b)"
  unfolding netlink_link_msg_dump_def netlink_addr_msg_dump_def netlink_route_msg_dump_def
    netlink_neigh_msg_dump_def Let_def uapi_macros_okD(5-7) [OF assms(1)] ndm_rta_def
  by (intro further_attr_loop [OF assms(1)] further_names further_flags further_rules; simp add: assms(2) add.assoc)+

text \<open>The dump of a message is the same \<open>length pre\<close> bytes further on.\<close>

lemma further_netlink_msg_dump:
  assumes "uapi_macros_ok U" and "b = length pre + h"
  shows "further (length pre) (netlink_msg_dump U ifname m h) (netlink_msg_dump U ifname (pre @ m) b)"
  unfolding netlink_msg_dump_def
  by (intro further_hexdump further_msg_dumps [OF assms(1)] further_names further_flags further_rules; simp add: assms(2) add.assoc)

section \<open>The bytes of a message\<close>

text \<open>
  A dump that stays within the bytes of its message is determined by them, wherever they lie and
  whatever is before and behind them.
\<close>

lemma dump_own_bytes:
  assumes "uapi_macros_ok U" and "snd (netlink_msg_dump U ifname own 0) \<noteq> Inl Read_OOB"
  shows "netlink_msg_dump U ifname (pre @ own @ post) (length pre) = io_at (length pre) (netlink_msg_dump U ifname own 0)"
proof -
  have "netlink_msg_dump U ifname (own @ post) 0 = netlink_msg_dump U ifname own 0"
    using stable_netlink_msg_dump [OF assms(1), of ifname own 0 post] assms(2) by (auto simp: stable_def)
  then show ?thesis
    using further_netlink_msg_dump [OF assms(1), of "length pre" pre 0 ifname "own @ post"] by (simp add: further_def)
qed

end
