(* ===== verification/Monitor_Run.thy ===== *)
theory Monitor_Run
  imports Monitor Dump_Shift
begin

text \<open>
  What the monitor is for, as a specification over the messages of all datagrams, and that the program
  meets it: opening the socket, the receive loop, the loop over the messages of a datagram and the dump
  of one message work together. \<open>yalin/test/monitor.c\<close> is the same program.
\<close>

section \<open>The code: the test program\<close>

definition test_monitor :: "uapi \<Rightarrow> (u32 \<Rightarrow> string option) \<Rightarrow> answers \<Rightarrow> mem \<Rightarrow> recv list \<Rightarrow> sys \<Rightarrow> (outcome \<times> sys) io" where
  "test_monitor U ifname A buf script S =
     (let groups = NOT (0 :: u32); proto = NETLINK_ROUTE in
      io_bind (netlink_open A groups proto S) (\<lambda>(nl, S).
        case nl of
          None \<Rightarrow> ret (Returned 1, S)
        | Some nl \<Rightarrow>
            io_bind (netlink_listen U (\<lambda>m n. io_seq (netlink_msg_dump U ifname m n) (ret 0)) buf script) (\<lambda>out.
              case out of
                Blocked \<Rightarrow> ret (Blocked, S)
              | Returned r \<Rightarrow>
                  if r < 0 then ret (Returned 1, S)
                  else ret (Returned 0, netlink_close nl S))))"

lemma test_monitor_eq: "test_monitor U ifname A buf script S = main U ifname A buf script S"
  unfolding test_monitor_def main_def Let_def dump_msg_def [abs_def] ..

section \<open>The specification\<close>

text \<open>
  A delivery is what \<open>recvmsg\<close> gave with the lengths of the messages in it: an interruption, or a
  datagram that is filled with well-formed messages. What is left behind them (less than a header) is
  accepted if the datagram was truncated.
\<close>

definition interruption :: "recv \<Rightarrow> bool" where
  "interruption r \<longleftrightarrow> sint (status r) < 0 \<and> retry r"

definition datagram :: "recv \<Rightarrow> u32 list \<Rightarrow> bool" where
  "datagram r Ls \<longleftrightarrow> unat (status r) = length (bytes r) \<and> length (bytes r) < 2 ^ 31 \<and> bytes r \<noteq> [] \<and>
     msgs_at (bytes r) 0 Ls \<and> msgs_size Ls \<le> length (bytes r) \<and> length (bytes r) < msgs_size Ls + 16 \<and>
     (length (bytes r) = msgs_size Ls \<or> truncated r)"

definition delivery :: "recv \<times> u32 list \<Rightarrow> bool" where
  "delivery d \<longleftrightarrow> interruption (fst d) \<or> datagram (fst d) (snd d)"

definition received :: "mem \<Rightarrow> recv \<Rightarrow> mem" where
  "received buf r = (if interruption r then buf else bytes r @ drop (length (bytes r)) buf)"

text \<open>
  The buffer after some deliveries, and where every message of all of them is when its turn comes.
\<close>

fun buf_after :: "mem \<Rightarrow> (recv \<times> u32 list) list \<Rightarrow> mem" where
  "buf_after buf [] = buf"
| "buf_after buf ((r, Ls) # ds) = buf_after (received buf r) ds"

fun msg_offsets :: "nat \<Rightarrow> u32 list \<Rightarrow> nat list" where
  "msg_offsets h [] = []"
| "msg_offsets h (L # Ls) = h # msg_offsets (h + round_up4 (unat L)) Ls"

fun messages :: "mem \<Rightarrow> (recv \<times> u32 list) list \<Rightarrow> (mem \<times> nat) list" where
  "messages buf [] = []"
| "messages buf ((r, Ls) # ds) =
     (if interruption r then [] else map (Pair (received buf r)) (msg_offsets 0 Ls)) @ messages (received buf r) ds"

definition serve :: "handler \<Rightarrow> mem \<times> nat \<Rightarrow> unit io" where
  "serve handler mh = io_bind (handler (fst mh) (snd mh)) (\<lambda>_. ret ())"

lemma handle_all_each: "handle_all handler m h Ls = io_each (serve handler) (map (Pair m) (msg_offsets h Ls))"
  by (induction Ls arbitrary: h) (simp_all add: serve_def)

lemma length_messages:
  "length (messages buf ds) = sum_list (map (\<lambda>(r, Ls). if interruption r then 0 else length Ls) ds)"
proof (induction ds arbitrary: buf)
  case (Cons d ds)
  have "length (msg_offsets h Ls) = length Ls" for h Ls by (induction Ls arbitrary: h) simp_all
  then show ?case by (cases d) (simp add: Cons.IH)
qed simp

section \<open>The receive loop meets it\<close>

lemma msgs_at_append: "msgs_at m h Ls \<Longrightarrow> msgs_at (m @ m') h Ls"
  by (induction Ls arbitrary: h) (auto simp: load32_def load_def split: if_splits)

lemma datagram_not_interruption: "datagram r Ls \<Longrightarrow> \<not> interruption r"
proof
  assume "datagram r Ls" "interruption r"
  then have u: "unat (status r) < 2 ^ 31" and n: "sint (status r) < 0"
    by (simp_all add: datagram_def interruption_def)
  have "sint (of_nat (unat (status r)) :: u32) = int (unat (status r))" by (rule sint32_of_nat [OF u])
  with n show False by simp
qed

context msg_handler
begin

lemma listen_interruption: "interruption r \<Longrightarrow> netlink_listen U handler buf (r # rs) = netlink_listen U handler buf rs"
  by (simp add: interruption_def)

lemma listen_delivery:
  assumes "uapi_macros_ok U" and "delivery (r, Ls)"
  shows "netlink_listen U handler buf (r # rs) =
    io_seq (if interruption r then ret () else handle_all handler (received buf r) 0 Ls)
      (netlink_listen U handler (received buf r) rs)"
proof (cases "interruption r")
  case True
  then show ?thesis by (simp add: listen_interruption received_def del: netlink_listen.simps)
next
  case False
  with assms(2) have d: "datagram r Ls" by (simp add: delivery_def)
  define k where "k = length (bytes r) - msgs_size Ls"
  have k: "length (bytes r) = msgs_size Ls + k" "k < 16" "k = 0 \<or> truncated r"
    using d by (auto simp: datagram_def k_def)
  have "msgs_at (bytes r @ drop (length (bytes r)) buf) 0 Ls"
    using d by (simp add: datagram_def msgs_at_append)
  then show ?thesis
    using listen_datagram [OF assms(1) _ _ k(1,2)] d k(3) False by (simp add: datagram_def received_def)
qed

lemma listen_deliveries:
  assumes "uapi_macros_ok U"
  shows "list_all delivery ds \<Longrightarrow> netlink_listen U handler buf (map fst ds @ rs) =
    io_seq (io_each (serve handler) (messages buf ds)) (netlink_listen U handler (buf_after buf ds) rs)"
proof (induction ds arbitrary: buf)
  case (Cons d ds)
  obtain r Ls where d: "d = (r, Ls)" by (cases d)
  with Cons show ?case
    using listen_delivery [OF assms, of r Ls buf "map fst ds @ rs"]
    by (simp add: handle_all_each io_each_append del: netlink_listen.simps)
qed simp

end

lemma main_opened:
  assumes "netlink_open A (NOT 0) NETLINK_ROUTE S = ret (Some nl, S')"
  shows "main U ifname A buf rs S =
    io_bind (netlink_listen U (dump_msg U ifname) buf rs) (\<lambda>out.
      case out of Blocked \<Rightarrow> ret (Blocked, S') | Returned r \<Rightarrow> if r < 0 then ret (Returned 1, S')
        else ret (Returned 0, netlink_close nl S'))"
  by (simp only: main_def assms io_bind_ret prod.case option.case)

lemma serve_dump: "serve (dump_msg U ifname) = (\<lambda>(m, n). netlink_msg_dump U ifname m n)"
  by (rule ext) (simp add: serve_def dump_msg_def case_prod_unfold)

section \<open>Properties\<close>

text \<open>
  C7: once the socket is open, the monitor dumps every message of every datagram once, in the order
  they arrived, goes on after an interruption, and after any number of deliveries is where it started,
  with the buffer they left; when nothing else arrives it is blocked with the socket open.
\<close>

theorem monitor_dumps_all:
  assumes "uapi_macros_ok U" and "netlink_open A (NOT 0) NETLINK_ROUTE S = ret (Some nl, S')" and "list_all delivery ds"
  shows "main U ifname A buf (map fst ds @ rs) S =
      io_seq (io_each (\<lambda>(m, n). netlink_msg_dump U ifname m n) (messages buf ds))
        (main U ifname A (buf_after buf ds) rs S) \<and>
    main U ifname A buf [] S = ret (Blocked, S')"
  using msg_handler.listen_deliveries [OF dump_msg_handler [OF assms(1)] assms(1,3), of ifname buf rs]
  by (simp add: main_opened [OF assms(2)] serve_dump del: netlink_listen.simps(2))

definition sample_delivery :: "(recv \<times> u32 list) list" where
  "sample_delivery =
     [(\<lparr>status = 0xffffffff, retry = True, bytes = [], truncated = False\<rparr>, []),
      (\<lparr>status = 16, retry = False, bytes = 16 # replicate 15 0, truncated = False\<rparr>, [16])]"

lemma sample_delivered: "list_all delivery sample_delivery"
  and sample_opened: "netlink_open good_answers (NOT 0) NETLINK_ROUTE \<lparr>open_fds = [], blocks = 0\<rparr> =
      ret (Some \<lparr>nl_fd = 3, nl_proto = NETLINK_ROUTE, nl_groups = NOT 0\<rparr>, \<lparr>open_fds = [3], blocks = 1\<rparr>)"
proof -
  have "load32 (16 # replicate 15 0) 0 = ret 16" by (simp add: load_word_eval)
  then show "list_all delivery sample_delivery"
    by (simp add: sample_delivery_def delivery_def interruption_def datagram_def round_up4_def)
qed (simp add: netlink_open_def good_answers_def)

theorem monitor_dumps_all_witness:
  "main linux_uapi (\<lambda>_. None) good_answers [] (map fst sample_delivery) \<lparr>open_fds = [], blocks = 0\<rparr> =
     io_seq (netlink_msg_dump linux_uapi (\<lambda>_. None) (16 # replicate 15 0) 0)
       (ret (Blocked, \<lparr>open_fds = [3], blocks = 1\<rparr>))"
proof -
  have m: "messages [] sample_delivery = [(16 # replicate 15 0, 0)]"
    by (simp add: sample_delivery_def interruption_def received_def)
  show ?thesis
    using monitor_dumps_all [OF linux_uapi_macros_ok sample_opened sample_delivered, of "\<lambda>_. None" "[]" "[]"]
      monitor_dumps_all [OF linux_uapi_macros_ok sample_opened sample_delivered, of "\<lambda>_. None" "buf_after [] sample_delivery" "[]"]
    by (simp add: m)
qed

text \<open>
  The messages of a delivery: where each begins, and the bytes that are its own, \<open>nlmsg_len\<close> of them from
  there on.
\<close>

definition own_messages :: "recv \<times> u32 list \<Rightarrow> (nat \<times> mem) list" where
  "own_messages d =
     (if interruption (fst d) then []
      else map (\<lambda>(h, L). (h, take (unat L) (drop h (bytes (fst d))))) (zip (msg_offsets 0 (snd d)) (snd d)))"

definition within :: "uapi \<Rightarrow> (u32 \<Rightarrow> string option) \<Rightarrow> mem \<times> nat \<Rightarrow> bool" where
  "within U ifname mh \<longleftrightarrow> snd (netlink_msg_dump U ifname (fst mh) (snd mh)) \<noteq> Inl Read_OOB"

text \<open>What is printed of a message that begins at \<open>h\<close>, from its own bytes alone.\<close>

definition own_dump :: "uapi \<Rightarrow> (u32 \<Rightarrow> string option) \<Rightarrow> nat \<times> mem \<Rightarrow> unit io" where
  "own_dump U ifname ho = io_at (fst ho) (netlink_msg_dump U ifname (snd ho) 0)"

lemma msg_offsets_le: "msgs_at m k Ls \<Longrightarrow> h \<in> set (msg_offsets k Ls) \<Longrightarrow> h \<le> length m"
  by (induction Ls arbitrary: k) (auto simp: load32_def load_def split: if_splits)

lemma within_dump:
  assumes "uapi_macros_ok U" and "within U ifname (take n (drop h m), 0)" and "h \<le> length m"
  shows "netlink_msg_dump U ifname (m @ m') h = own_dump U ifname (h, take n (drop h m))"
proof -
  have e: "take h m @ take n (drop h m) @ drop n (drop h m) @ m' = m @ m'"
    by (metis append.assoc append_take_drop_id)
  have h: "length (take h m) = h" using assms(3) by simp
  from dump_own_bytes [OF assms(1), of ifname "take n (drop h m)" "take h m" "drop n (drop h m) @ m'"] assms(2)
  show ?thesis unfolding e h by (simp add: own_dump_def within_def)
qed

lemma io_each_cong: "list_all2 (\<lambda>x y. f x = g y) xs ys \<Longrightarrow> io_each f xs = io_each g ys"
  by (induction rule: list_all2_induct) simp_all

lemma length_msg_offsets [simp]: "length (msg_offsets h Ls) = length Ls"
  by (induction Ls arbitrary: h) simp_all

lemma messages_own:
  assumes "uapi_macros_ok U"
  shows "list_all delivery ds \<Longrightarrow> list_all (\<lambda>(h, own). within U ifname (own, 0)) (concat (map own_messages ds)) \<Longrightarrow>
    list_all2 (\<lambda>x y. (case x of (m, n) \<Rightarrow> netlink_msg_dump U ifname m n) = own_dump U ifname y)
      (messages buf ds) (concat (map own_messages ds))"
proof (induction ds arbitrary: buf)
  case (Cons d ds)
  obtain r Ls where d: "d = (r, Ls)" by (cases d)
  have "netlink_msg_dump U ifname (bytes r @ m') h = own_dump U ifname (h, take (unat L) (drop h (bytes r)))"
    if e: "(h, L) \<in> set (zip (msg_offsets 0 Ls) Ls)" and i: "\<not> interruption r" for h L m'
  proof (rule within_dump [OF assms])
    show "within U ifname (take (unat L) (drop h (bytes r)), 0)"
      using Cons.prems(2) e i by (force simp: d own_messages_def list_all_iff)
    have "msgs_at (bytes r) 0 Ls" using Cons.prems(1) i by (simp add: d delivery_def datagram_def)
    then show "h \<le> length (bytes r)" by (rule msg_offsets_le) (use e in \<open>auto dest: set_zip_leftD\<close>)
  qed
  then have "list_all2 (\<lambda>x y. (case x of (m, n) \<Rightarrow> netlink_msg_dump U ifname m n) = own_dump U ifname y)
      (if interruption r then [] else map (Pair (received buf r)) (msg_offsets 0 Ls)) (own_messages d)"
    by (auto simp: d own_messages_def received_def list_all2_conv_all_nth set_zip)
  with Cons show ?case by (simp add: d list_all2_appendI)
qed simp

text \<open>
  C9: what the monitor prints of a message that can be dumped from its own bytes depends on these bytes
  only: neither the messages before and behind it nor what earlier datagrams left in the buffer show in
  the output. Where the message lies shows only in the pointer that is printed for a VLAN attribute which
  is skipped.
\<close>

theorem monitor_prints_own_bytes:
  assumes "uapi_macros_ok U" and "netlink_open A (NOT 0) NETLINK_ROUTE S = ret (Some nl, S')" and "list_all delivery ds"
    and "list_all (\<lambda>(h, own). within U ifname (own, 0)) (concat (map own_messages ds))"
  shows "main U ifname A buf (map fst ds) S =
    io_seq (io_each (own_dump U ifname) (concat (map own_messages ds))) (ret (Blocked, S'))"
  using msg_handler.listen_deliveries [OF dump_msg_handler [OF assms(1)] assms(1,3), of ifname buf "[]"]
  by (simp add: main_opened [OF assms(2)] serve_dump io_each_cong [OF messages_own [OF assms(1,3,4)]])

lemma short_message_within: "within linux_uapi (\<lambda>_. None) (16 # replicate 15 0, 0)"
proof -
  let ?m = "16 # replicate 15 (0 :: u8)"
  have l: "load32 ?m 0 = ret 16" "load16 ?m 4 = ret 0" "load16 ?m 6 = ret 0" "load32 ?m 8 = ret 0" "load32 ?m 12 = ret 0"
    by (simp_all add: load_word_eval)
  have t: "\<not> any_label linux_uapi 0 [''RTM_NEWLINK'', ''RTM_DELLINK'', ''RTM_GETLINK'']"
    "\<not> any_label linux_uapi 0 [''RTM_NEWADDR'', ''RTM_DELADDR'', ''RTM_GETADDR'']"
    "\<not> any_label linux_uapi 0 [''RTM_NEWROUTE'', ''RTM_DELROUTE'', ''RTM_GETROUTE'']"
    "\<not> any_label linux_uapi 0 [''RTM_NEWNEIGH'', ''RTM_DELNEIGH'', ''RTM_GETNEIGH'']"
    by (simp_all add: any_label_def is_label_def linux_eval)
  have h: "snd (hexdump Std_err ?m 0 16) = Inr ()" by (simp add: hexdump_text(1))
  obtain s where s: "snd (nlmsg_type_to_str linux_uapi 0) = Inr s"
    by (cases "switch (uconst linux_uapi) nlmsg_type_cases 0") (simp_all add: nlmsg_type_to_str_def)
  have f: "flag_text ns 0 = []" for ns by (simp add: flag_text_def flag_words_def)
  have g: "nlmsg_flags_to_str_get 0 (c_array 100) 100 = ret (filled 100 [])"
    by (simp add: nlmsg_flags_to_str_eq f Let_def c_snprintf_c_array)
  obtain b where b: "nlmsg_flags_to_str_new 0 (filled 100 []) 100 = ret b"
    by (simp add: nlmsg_flags_to_str_eq f Let_def c_snprintf_def)
  show ?thesis
    unfolding within_def fst_conv snd_conv netlink_msg_dump_def
    by (simp add: l t h s g b line_def snd_io_bind split: sum.splits)
qed

text \<open>Two messages in one datagram, in a buffer that was full of other bytes.\<close>

definition two_messages :: "(recv \<times> u32 list) list" where
  "two_messages = [(\<lparr>status = 32, retry = False, bytes = (16 # replicate 15 0) @ 16 # replicate 15 0, truncated = False\<rparr>, [16, 16])]"

theorem monitor_prints_own_bytes_witness:
  "main linux_uapi (\<lambda>_. None) good_answers (replicate 64 0xff) (map fst two_messages) \<lparr>open_fds = [], blocks = 0\<rparr> =
     io_seq (netlink_msg_dump linux_uapi (\<lambda>_. None) (16 # replicate 15 0) 0)
       (io_seq (io_at 16 (netlink_msg_dump linux_uapi (\<lambda>_. None) (16 # replicate 15 0) 0))
         (ret (Blocked, \<lparr>open_fds = [3], blocks = 1\<rparr>)))"
proof -
  let ?m = "16 # replicate 15 (0 :: u8)"
  have i: "\<not> interruption (fst (hd two_messages))" by (simp add: two_messages_def interruption_def)
  have "load32 (?m @ ?m) 0 = ret 16" "load32 (?m @ ?m) 16 = ret 16" by (simp_all add: load_word_eval)
  then have "datagram (fst (hd two_messages)) [16, 16]" by (simp add: two_messages_def datagram_def round_up4_def)
  then have d: "list_all delivery two_messages" by (simp add: two_messages_def delivery_def)
  have o: "concat (map own_messages two_messages) = [(0, ?m), (16, ?m)]"
    using i by (simp add: two_messages_def own_messages_def round_up4_def)
  show ?thesis
    using monitor_prints_own_bytes [OF linux_uapi_macros_ok sample_opened d, of "\<lambda>_. None" "replicate 64 0xff"]
      short_message_within by (simp add: o own_dump_def)
qed

end
