(* ===== verification/Dump_Within.thy ===== *)
theory Dump_Within
  imports Monitor_Run
begin

text \<open>
  Which dumps stay within their message. The text of an attribute is taken from its payload alone
  exactly when the payload is as long as its type is read; an address message of such attributes is
  dumped without a look behind it.
\<close>

section \<open>Reads that stay inside the block\<close>

definition inside :: "'a io \<Rightarrow> bool" where
  "inside x \<longleftrightarrow> snd x \<noteq> Inl Read_OOB"

lemma inside_bind: "inside x \<Longrightarrow> (\<And>a. snd x = Inr a \<Longrightarrow> inside (f a)) \<Longrightarrow> inside (io_bind x f)"
  by (auto simp: inside_def snd_io_bind split: sum.splits)

lemma inside_basic: "inside (ret a)" "e \<noteq> Read_OOB \<Longrightarrow> inside (stop e)" "inside (put s t)" "inside (line t)"
  by (simp_all add: inside_def line_def)

lemma inside_cases:
  "(c \<Longrightarrow> inside x) \<Longrightarrow> (\<not> c \<Longrightarrow> inside y) \<Longrightarrow> inside (if c then x else y)"
  "(v = None \<Longrightarrow> inside x) \<Longrightarrow> (\<And>a. v = Some a \<Longrightarrow> inside (f a)) \<Longrightarrow> inside (case v of None \<Rightarrow> x | Some a \<Rightarrow> f a)"
  by (auto split: option.split)

lemma inside_arrays: "inside (c_memset0 b n)" "inside (c_snprintf b n s)"
  by (simp_all add: inside_def c_memset0_def c_snprintf_def Let_def)

lemma inside_load: "inside (load n m a) \<longleftrightarrow> a + n \<le> length m"
  "inside (load_str m a) \<longleftrightarrow> 0 \<in> set (drop a m)"
  by (simp_all add: inside_def load_def load_str_def)

lemma inside_loads:
  "inside (load8 m a) \<longleftrightarrow> a + 1 \<le> length m" "inside (load16 m a) \<longleftrightarrow> a + 2 \<le> length m"
  "inside (load32 m a) \<longleftrightarrow> a + 4 \<le> length m"
  by (simp_all add: inside_def load8_def load16_def load32_def load_def)

lemmas inside_rules = inside_bind inside_basic inside_cases inside_arrays

lemma inside_flags: "inside (nlmsg_flags_to_str_get f b n)" "inside (nlmsg_flags_to_str_new f b n)"
  by (simp_all add: nlmsg_flags_to_str_eq Let_def inside_rules)

lemma inside_names: "inside (nlmsg_type_to_str U t)" "inside (rta_type_to_str U t)" "inside (ifa_family_to_str U f)"
  unfolding nlmsg_type_to_str_def rta_type_to_str_def ifa_family_to_str_def
  by (intro inside_rules; simp)+

lemma inside_hexdump: "a + n \<le> length m \<Longrightarrow> inside (hexdump fp m a n)"
  by (simp add: inside_def hexdump_text(1))

section \<open>The text of one attribute\<close>

text \<open>What the payload must have for the text of the attribute to come from it; the nested attributes of a link are left out.\<close>

definition own_text :: "uapi \<Rightarrow> u16 \<Rightarrow> u8 list \<Rightarrow> bool" where
  "own_text U t p \<longleftrightarrow> \<not> is_label U t ''IFLA_LINKINFO'' \<and>
     (if is_label U t ''IFLA_IFNAME'' then 0 \<in> set p
      else if any_label U t [''IFLA_ADDRESS'', ''IFLA_BROADCAST''] then True
      else if is_label U t ''IFLA_STATS64'' then 184 \<le> length p
      else if is_label U t ''IFLA_STATS'' then 92 \<le> length p
      else if is_label U t ''IFLA_MAP'' then 28 \<le> length p
      else if is_label U t ''IFLA_PROMISCUITY'' then 4 \<le> length p
      else if any_label U t [''IFLA_PROTO_DOWN'', ''IFLA_OPERSTATE'', ''IFLA_LINKMODE'', ''IFLA_CARRIER''] then 1 \<le> length p
      else if any_label U t [''IFLA_NUM_TX_QUEUES'', ''IFLA_NUM_RX_QUEUES'', ''IFLA_MTU'', ''IFLA_LINK'',
          ''IFLA_GROUP'', ''IFLA_QDISC'', ''IFLA_CARRIER_CHANGES'', ''IFLA_TXQLEN''] then 4 \<le> length p
      else True)"

lemma inside_if_iff:
  "(c \<Longrightarrow> inside x \<longleftrightarrow> P) \<Longrightarrow> (\<not> c \<Longrightarrow> inside y \<longleftrightarrow> Q) \<Longrightarrow> inside (if c then x else y) \<longleftrightarrow> (if c then P else Q)"
  by simp

lemma inside_bind_iff: "(\<And>a. inside (f a)) \<Longrightarrow> inside (io_bind x f) \<longleftrightarrow> inside x"
  by (auto simp: inside_def snd_io_bind split: sum.splits)

text \<open>A chain of loads: the only fault of a load is a read beyond the block.\<close>

lemma inside_loads_bind:
  assumes "\<And>v. inside (f v) \<longleftrightarrow> P"
  shows "inside (io_bind (load n m a) f) \<longleftrightarrow> a + n \<le> length m \<and> P"
  using assms by (simp add: load_def) (simp add: inside_def)

lemma inside_fields_bind:
  "0 < w \<Longrightarrow> (\<And>vs. inside (f vs) \<longleftrightarrow> P) \<Longrightarrow> inside (io_bind (load_fields w m a (Suc k)) f) \<longleftrightarrow> a + w * Suc k \<le> length m \<and> P"
proof (induction k arbitrary: a f)
  case 0
  then show ?case by (simp add: inside_loads_bind)
next
  case (Suc k)
  have "inside (io_bind (load_fields w m a (Suc (Suc k))) f) \<longleftrightarrow> a + w \<le> length m \<and> a + w + w * Suc k \<le> length m \<and> P"
    by (subst load_fields.simps, simp only: io_bind_assoc io_bind_ret, intro inside_loads_bind Suc)
  also have "\<dots> \<longleftrightarrow> a + w * Suc (Suc k) \<le> length m \<and> P" by auto
  finally show ?case .
qed

lemma inside_structs:
  "inside (load_fields 8 m a 23) \<longleftrightarrow> a + 184 \<le> length m" "inside (load_fields 4 m a 23) \<longleftrightarrow> a + 92 \<le> length m"
  using inside_fields_bind [of 8 ret True m a 22] inside_fields_bind [of 4 ret True m a 22]
  by (simp_all add: inside_basic inside_bind_iff eval_nat_numeral)

lemma inside_ifmap:
  assumes "\<And>x y z w. inside (f x y z w)"
  shows "inside (io_bind (load_fields 8 m (a + 4) 3) (\<lambda>x. io_bind (load 2 m (a + 28)) (\<lambda>y.
      io_bind (load 1 m (a + 30)) (\<lambda>z. io_bind (load 1 m (a + 31)) (f x y z))))) \<longleftrightarrow> a + 32 \<le> length m"
proof -
  have "inside (io_bind (load_fields 8 m (a + 4) (Suc 2)) (\<lambda>x. io_bind (load 2 m (a + 28)) (\<lambda>y.
      io_bind (load 1 m (a + 30)) (\<lambda>z. io_bind (load 1 m (a + 31)) (f x y z))))) \<longleftrightarrow>
    a + 4 + 8 * Suc 2 \<le> length m \<and> a + 28 + 2 \<le> length m \<and> a + 30 + 1 \<le> length m \<and> a + 31 + 1 \<le> length m \<and> True"
    by (intro inside_fields_bind inside_loads_bind) (simp_all add: assms)
  then show ?thesis by (simp add: eval_nat_numeral) linarith
qed

lemma inside_name_iff: "(\<And>s. inside (f s) \<longleftrightarrow> P) \<Longrightarrow> inside (io_bind (rta_type_to_str U t) f) \<longleftrightarrow> P"
  by (cases "switch (uconst U) rta_type_cases (unat t)") (simp_all add: rta_type_to_str_def inside_def snd_io_bind)

lemma inside_hex_cat:
  assumes "attr_at m a t p" and "NUL \<notin> set sep" and "2 + length sep < sub_size" and "0 < k"
  shows "inside (hex_cat_loop sep sub_size m (a + 4) (length p) 0 (c_array k))"
  using hex_cat_attr [OF assms] by (auto simp: inside_def split: if_splits)

lemma inside_rta_to_str:
  assumes "attr_at m a t p" and "length m = a + 4 + length p" and "\<not> is_label U t ''IFLA_LINKINFO''"
  shows "inside (rta_to_str U m a (c_array sz) sz) \<longleftrightarrow> own_text U t p"
proof -
  have d: "drop (a + 4) m = p" using attr_at_payload [OF assms(1)] assms(2) by simp
  note len = attr_at_len [OF assms(1)] and n = attr_at_data_len [OF assms(1)]
  have u: "unat (of_nat (4 + length p) :: u16) = 4 + length p" by (rule attr_at_unat_len [OF assms(1)])
  have h: "inside (hexdump Std_out m a (4 + length p))" by (rule inside_hexdump) (simp add: assms(2))
  have c: "inside (hex_cat_loop '':'' 100 m (a + 4) (length p) 0 (c_array 1000))"
    "inside (hex_cat_loop [] 6 m (a + 4) (length p) 0 (c_array 10000))"
    by (rule inside_hex_cat [OF assms(1)]; simp)+
  show ?thesis
    unfolding rta_to_str_def own_text_def attr_at_rta [OF assms(1)] io_bind_ret Let_def len n u rta_to_str_IFLA_AF_SPEC_def
    by (simp only: assms(3) not_False_eq_True simp_thms, intro inside_if_iff inside_name_iff)
      (simp_all add: inside_bind_iff inside_rules inside_load inside_loads inside_names inside_structs
        inside_ifmap [unfolded One_nat_def] c_memset0_all d c h assms(2,3) del: load_fields.simps)
qed

lemma own_text_inside:
  assumes "attr_at m a t p" and "own_text U t p"
  shows "inside (rta_to_str U m a (c_array sz) sz)"
proof -
  let ?k = "a + 4 + length p"
  have k: "?k \<le> length m" by (rule attr_at_payload(2) [OF assms(1)])
  have "take (4 + length p) (drop a (take ?k m)) = take (4 + length p) (drop a m)"
    by (simp add: drop_take add.commute add.left_commute)
  then have at: "attr_at (take ?k m) a t p" using assms(1) by (simp add: attr_at_def)
  have "\<not> is_label U t ''IFLA_LINKINFO''" using assms(2) by (simp add: own_text_def)
  from inside_rta_to_str [OF at _ this] have "inside (rta_to_str U (take ?k m) a (c_array sz) sz)"
    using k assms(2) by simp
  then show ?thesis
    using stable_rta_to_str [of U "take ?k m" a "c_array sz" sz "drop ?k m"] by (auto simp: stable_def inside_def)
qed

lemma inside_dump_attrs:
  "attrs_at m a xs \<Longrightarrow> list_all (\<lambda>(t, p). own_text U t p) xs \<Longrightarrow> inside (dump_attrs U m sz a i xs)"
proof (induction xs arbitrary: a i)
  case (Cons x xs)
  then show ?case by (cases x) (auto intro!: inside_rules own_text_inside)
qed (simp add: inside_basic)

section \<open>Properties\<close>

text \<open>
  C24: an attribute that is the last thing in a block of memory is printed without a read beyond the block
  exactly when its payload is as long as its type is read, and terminated where it is read as a string;
  the nested attributes of a link are left out.
\<close>

theorem attribute_text_own:
  assumes "attr_at m a t p" and "length m = a + 4 + length p" and "\<not> is_label U t ''IFLA_LINKINFO''"
  shows "snd (rta_to_str U m a (c_array sz) sz) \<noteq> Inl Read_OOB \<longleftrightarrow> own_text U t p"
  using inside_rta_to_str [OF assms] by (simp add: inside_def)

text \<open>The name of an interface without its terminating zero byte, and an MTU of two bytes.\<close>

theorem attribute_text_own_witness:
  "snd (rta_to_str linux_uapi (attr 3 [0x6c, 0x6f]) 0 (c_array 512) 512) = Inl Read_OOB \<and>
   snd (rta_to_str linux_uapi (attr 3 [0x6c, 0x6f, 0]) 0 (c_array 512) 512) \<noteq> Inl Read_OOB \<and>
   snd (rta_to_str linux_uapi (attr 4 [1, 2]) 0 (c_array 512) 512) = Inl Read_OOB"
proof -
  have at: "attr_at (attr t p) 0 t p" if "length p < 65532" for t p
    using attr_at_self [OF that, of t "[]"] by simp
  have l: "\<not> is_label linux_uapi 3 ''IFLA_LINKINFO''" "\<not> is_label linux_uapi 4 ''IFLA_LINKINFO''"
    by (simp_all add: is_label_def linux_eval)
  show ?thesis
    using attribute_text_own [OF at _ l(1), of "[0x6c, 0x6f]" 512] attribute_text_own [OF at _ l(1), of "[0x6c, 0x6f, 0]" 512]
      attribute_text_own [OF at _ l(2), of "[1, 2]" 512]
    by (simp add: own_text_def is_label_def any_label_def linux_eval)
qed

text \<open>
  C10: the dump of an address message whose attributes have that shape reads nothing behind the message:
  it is the same whatever memory follows.
\<close>

theorem address_dump_own:
  assumes "uapi_macros_ok U" and "uapi_names U" and "nlmsg_type m h = ret ty"
    and "is_label U ty l" and "l \<in> {''RTM_NEWADDR'', ''RTM_DELADDR'', ''RTM_GETADDR''}"
    and "nlmsg_len m h = ret L" and "unat L = 24 + attrs_size xs" and "attrs_at m (h + 24) xs"
    and "h + unat L \<le> length m" and "list_all (\<lambda>(t, p). own_text U t p) xs"
  shows "within U ifname (m, h) \<and> netlink_msg_dump U ifname (m @ m') h = netlink_msg_dump U ifname m h"
proof -
  have h: "h + 24 \<le> length m" using assms(7,9) by simp
  have "unat (ifa_payload U L) = attrs_size xs + 0"
    using uapi_macros_okD(4) [OF assms(1), of L] assms(7) by simp
  from attr_loop_all [OF assms(1,8) this] have loop: "inside (attr_loop U m 512 (ifa_rta U (h + 16)) (ifa_payload U L) 0)"
    using inside_dump_attrs [OF assms(8,10), of 512 0] uapi_macros_okD(6) [OF assms(1), of "h + 16"] by (simp add: add.assoc)
  have body: "inside (netlink_addr_msg_dump U ifname m h)"
    unfolding netlink_addr_msg_dump_def Let_def assms(6) io_bind_ret
    by (intro inside_rules inside_names loop inside_loads [THEN iffD2]) (use h in simp_all)
  have b: "(l, netlink_addr_msg_dump U ifname m h) \<in> set (body_dumps U ifname m h)"
    using assms(5) by (auto simp: body_dumps_def)
  have "inside (netlink_msg_dump U ifname m h)"
    unfolding netlink_msg_dump_def assms(3,6) io_bind_ret body_of_label(1) [OF assms(2,4) b]
    by (intro inside_rules inside_names inside_flags body inside_loads [THEN iffD2]) (use h in simp_all)
  then show ?thesis
    using stable_netlink_msg_dump [OF assms(1), of ifname m h m'] by (auto simp: inside_def within_def stable_def)
qed

theorem address_dump_own_witness:
  "netlink_msg_dump linux_uapi (\<lambda>_. None) (example_addr @ [1, 2, 3]) 0 = netlink_msg_dump linux_uapi (\<lambda>_. None) example_addr 0"
proof -
  have l: "nlmsg_type example_addr 0 = ret 20" "nlmsg_len example_addr 0 = ret 32"
    by (simp_all add: load_word_eval example_addr_def)
  have t: "is_label linux_uapi 20 ''RTM_NEWADDR''" by (simp add: is_label_def linux_eval)
  have "attrs_at example_addr (0 + 24) [(16, [6])]" "0 + unat (32 :: u32) \<le> length example_addr"
    by (simp_all add: attr_eval example_addr_def)
  moreover have "list_all (\<lambda>(t, p). own_text linux_uapi t p) [(16, [6])]"
    by (simp add: own_text_def is_label_def any_label_def linux_eval)
  ultimately show ?thesis
    using address_dump_own [OF linux_uapi_macros_ok linux_names_ok l(1) t _ l(2), of "[(16, [6])]" "\<lambda>_. None" "[1, 2, 3]"]
    by (simp add: round_up4_def)
qed

end
