(* ===== verification/Tests.thy ===== *)
theory Tests
  imports Rta_Str Dump_Text
begin

text \<open>
  \<open>yalin/test/analyze_rta_IFLA_LINKINFO.c\<close> and \<open>yalin/test/analyze_rta_IFLA_AF_SPEC.c\<close>: each dumps an
  attribute it holds as an array and prints its text. The array of the first is \<open>test_linkinfo\<close>.
\<close>

section \<open>The code\<close>

definition test_af_spec :: mem where
  "test_af_spec =
    [0xb8, 0x02, 0x1a, 0x00, 0x7c, 0x00, 0x02, 0x00,
     0x78, 0x00, 0x01, 0x00, 0x01, 0x00, 0x00, 0x00,
     0x00, 0x00, 0x00, 0x00, 0x00, 0x00, 0x00, 0x00,
     0x01, 0x00, 0x00, 0x00, 0x01, 0x00, 0x00, 0x00,
     0x01, 0x00, 0x00, 0x00, 0x01, 0x00, 0x00, 0x00,
     0x01, 0x00, 0x00, 0x00, 0x01, 0x00, 0x00, 0x00,
     0x00, 0x00, 0x00, 0x00, 0x00, 0x00, 0x00, 0x00,
     0x00, 0x00, 0x00, 0x00, 0x00, 0x00, 0x00, 0x00,
     0x00, 0x00, 0x00, 0x00, 0x00, 0x00, 0x00, 0x00,
     0x00, 0x00, 0x00, 0x00, 0x00, 0x00, 0x00, 0x00,
     0x00, 0x00, 0x00, 0x00, 0x00, 0x00, 0x00, 0x00,
     0x00, 0x00, 0x00, 0x00, 0x00, 0x00, 0x00, 0x00,
     0x00, 0x00, 0x00, 0x00, 0x00, 0x00, 0x00, 0x00,
     0x00, 0x00, 0x00, 0x00, 0x00, 0x00, 0x00, 0x00,
     0x00, 0x00, 0x00, 0x00, 0x10, 0x27, 0x00, 0x00,
     0xe8, 0x03, 0x00, 0x00, 0x00, 0x00, 0x00, 0x00,
     0x38, 0x02, 0x0a, 0x00, 0x08, 0x00, 0x01, 0x00,
     0x00, 0x00, 0x00, 0x00, 0x14, 0x00, 0x05, 0x00,
     0xff, 0xff, 0x00, 0x00, 0x26, 0x96, 0x91, 0x00,
     0xf8, 0x9e, 0x00, 0x00, 0xe8, 0x03, 0x00, 0x00,
     0xa4, 0x00, 0x02, 0x00, 0x00, 0x00, 0x00, 0x00,
     0x40, 0x00, 0x00, 0x00, 0xdc, 0x05, 0x00, 0x00,
     0x01, 0x00, 0x00, 0x00, 0x01, 0x00, 0x00, 0x00,
     0x01, 0x00, 0x00, 0x00, 0x01, 0x00, 0x00, 0x00,
     0x03, 0x00, 0x00, 0x00, 0xa0, 0x0f, 0x00, 0x00,
     0xe8, 0x03, 0x00, 0x00, 0x00, 0x00, 0x00, 0x00,
     0x80, 0x3a, 0x09, 0x00, 0x80, 0x51, 0x01, 0x00,
     0x03, 0x00, 0x00, 0x00, 0x58, 0x02, 0x00, 0x00,
     0x10, 0x00, 0x00, 0x00, 0x00, 0x00, 0x00, 0x00,
     0x01, 0x00, 0x00, 0x00, 0x01, 0x00, 0x00, 0x00,
     0x01, 0x00, 0x00, 0x00, 0x60, 0xea, 0x00, 0x00,
     0x00, 0x00, 0x00, 0x00, 0x00, 0x00, 0x00, 0x00,
     0x00, 0x00, 0x00, 0x00, 0x00, 0x00, 0x00, 0x00,
     0x00, 0x00, 0x00, 0x00, 0x00, 0x00, 0x00, 0x00,
     0x01, 0x00, 0x00, 0x00, 0x00, 0x00, 0x00, 0x00,
     0x00, 0x00, 0x00, 0x00, 0x10, 0x27, 0x00, 0x00,
     0xe8, 0x03, 0x00, 0x00, 0x01, 0x00, 0x00, 0x00,
     0x00, 0x00, 0x00, 0x00, 0x00, 0x00, 0x00, 0x00,
     0x01, 0x00, 0x00, 0x00, 0x00, 0x00, 0x00, 0x00,
     0x00, 0x00, 0x00, 0x00, 0x01, 0x00, 0x00, 0x00,
     0x00, 0x00, 0x00, 0x00, 0x24, 0x01, 0x03, 0x00,
     0x24, 0x00, 0x00, 0x00, 0x00, 0x00, 0x00, 0x00,
     0x00, 0x00, 0x00, 0x00, 0x00, 0x00, 0x00, 0x00,
     0x00, 0x00, 0x00, 0x00, 0x00, 0x00, 0x00, 0x00,
     0x00, 0x00, 0x00, 0x00, 0x00, 0x00, 0x00, 0x00,
     0x00, 0x00, 0x00, 0x00, 0x00, 0x00, 0x00, 0x00,
     0x00, 0x00, 0x00, 0x00, 0x00, 0x00, 0x00, 0x00,
     0x00, 0x00, 0x00, 0x00, 0x00, 0x00, 0x00, 0x00,
     0x00, 0x00, 0x00, 0x00, 0x00, 0x00, 0x00, 0x00,
     0x00, 0x00, 0x00, 0x00, 0x00, 0x00, 0x00, 0x00,
     0x00, 0x00, 0x00, 0x00, 0x00, 0x00, 0x00, 0x00,
     0x00, 0x00, 0x00, 0x00, 0x00, 0x00, 0x00, 0x00,
     0x00, 0x00, 0x00, 0x00, 0x00, 0x00, 0x00, 0x00,
     0x00, 0x00, 0x00, 0x00, 0x00, 0x00, 0x00, 0x00,
     0x00, 0x00, 0x00, 0x00, 0x00, 0x00, 0x00, 0x00,
     0x00, 0x00, 0x00, 0x00, 0x00, 0x00, 0x00, 0x00,
     0x00, 0x00, 0x00, 0x00, 0x00, 0x00, 0x00, 0x00,
     0x00, 0x00, 0x00, 0x00, 0x00, 0x00, 0x00, 0x00,
     0x00, 0x00, 0x00, 0x00, 0x00, 0x00, 0x00, 0x00,
     0x00, 0x00, 0x00, 0x00, 0x00, 0x00, 0x00, 0x00,
     0x00, 0x00, 0x00, 0x00, 0x00, 0x00, 0x00, 0x00,
     0x00, 0x00, 0x00, 0x00, 0x00, 0x00, 0x00, 0x00,
     0x00, 0x00, 0x00, 0x00, 0x00, 0x00, 0x00, 0x00,
     0x00, 0x00, 0x00, 0x00, 0x00, 0x00, 0x00, 0x00,
     0x00, 0x00, 0x00, 0x00, 0x00, 0x00, 0x00, 0x00,
     0x00, 0x00, 0x00, 0x00, 0x00, 0x00, 0x00, 0x00,
     0x00, 0x00, 0x00, 0x00, 0x00, 0x00, 0x00, 0x00,
     0x00, 0x00, 0x00, 0x00, 0x00, 0x00, 0x00, 0x00,
     0x00, 0x00, 0x00, 0x00, 0x00, 0x00, 0x00, 0x00,
     0x00, 0x00, 0x00, 0x00, 0x00, 0x00, 0x00, 0x00,
     0x00, 0x00, 0x00, 0x00, 0x00, 0x00, 0x00, 0x00,
     0x00, 0x00, 0x00, 0x00, 0x00, 0x00, 0x00, 0x00,
     0x00, 0x00, 0x00, 0x00, 0x00, 0x00, 0x00, 0x00,
     0x00, 0x00, 0x00, 0x00, 0x00, 0x00, 0x00, 0x00,
     0x00, 0x00, 0x00, 0x00, 0x00, 0x00, 0x00, 0x00,
     0x00, 0x00, 0x00, 0x00, 0x00, 0x00, 0x00, 0x00,
     0x00, 0x00, 0x00, 0x00, 0x00, 0x00, 0x00, 0x00,
     0x34, 0x00, 0x06, 0x00, 0x06, 0x00, 0x00, 0x00,
     0x00, 0x00, 0x00, 0x00, 0x00, 0x00, 0x00, 0x00,
     0x00, 0x00, 0x00, 0x00, 0x00, 0x00, 0x00, 0x00,
     0x00, 0x00, 0x00, 0x00, 0x00, 0x00, 0x00, 0x00,
     0x00, 0x00, 0x00, 0x00, 0x00, 0x00, 0x00, 0x00,
     0x00, 0x00, 0x00, 0x00, 0x00, 0x00, 0x00, 0x00,
     0x00, 0x00, 0x00, 0x00, 0x14, 0x00, 0x07, 0x00,
     0x00, 0x00, 0x00, 0x00, 0x00, 0x00, 0x00, 0x00,
     0x00, 0x00, 0x00, 0x00, 0x00, 0x00, 0x00, 0x00,
     0x05, 0x00, 0x08, 0x00, 0x00, 0x00, 0x00, 0x00]"

text \<open>\<open>printf ("%s\n", str)\<close> prints the string that begins at the array's start.\<close>

definition analyze_main :: "mem \<Rightarrow> (mem \<Rightarrow> nat \<Rightarrow> cbuf \<Rightarrow> nat \<Rightarrow> cbuf io) \<Rightarrow> int io" where
  "analyze_main arry to_str =
     io_seq (hexdump Std_out arry 0 (length arry))
     (io_seq (put Std_out (''--------------'' @ [NL]))
     (io_bind (to_str arry 0 (c_array 1000) 1000) (\<lambda>str.
      io_seq (put Std_out (c_str str @ [NL])) (ret 0))))"

definition analyze_linkinfo :: "uapi \<Rightarrow> int io" where
  "analyze_linkinfo U = analyze_main test_linkinfo (rta_to_str_IFLA_LINKINFO U)"

definition analyze_af_spec :: "int io" where
  "analyze_af_spec = analyze_main test_af_spec rta_to_str_IFLA_AF_SPEC"

section \<open>What they print\<close>

lemma length_test_af_spec: "length test_af_spec = 696"
  by (simp add: test_af_spec_def)

lemma analyze_main_output:
  assumes "snd (to_str arry 0 (c_array 1000) 1000) = Inr b" and "fst (to_str arry 0 (c_array 1000) 1000) = []"
  shows "snd (analyze_main arry to_str) = Inr 0"
    and "\<exists>t. text_on Std_out (fst (analyze_main arry to_str)) = t @ ''--------------'' @ [NL] @ c_str b @ [NL] \<and>
      hexdump_read t = arry"
  using assms hexdump_text [of 0 "length arry" arry Std_out] by (auto simp: analyze_main_def hexdump_read_rows concat_rows)


text \<open>
  The \<open>AF_SPEC\<close> test prints its array, all 696 bytes of which can be read back from the output, and
  the constant text of the branch.
\<close>

theorem analyze_af_spec_output:
  "snd analyze_af_spec = Inr 0 \<and>
   (\<exists>t. text_on Std_out (fst analyze_af_spec) =
      t @ ''--------------'' @ [NL] @ ''IFLA_AF_SPEC <unsupported yet>'' @ [NL] \<and> hexdump_read t = test_af_spec)"
proof -
  let ?s = "''IFLA_AF_SPEC <unsupported yet>''"
  have "rta_to_str_IFLA_AF_SPEC test_af_spec 0 (c_array 1000) 1000 = ret (?s @ NUL # drop (length ?s + 1) (c_array 1000))"
    unfolding rta_to_str_IFLA_AF_SPEC_def by (subst c_snprintf_fits) simp_all
  moreover have "c_str (?s @ NUL # drop (length ?s + 1) (c_array 1000)) = ?s"
    by (rule c_str_append_NUL) simp
  ultimately show ?thesis
    using analyze_main_output [of rta_to_str_IFLA_AF_SPEC test_af_spec "?s @ NUL # drop (length ?s + 1) (c_array 1000)"]
    unfolding analyze_af_spec_def by simp
qed

end
