(* ===== verification/Mbuf.thy ===== *)
theory Mbuf
  imports Prelude
begin

text \<open>
  \<open>bpf/code/mbuf.h\<close>: the packet descriptor \<open>struct rte_mbuf\<close> as the eBPF programs see it. The offload
  flags and their masks are 64-bit constants; the structure is a record whose unions keep their raw
  word, with one accessor per view; bit fields are laid out from the least significant bit, as the
  x86-64 compiler does; the layout of the structure in memory follows the rules of C for the sizes and
  alignments of an \<open>abi\<close>. Address constants and sizes that the DPDK headers define (the cache line,
  the headroom) are parameters.
\<close>

section \<open>The code: offload flags\<close>

definition PKT_RX_VLAN_PKT :: u64 where
  "PKT_RX_VLAN_PKT = push_bit 0 1"

definition PKT_RX_RSS_HASH :: u64 where
  "PKT_RX_RSS_HASH = push_bit 1 1"

definition PKT_RX_FDIR :: u64 where
  "PKT_RX_FDIR = push_bit 2 1"

definition PKT_RX_L4_CKSUM_BAD :: u64 where
  "PKT_RX_L4_CKSUM_BAD = push_bit 3 1"

definition PKT_RX_IP_CKSUM_BAD :: u64 where
  "PKT_RX_IP_CKSUM_BAD = push_bit 4 1"

definition PKT_RX_EIP_CKSUM_BAD :: u64 where
  "PKT_RX_EIP_CKSUM_BAD = push_bit 5 1"

definition PKT_RX_VLAN_STRIPPED :: u64 where
  "PKT_RX_VLAN_STRIPPED = push_bit 6 1"

definition PKT_RX_IP_CKSUM_MASK :: u64 where
  "PKT_RX_IP_CKSUM_MASK = push_bit 4 1 OR push_bit 7 1"

definition PKT_RX_IP_CKSUM_UNKNOWN :: u64 where
  "PKT_RX_IP_CKSUM_UNKNOWN = 0"

definition PKT_RX_IP_CKSUM_GOOD :: u64 where
  "PKT_RX_IP_CKSUM_GOOD = push_bit 7 1"

definition PKT_RX_IP_CKSUM_NONE :: u64 where
  "PKT_RX_IP_CKSUM_NONE = push_bit 4 1 OR push_bit 7 1"

definition PKT_RX_L4_CKSUM_MASK :: u64 where
  "PKT_RX_L4_CKSUM_MASK = (push_bit 3 1 OR push_bit 8 1)"

definition PKT_RX_L4_CKSUM_UNKNOWN :: u64 where
  "PKT_RX_L4_CKSUM_UNKNOWN = 0"

definition PKT_RX_L4_CKSUM_GOOD :: u64 where
  "PKT_RX_L4_CKSUM_GOOD = push_bit 8 1"

definition PKT_RX_L4_CKSUM_NONE :: u64 where
  "PKT_RX_L4_CKSUM_NONE = (push_bit 3 1 OR push_bit 8 1)"

definition PKT_RX_IEEE1588_PTP :: u64 where
  "PKT_RX_IEEE1588_PTP = push_bit 9 1"

definition PKT_RX_IEEE1588_TMST :: u64 where
  "PKT_RX_IEEE1588_TMST = push_bit 10 1"

definition PKT_RX_FDIR_ID :: u64 where
  "PKT_RX_FDIR_ID = push_bit 13 1"

definition PKT_RX_FDIR_FLX :: u64 where
  "PKT_RX_FDIR_FLX = push_bit 14 1"

definition PKT_RX_QINQ_STRIPPED :: u64 where
  "PKT_RX_QINQ_STRIPPED = push_bit 15 1"

definition PKT_RX_QINQ_PKT :: u64 where
  "PKT_RX_QINQ_PKT = PKT_RX_QINQ_STRIPPED"

definition PKT_RX_LRO :: u64 where
  "PKT_RX_LRO = push_bit 16 1"

definition PKT_RX_TIMESTAMP :: u64 where
  "PKT_RX_TIMESTAMP = push_bit 17 1"

definition PKT_TX_MACSEC :: u64 where
  "PKT_TX_MACSEC = push_bit 44 1"

definition PKT_TX_TUNNEL_VXLAN :: u64 where
  "PKT_TX_TUNNEL_VXLAN = push_bit 45 1"

definition PKT_TX_TUNNEL_GRE :: u64 where
  "PKT_TX_TUNNEL_GRE = push_bit 45 2"

definition PKT_TX_TUNNEL_IPIP :: u64 where
  "PKT_TX_TUNNEL_IPIP = push_bit 45 3"

definition PKT_TX_TUNNEL_GENEVE :: u64 where
  "PKT_TX_TUNNEL_GENEVE = push_bit 45 4"

definition PKT_TX_TUNNEL_MPLSINUDP :: u64 where
  "PKT_TX_TUNNEL_MPLSINUDP = push_bit 45 5"

definition PKT_TX_TUNNEL_MASK :: u64 where
  "PKT_TX_TUNNEL_MASK = push_bit 45 15"

definition PKT_TX_QINQ_PKT :: u64 where
  "PKT_TX_QINQ_PKT = push_bit 49 1"

definition PKT_TX_TCP_SEG :: u64 where
  "PKT_TX_TCP_SEG = push_bit 50 1"

definition PKT_TX_IEEE1588_TMST :: u64 where
  "PKT_TX_IEEE1588_TMST = push_bit 51 1"

definition PKT_TX_L4_NO_CKSUM :: u64 where
  "PKT_TX_L4_NO_CKSUM = push_bit 52 0"

definition PKT_TX_TCP_CKSUM :: u64 where
  "PKT_TX_TCP_CKSUM = push_bit 52 1"

definition PKT_TX_SCTP_CKSUM :: u64 where
  "PKT_TX_SCTP_CKSUM = push_bit 52 2"

definition PKT_TX_UDP_CKSUM :: u64 where
  "PKT_TX_UDP_CKSUM = push_bit 52 3"

definition PKT_TX_L4_MASK :: u64 where
  "PKT_TX_L4_MASK = push_bit 52 3"

definition PKT_TX_IP_CKSUM :: u64 where
  "PKT_TX_IP_CKSUM = push_bit 54 1"

definition PKT_TX_IPV4 :: u64 where
  "PKT_TX_IPV4 = push_bit 55 1"

definition PKT_TX_IPV6 :: u64 where
  "PKT_TX_IPV6 = push_bit 56 1"

definition PKT_TX_VLAN_PKT :: u64 where
  "PKT_TX_VLAN_PKT = push_bit 57 1"

definition PKT_TX_OUTER_IP_CKSUM :: u64 where
  "PKT_TX_OUTER_IP_CKSUM = push_bit 58 1"

definition PKT_TX_OUTER_IPV4 :: u64 where
  "PKT_TX_OUTER_IPV4 = push_bit 59 1"

definition PKT_TX_OUTER_IPV6 :: u64 where
  "PKT_TX_OUTER_IPV6 = push_bit 60 1"

definition PKT_TX_OFFLOAD_MASK :: u64 where
  "PKT_TX_OFFLOAD_MASK =
     PKT_TX_IP_CKSUM OR PKT_TX_L4_MASK OR PKT_TX_OUTER_IP_CKSUM OR PKT_TX_TCP_SEG OR
     PKT_TX_IEEE1588_TMST OR PKT_TX_QINQ_PKT OR PKT_TX_VLAN_PKT OR PKT_TX_TUNNEL_MASK OR PKT_TX_MACSEC"

definition mbuf_RESERVED :: u64 where
  "mbuf_RESERVED = push_bit 61 1"

definition IND_ATTACHED_MBUF :: u64 where
  "IND_ATTACHED_MBUF = push_bit 62 1"

definition CTRL_MBUF_FLAG :: u64 where
  "CTRL_MBUF_FLAG = push_bit 63 1"

section \<open>The code: the descriptor\<close>

definition RTE_MBUF_PRIV_ALIGN :: nat where
  "RTE_MBUF_PRIV_ALIGN = 8"

definition RTE_MBUF_DEFAULT_DATAROOM :: nat where
  "RTE_MBUF_DEFAULT_DATAROOM = 2048"

definition RTE_MBUF_DEFAULT_BUF_SIZE :: "nat \<Rightarrow> nat" where
  "RTE_MBUF_DEFAULT_BUF_SIZE RTE_PKTMBUF_HEADROOM = RTE_MBUF_DEFAULT_DATAROOM + RTE_PKTMBUF_HEADROOM"

text \<open>
  The unions \<open>refcnt\<close>, \<open>packet_type\<close>, \<open>hash\<close>, \<open>udata64\<close> and \<open>tx_offload\<close> are one word each; pointers
  are addresses. \<open>next\<close> is \<open>next_seg\<close> and \<open>port\<close> is \<open>mbuf_port\<close> here.
\<close>

record rte_mbuf =
  buf_addr :: u64
  buf_physaddr :: u64
  data_off :: u16
  refcnt :: u16
  nb_segs :: u16
  mbuf_port :: u16
  ol_flags :: u64
  packet_type :: u32
  pkt_len :: u32
  data_len :: u16
  vlan_tci :: u16
  hash :: u64
  vlan_tci_outer :: u16
  buf_len :: u16
  timestamp :: u64
  udata64 :: u64
  pool :: u64
  next_seg :: u64
  tx_offload :: u64
  priv_size :: u16
  timesync :: u16
  seqn :: u32

text \<open>A bit field is the number \<open>i\<close> of consecutive fields of the given widths.\<close>

definition bf_off :: "nat list \<Rightarrow> nat \<Rightarrow> nat" where
  "bf_off ws i = sum_list (take i ws)"

definition bf_get :: "nat list \<Rightarrow> nat \<Rightarrow> 'a::len word \<Rightarrow> 'a word" where
  "bf_get ws i x = take_bit (ws ! i) (drop_bit (bf_off ws i) x)"

definition bf_set :: "nat list \<Rightarrow> nat \<Rightarrow> 'a::len word \<Rightarrow> 'a word \<Rightarrow> 'a word" where
  "bf_set ws i v x =
     (x AND NOT (push_bit (bf_off ws i) (mask (ws ! i)))) OR push_bit (bf_off ws i) (take_bit (ws ! i) v)"

definition ptype_widths :: "nat list" where
  "ptype_widths = [4, 4, 4, 4, 4, 4, 4]"

definition l2_type :: "rte_mbuf \<Rightarrow> u32" where
  "l2_type m = bf_get ptype_widths 0 (packet_type m)"

definition l3_type :: "rte_mbuf \<Rightarrow> u32" where
  "l3_type m = bf_get ptype_widths 1 (packet_type m)"

definition l4_type :: "rte_mbuf \<Rightarrow> u32" where
  "l4_type m = bf_get ptype_widths 2 (packet_type m)"

definition tun_type :: "rte_mbuf \<Rightarrow> u32" where
  "tun_type m = bf_get ptype_widths 3 (packet_type m)"

definition inner_l2_type :: "rte_mbuf \<Rightarrow> u32" where
  "inner_l2_type m = bf_get ptype_widths 4 (packet_type m)"

definition inner_l3_type :: "rte_mbuf \<Rightarrow> u32" where
  "inner_l3_type m = bf_get ptype_widths 5 (packet_type m)"

definition inner_l4_type :: "rte_mbuf \<Rightarrow> u32" where
  "inner_l4_type m = bf_get ptype_widths 6 (packet_type m)"

definition hash_rss :: "rte_mbuf \<Rightarrow> u32" where
  "hash_rss m = ucast (hash m)"

definition hash_fdir_hash :: "rte_mbuf \<Rightarrow> u16" where
  "hash_fdir_hash m = ucast (hash m)"

definition hash_fdir_id :: "rte_mbuf \<Rightarrow> u16" where
  "hash_fdir_id m = ucast (drop_bit 16 (hash m))"

definition hash_fdir_lo :: "rte_mbuf \<Rightarrow> u32" where
  "hash_fdir_lo m = ucast (hash m)"

definition hash_fdir_hi :: "rte_mbuf \<Rightarrow> u32" where
  "hash_fdir_hi m = ucast (drop_bit 32 (hash m))"

definition tx_widths :: "nat list" where
  "tx_widths = [7, 9, 8, 16, 9, 7]"

definition l2_len :: "rte_mbuf \<Rightarrow> u64" where
  "l2_len m = bf_get tx_widths 0 (tx_offload m)"

definition l3_len :: "rte_mbuf \<Rightarrow> u64" where
  "l3_len m = bf_get tx_widths 1 (tx_offload m)"

definition l4_len :: "rte_mbuf \<Rightarrow> u64" where
  "l4_len m = bf_get tx_widths 2 (tx_offload m)"

definition tso_segsz :: "rte_mbuf \<Rightarrow> u64" where
  "tso_segsz m = bf_get tx_widths 3 (tx_offload m)"

definition outer_l3_len :: "rte_mbuf \<Rightarrow> u64" where
  "outer_l3_len m = bf_get tx_widths 4 (tx_offload m)"

definition outer_l2_len :: "rte_mbuf \<Rightarrow> u64" where
  "outer_l2_len m = bf_get tx_widths 5 (tx_offload m)"

definition set_l2_len :: "u64 \<Rightarrow> rte_mbuf \<Rightarrow> rte_mbuf" where
  "set_l2_len v m = m\<lparr>tx_offload := bf_set tx_widths 0 v (tx_offload m)\<rparr>"

definition set_l3_len :: "u64 \<Rightarrow> rte_mbuf \<Rightarrow> rte_mbuf" where
  "set_l3_len v m = m\<lparr>tx_offload := bf_set tx_widths 1 v (tx_offload m)\<rparr>"

definition set_l4_len :: "u64 \<Rightarrow> rte_mbuf \<Rightarrow> rte_mbuf" where
  "set_l4_len v m = m\<lparr>tx_offload := bf_set tx_widths 2 v (tx_offload m)\<rparr>"

definition set_tso_segsz :: "u64 \<Rightarrow> rte_mbuf \<Rightarrow> rte_mbuf" where
  "set_tso_segsz v m = m\<lparr>tx_offload := bf_set tx_widths 3 v (tx_offload m)\<rparr>"

definition set_outer_l3_len :: "u64 \<Rightarrow> rte_mbuf \<Rightarrow> rte_mbuf" where
  "set_outer_l3_len v m = m\<lparr>tx_offload := bf_set tx_widths 4 v (tx_offload m)\<rparr>"

definition set_outer_l2_len :: "u64 \<Rightarrow> rte_mbuf \<Rightarrow> rte_mbuf" where
  "set_outer_l2_len v m = m\<lparr>tx_offload := bf_set tx_widths 5 v (tx_offload m)\<rparr>"

text \<open>A macro used as a truth value is the word; \<open>!\<close> of it is 1 exactly on zero.\<close>

definition RTE_MBUF_INDIRECT :: "rte_mbuf \<Rightarrow> u64" where
  "RTE_MBUF_INDIRECT mb = ol_flags mb AND IND_ATTACHED_MBUF"

definition RTE_MBUF_DIRECT :: "rte_mbuf \<Rightarrow> int" where
  "RTE_MBUF_DIRECT mb = (if RTE_MBUF_INDIRECT mb = 0 then 1 else 0)"

record rte_pktmbuf_pool_private =
  mbuf_data_room_size :: u16
  mbuf_priv_size :: u16

definition rte_pktmbuf_mtod_offset :: "rte_mbuf \<Rightarrow> u64 \<Rightarrow> u64" where
  "rte_pktmbuf_mtod_offset m o' = buf_addr m + ucast (data_off m) + o'"

definition rte_pktmbuf_mtod :: "rte_mbuf \<Rightarrow> u64" where
  "rte_pktmbuf_mtod m = rte_pktmbuf_mtod_offset m 0"

section \<open>The code: the layout\<close>

text \<open>
  What the layout depends on: the size of a pointer, the alignment of a \<open>uint64_t\<close> member (4 on
  i386, 8 elsewhere) and the cache line.
\<close>

record abi =
  ptr_size :: nat
  u64_align :: nat
  cache_line :: nat

text \<open>Name, size and alignment of the members, in order; the markers have size zero.\<close>

definition rte_mbuf_members :: "abi \<Rightarrow> (string \<times> nat \<times> nat) list" where
  "rte_mbuf_members A =
    [(''cacheline0'', 0, ptr_size A),
     (''buf_addr'', ptr_size A, ptr_size A),
     (''buf_physaddr'', 8, 8),
     (''rearm_data'', 0, u64_align A),
     (''data_off'', 2, 2),
     (''refcnt'', 2, 2),
     (''nb_segs'', 2, 2),
     (''port'', 2, 2),
     (''ol_flags'', 8, u64_align A),
     (''rx_descriptor_fields1'', 0, ptr_size A),
     (''packet_type'', 4, 4),
     (''pkt_len'', 4, 4),
     (''data_len'', 2, 2),
     (''vlan_tci'', 2, 2),
     (''hash'', 8, 4),
     (''vlan_tci_outer'', 2, 2),
     (''buf_len'', 2, 2),
     (''timestamp'', 8, u64_align A),
     (''cacheline1'', 0, cache_line A),
     (''udata64'', 8, u64_align A),
     (''pool'', ptr_size A, ptr_size A),
     (''next'', ptr_size A, ptr_size A),
     (''tx_offload'', 8, u64_align A),
     (''priv_size'', 2, 2),
     (''timesync'', 2, 2),
     (''seqn'', 4, 4)]"

definition align_up :: "nat \<Rightarrow> nat \<Rightarrow> nat" where
  "align_up n a = (n + a - 1) div a * a"

fun layout :: "nat \<Rightarrow> (string \<times> nat \<times> nat) list \<Rightarrow> (string \<times> nat) list" where
  "layout off [] = []"
| "layout off ((f, sz, al) # fs) = (f, align_up off al) # layout (align_up off al + sz) fs"

definition offset_of :: "abi \<Rightarrow> string \<Rightarrow> nat" where
  "offset_of A f = the (map_of (layout 0 (rte_mbuf_members A)) f)"

definition x86_64 :: abi where
  "x86_64 = \<lparr>ptr_size = 8, u64_align = 8, cache_line = 64\<rparr>"

section \<open>Bit fields\<close>

lemma bit_bf_set:
  "bit (bf_set ws i v x) n \<longleftrightarrow>
    (if bf_off ws i \<le> n \<and> n < bf_off ws i + ws ! i then n < LENGTH('a) \<and> bit v (n - bf_off ws i) else bit x n)"
  for x :: "'a::len word"
  unfolding bf_set_def by (auto simp: bit_simps dest: bit_imp_le_length)

lemma bit_bf_get: "bit (bf_get ws i x) n \<longleftrightarrow> n < ws ! i \<and> bit x (bf_off ws i + n)"
  for x :: "'a::len word"
  unfolding bf_get_def by (auto simp: bit_simps add.commute)

lemma bf_off_step: "i < length ws \<Longrightarrow> bf_off ws (Suc i) = bf_off ws i + ws ! i"
  by (simp add: bf_off_def take_Suc_conv_app_nth)

lemma bf_off_mono: "i \<le> j \<Longrightarrow> bf_off ws i \<le> bf_off ws j"
  by (auto simp: bf_off_def take_add dest!: le_Suc_ex)

lemma bf_off_end: "i < length ws \<Longrightarrow> bf_off ws i + ws ! i \<le> sum_list ws"
  using bf_off_mono [of "Suc i" "length ws" ws] by (simp add: bf_off_step) (simp add: bf_off_def)

lemma bf_get_set_same:
  fixes x :: "'a::len word"
  assumes "i < length ws" and "sum_list ws \<le> LENGTH('a)"
  shows "bf_get ws i (bf_set ws i v x) = take_bit (ws ! i) v"
  using bf_off_end [OF assms(1)] assms(2) by (intro bit_eqI) (auto simp: bit_bf_get bit_bf_set bit_simps)

lemma bf_get_set_other:
  fixes x :: "'a::len word"
  assumes "i \<noteq> j" and "i < length ws" and "j < length ws"
  shows "bf_get ws j (bf_set ws i v x) = bf_get ws j x"
proof -
  have "bf_off ws i + ws ! i \<le> bf_off ws j \<or> bf_off ws j + ws ! j \<le> bf_off ws i"
    using assms bf_off_mono [of "Suc i" j ws] bf_off_mono [of "Suc j" i ws] by (simp add: bf_off_step) linarith
  then show ?thesis by (intro bit_eqI) (auto simp: bit_bf_get bit_bf_set)
qed

lemma bf_set_above:
  fixes x :: "'a::len word"
  assumes "i < length ws" and "sum_list ws \<le> n"
  shows "drop_bit n (bf_set ws i v x) = drop_bit n x"
  using bf_off_end [OF assms(1)] assms(2) by (intro bit_eqI) (auto simp: bit_bf_set bit_simps)


lemma tx_widths_simps [simp]:
  "length tx_widths = 6" "sum_list tx_widths = 56"
  "tx_widths ! 0 = 7" "tx_widths ! 1 = 9" "tx_widths ! 2 = 8" "tx_widths ! 3 = 16" "tx_widths ! 4 = 9"
  "tx_widths ! 5 = 7" "tx_widths ! Suc 0 = 9"
  by (simp_all add: tx_widths_def)

section \<open>Flags\<close>

lemmas flag_defs =
  PKT_RX_VLAN_PKT_def PKT_RX_RSS_HASH_def PKT_RX_FDIR_def PKT_RX_L4_CKSUM_MASK_def PKT_RX_IP_CKSUM_MASK_def
  PKT_RX_EIP_CKSUM_BAD_def PKT_RX_VLAN_STRIPPED_def PKT_RX_IEEE1588_PTP_def PKT_RX_IEEE1588_TMST_def
  PKT_RX_FDIR_ID_def PKT_RX_FDIR_FLX_def PKT_RX_QINQ_STRIPPED_def PKT_RX_LRO_def PKT_RX_TIMESTAMP_def
  PKT_TX_MACSEC_def PKT_TX_TUNNEL_MASK_def PKT_TX_QINQ_PKT_def PKT_TX_TCP_SEG_def PKT_TX_IEEE1588_TMST_def
  PKT_TX_L4_MASK_def PKT_TX_IP_CKSUM_def PKT_TX_IPV4_def PKT_TX_IPV6_def PKT_TX_VLAN_PKT_def
  PKT_TX_OUTER_IP_CKSUM_def PKT_TX_OUTER_IPV4_def PKT_TX_OUTER_IPV6_def
  mbuf_RESERVED_def IND_ATTACHED_MBUF_def CTRL_MBUF_FLAG_def

lemmas cksum_defs =
  PKT_RX_IP_CKSUM_UNKNOWN_def PKT_RX_IP_CKSUM_BAD_def PKT_RX_IP_CKSUM_GOOD_def PKT_RX_IP_CKSUM_NONE_def
  PKT_RX_L4_CKSUM_UNKNOWN_def PKT_RX_L4_CKSUM_BAD_def PKT_RX_L4_CKSUM_GOOD_def PKT_RX_L4_CKSUM_NONE_def
  PKT_TX_L4_NO_CKSUM_def PKT_TX_TCP_CKSUM_def PKT_TX_SCTP_CKSUM_def PKT_TX_UDP_CKSUM_def

lemmas tunnel_defs =
  PKT_TX_TUNNEL_VXLAN_def PKT_TX_TUNNEL_GRE_def PKT_TX_TUNNEL_IPIP_def PKT_TX_TUNNEL_GENEVE_def
  PKT_TX_TUNNEL_MPLSINUDP_def

lemma keep_field:
  assumes "v AND msk = v"
  shows "((w AND NOT msk) OR v) AND msk = v"
proof -
  have "((w AND NOT msk) OR v) AND msk = v AND msk"
    by (intro bit_eqI) (auto simp: bit_simps)
  then show ?thesis using assms by simp
qed

section \<open>Properties\<close>

text \<open>
  The values of each checksum and tunnel field are different, lie inside the field's mask and are
  what the mask leaves of a flag word they were put into.
\<close>

theorem flag_fields:
  "distinct [PKT_RX_IP_CKSUM_UNKNOWN, PKT_RX_IP_CKSUM_BAD, PKT_RX_IP_CKSUM_GOOD, PKT_RX_IP_CKSUM_NONE] \<and>
   distinct [PKT_RX_L4_CKSUM_UNKNOWN, PKT_RX_L4_CKSUM_BAD, PKT_RX_L4_CKSUM_GOOD, PKT_RX_L4_CKSUM_NONE] \<and>
   distinct [PKT_TX_L4_NO_CKSUM, PKT_TX_TCP_CKSUM, PKT_TX_SCTP_CKSUM, PKT_TX_UDP_CKSUM] \<and>
   distinct [PKT_TX_TUNNEL_VXLAN, PKT_TX_TUNNEL_GRE, PKT_TX_TUNNEL_IPIP, PKT_TX_TUNNEL_GENEVE, PKT_TX_TUNNEL_MPLSINUDP] \<and>
   list_all (\<lambda>(msk, vs). list_all (\<lambda>v. ((w AND NOT msk) OR v) AND msk = v) vs)
     [(PKT_RX_IP_CKSUM_MASK, [PKT_RX_IP_CKSUM_UNKNOWN, PKT_RX_IP_CKSUM_BAD, PKT_RX_IP_CKSUM_GOOD, PKT_RX_IP_CKSUM_NONE]),
      (PKT_RX_L4_CKSUM_MASK, [PKT_RX_L4_CKSUM_UNKNOWN, PKT_RX_L4_CKSUM_BAD, PKT_RX_L4_CKSUM_GOOD, PKT_RX_L4_CKSUM_NONE]),
      (PKT_TX_L4_MASK, [PKT_TX_L4_NO_CKSUM, PKT_TX_TCP_CKSUM, PKT_TX_SCTP_CKSUM, PKT_TX_UDP_CKSUM]),
      (PKT_TX_TUNNEL_MASK, [PKT_TX_TUNNEL_VXLAN, PKT_TX_TUNNEL_GRE, PKT_TX_TUNNEL_IPIP, PKT_TX_TUNNEL_GENEVE, PKT_TX_TUNNEL_MPLSINUDP])]"
  unfolding list.pred_inject prod.case
  by (intro conjI TrueI keep_field) (simp_all add: flag_defs cksum_defs tunnel_defs)

text \<open>
  Setting the six transmit-offload lengths keeps each of them, cut to its width, and changes
  nothing else: not the eight unused bits and no other member.
\<close>

theorem tx_offload_fields:
  fixes m :: rte_mbuf and a b c d e f :: u64
  defines "m' \<equiv> set_outer_l2_len f (set_outer_l3_len e (set_tso_segsz d (set_l4_len c (set_l3_len b (set_l2_len a m)))))"
  shows "l2_len m' = take_bit 7 a \<and> l3_len m' = take_bit 9 b \<and> l4_len m' = take_bit 8 c \<and>
    tso_segsz m' = take_bit 16 d \<and> outer_l3_len m' = take_bit 9 e \<and> outer_l2_len m' = take_bit 7 f \<and>
    drop_bit 56 (tx_offload m') = drop_bit 56 (tx_offload m) \<and> m' = m\<lparr>tx_offload := tx_offload m'\<rparr>"
  unfolding m'_def set_l2_len_def set_l3_len_def set_l4_len_def set_tso_segsz_def set_outer_l3_len_def
    set_outer_l2_len_def l2_len_def l3_len_def l4_len_def tso_segsz_def outer_l3_len_def outer_l2_len_def
  by (simp add: bf_get_set_same bf_get_set_other bf_set_above)

text \<open>
  The first cache line of the descriptor is laid out alike for 4 and 8 byte pointers, as the
  comment in the structure promises; the eight bytes of \<open>rearm_data\<close> are the four members behind the
  marker; the second line starts at the cache line's boundary.
\<close>

theorem first_cache_line_layout:
  assumes "ptr_size A \<in> {4, 8}" and "u64_align A \<in> {4, 8}" and "cache_line A \<in> {64, 128}"
  shows "take 18 (layout 0 (rte_mbuf_members A)) =
     [(''cacheline0'', 0), (''buf_addr'', 0), (''buf_physaddr'', 8), (''rearm_data'', 16), (''data_off'', 16),
      (''refcnt'', 18), (''nb_segs'', 20), (''port'', 22), (''ol_flags'', 24), (''rx_descriptor_fields1'', 32),
      (''packet_type'', 32), (''pkt_len'', 36), (''data_len'', 40), (''vlan_tci'', 42), (''hash'', 44),
      (''vlan_tci_outer'', 52), (''buf_len'', 54), (''timestamp'', 56)] \<and>
    layout 0 (rte_mbuf_members A) ! 18 = (''cacheline1'', cache_line A)"
proof -
  from assms consider "ptr_size A = 4" "u64_align A = 4" "cache_line A = 64" | "ptr_size A = 4" "u64_align A = 4" "cache_line A = 128"
    | "ptr_size A = 4" "u64_align A = 8" "cache_line A = 64" | "ptr_size A = 4" "u64_align A = 8" "cache_line A = 128"
    | "ptr_size A = 8" "u64_align A = 4" "cache_line A = 64" | "ptr_size A = 8" "u64_align A = 4" "cache_line A = 128"
    | "ptr_size A = 8" "u64_align A = 8" "cache_line A = 64" | "ptr_size A = 8" "u64_align A = 8" "cache_line A = 128"
    by auto
  then show ?thesis
    by cases (simp_all add: rte_mbuf_members_def align_up_def)
qed

theorem first_cache_line_layout_witness:
  "layout 0 (rte_mbuf_members x86_64) ! 18 = (''cacheline1'', 64)"
  using first_cache_line_layout [of x86_64] by (simp add: x86_64_def)

end
