(* ===== verification/Bpf.thy ===== *)
theory Bpf
  imports CString Mbuf
begin

text \<open>
  \<open>bpf/code/t1.c\<close>, \<open>t2.c\<close>, \<open>t3.c\<close>: three eBPF programs that get the address of a packet descriptor,
  and \<open>bpf/bpf.h\<close>, \<open>bpf/main.c\<close>: the program that loads the first one and runs it. The eBPF programs
  read the descriptor and the packet from an address space; a byte that is not mapped ends the
  execution. The DPDK functions that load and run a program are parameters.
\<close>

section \<open>An address space\<close>

type_synonym ram = "nat \<Rightarrow> u8 option"

fun fetch :: "nat \<Rightarrow> ram \<Rightarrow> nat \<Rightarrow> u8 list option" where
  "fetch 0 r a = Some []"
| "fetch (Suc n) r a =
     (case r a of None \<Rightarrow> None | Some b \<Rightarrow> map_option ((#) b) (fetch n r (a + 1)))"

definition peek :: "nat \<Rightarrow> ram \<Rightarrow> u64 \<Rightarrow> nat io" where
  "peek n r a = (case fetch n r (unat a) of None \<Rightarrow> stop Read_OOB | Some bs \<Rightarrow> ret (le_nat bs))"

definition put_bytes :: "ram \<Rightarrow> nat \<Rightarrow> u8 list \<Rightarrow> ram" where
  "put_bytes r a bs = (\<lambda>x. if a \<le> x \<and> x < a + length bs then Some (bs ! (x - a)) else r x)"

definition poke :: "nat \<Rightarrow> ram \<Rightarrow> u64 \<Rightarrow> nat \<Rightarrow> ram io" where
  "poke n r a v =
     (if fetch n r (unat a) = None then stop Write_OOB else ret (put_bytes r (unat a) (le_bytes n v)))"

section \<open>The code: the eBPF programs\<close>

definition bswap16 :: "u16 \<Rightarrow> u16" where
  "bswap16 v = push_bit 8 (v AND 0x00ff) OR drop_bit 8 (v AND 0xff00)"

definition bswap32 :: "u32 \<Rightarrow> u32" where
  "bswap32 v =
     push_bit 24 (v AND 0x000000ff) OR
     push_bit 8 (v AND 0x0000ff00) OR
     drop_bit 8 (v AND 0x00ff0000) OR
     drop_bit 24 (v AND 0xff000000)"

text \<open>\<open>entry\<close> of \<open>t1.c\<close> returns before it looks at the packet.\<close>

definition t1_entry :: "ram \<Rightarrow> u64 \<Rightarrow> u64 io" where
  "t1_entry r pkt = ret 1"

text \<open>
  \<open>rte_pktmbuf_mtod\<close> on a descriptor in memory: two of its members are read, at the offsets the 64-bit
  eBPF target shares with x86-64.
\<close>

definition mtod :: "ram \<Rightarrow> u64 \<Rightarrow> u64 io" where
  "mtod r m =
     io_bind (peek 8 r (m + of_nat (offset_of x86_64 ''buf_addr''))) (\<lambda>ba.
     io_bind (peek 2 r (m + of_nat (offset_of x86_64 ''data_off''))) (\<lambda>off.
       ret (of_nat ba + ucast (of_nat off :: u16) + 0)))"

text \<open>
  \<open>eentry\<close> of \<open>t2.c\<close>: \<open>ether_type\<close> is at offset 12 of the Ethernet header of 14 bytes, \<open>saddr\<close> at
  offset 12 of the IPv4 header. The programs get the memory and return it beside their result.
\<close>

definition t2_eentry :: "ram \<Rightarrow> u64 \<Rightarrow> (u64 \<times> ram) io" where
  "t2_eentry r pkt =
     io_bind (mtod r pkt) (\<lambda>eh.
     io_bind (peek 2 r (eh + 12)) (\<lambda>ether_type.
       if bswap16 (of_nat ether_type) \<noteq> 0x0800 then ret (0, r)
       else let ih = eh + 14 in
       io_bind (peek 4 r (ih + 12)) (\<lambda>saddr.
         if bswap32 (of_nat saddr) = 0x0a000002 then
           io_bind (poke 4 r (ih + 12) (unat (bswap32 0x0a000014))) (\<lambda>r. ret (0, r))
         else ret (0, r))))"

definition t3_eentry :: "ram \<Rightarrow> u64 \<Rightarrow> (u64 \<times> ram) io" where
  "t3_eentry r pkt =
     io_bind (mtod r pkt) (\<lambda>eh.
     io_bind (peek 2 r (eh + 12)) (\<lambda>ether_type.
       if bswap16 (of_nat ether_type) \<noteq> 0x0800 then ret (0, r)
       else let ih = eh + 14 in
       io_bind (peek 4 r (ih + 12)) (\<lambda>saddr.
         if bswap32 (of_nat saddr) = 0x0a000014 then
           io_bind (poke 4 r (ih + 12) (unat (bswap32 0x0a000002))) (\<lambda>r. ret (0, r))
         else ret (0, r))))"

section \<open>The code: loading and running\<close>

datatype bpf_arg_type = RTE_BPF_ARG_RAW | RTE_BPF_ARG_PTR | RTE_BPF_ARG_PTR_MBUF

record rte_bpf_arg =
  arg_type :: bpf_arg_type
  arg_size :: nat
  arg_buf_size :: nat

datatype rte_bpf_xsym =
    Xvar string rte_bpf_arg
  | Xfunc string "rte_bpf_arg list"

record rte_bpf_prm =
  ins :: "u64 list"
  xsym :: "rte_bpf_xsym list"
  prog_arg :: rte_bpf_arg

text \<open>\<open>struct bpf\<close> and the address it is at; \<open>ins\<close> has \<open>nb_ins\<close> elements.\<close>

record bpf =
  bpf_addr :: nat
  prm :: rte_bpf_prm
  bpf_sz :: nat
  stack_sz :: u32

text \<open>
  What the program takes from DPDK: the loader of an ELF file's section, the execution of a loaded
  program on the bytes it is given, the byte swap, the size of the descriptor and the headroom; and
  the name the compiler knows the header by (\<open>__FILE__\<close>).
\<close>

record dpdk_bpf =
  rte_bpf_elf_load :: "rte_bpf_prm \<Rightarrow> string \<Rightarrow> string \<Rightarrow> bpf option"
  rte_bpf_exec :: "bpf \<Rightarrow> mem \<Rightarrow> u64"
  rte_bswap64 :: "u64 \<Rightarrow> u64"
  sizeof_rte_mbuf :: nat
  headroom :: nat
  file_name :: string

fun dump_ins :: "(u64 \<Rightarrow> u64) \<Rightarrow> nat \<Rightarrow> u64 list \<Rightarrow> unit io" where
  "dump_ins bswap i [] = ret ()"
| "dump_ins bswap i (x # xs) =
     io_seq (put Std_out (''  0x'' @ fmt_0x 4 (i * 8) @ '': '' @ fmt_0x 16 (unat (bswap x)) @ [CHR 0x0A]))
       (dump_ins bswap (i + 1) xs)"

definition rte_bpf_dump :: "dpdk_bpf \<Rightarrow> stream \<Rightarrow> bpf \<Rightarrow> unit io" where
  "rte_bpf_dump D f b =
     io_seq (put f ''bpf </pmd/md/t.o>@'') (io_seq (put_ptr f (bpf_addr b)) (io_seq (put f [CHR 0x0A])
       (dump_ins (rte_bswap64 D) 0 (ins (prm b)))))"

definition bpf_xsym :: "dpdk_bpf \<Rightarrow> rte_bpf_xsym list" where
  "bpf_xsym D =
     [Xvar ''stdout'' \<lparr>arg_type = RTE_BPF_ARG_PTR, arg_size = 8, arg_buf_size = 0\<rparr>,
      Xfunc ''rte_pktmbuf_dump''
        [\<lparr>arg_type = RTE_BPF_ARG_RAW, arg_size = 8, arg_buf_size = 0\<rparr>,
         \<lparr>arg_type = RTE_BPF_ARG_PTR_MBUF, arg_size = sizeof_rte_mbuf D, arg_buf_size = 0\<rparr>,
         \<lparr>arg_type = RTE_BPF_ARG_RAW, arg_size = 4, arg_buf_size = 0\<rparr>]]"

definition mbuf_bpf_elf_load :: "dpdk_bpf \<Rightarrow> string \<Rightarrow> bpf option io" where
  "mbuf_bpf_elf_load D fname =
     (let p = \<lparr>ins = [], xsym = bpf_xsym D,
        prog_arg = \<lparr>arg_type = RTE_BPF_ARG_PTR_MBUF, arg_size = sizeof_rte_mbuf D,
          arg_buf_size = RTE_MBUF_DEFAULT_BUF_SIZE (headroom D)\<rparr>\<rparr>
      in case rte_bpf_elf_load D p fname ''.text'' of
        None \<Rightarrow> io_seq (put Std_err (file_name D @ '':91: in function mbuf_bpf_elf_load()'' @ [CHR 0x0A])) (ret None)
      | Some b \<Rightarrow> ret (Some b))"

definition bpf_pkt :: mem where
  "bpf_pkt =
    [0xff, 0xff, 0xff, 0xff, 0xff, 0xff, 0x11, 0x22,
     0x33, 0x44, 0x55, 0x66, 0x08, 0x06, 0x00, 0x01,
     0x08, 0x00, 0x06, 0x04, 0x00, 0x01, 0x00, 0x00,
     0x00, 0x00, 0x00, 0x00, 0x00, 0x00, 0x00, 0x00,
     0xff, 0xff, 0xff, 0xff, 0xff, 0xff, 0x00, 0x00,
     0x00, 0x00]"

text \<open>\<open>main\<close> with the result of \<open>rte_eal_init\<close>; \<open>rte_panic\<close> aborts the process.\<close>

definition bpf_main :: "dpdk_bpf \<Rightarrow> int \<Rightarrow> int io" where
  "bpf_main D eal =
     (if eal < 0 then io_seq (put Std_err (''Cannot init EAL'' @ [CHR 0x0A])) (stop Abort)
      else io_bind (mbuf_bpf_elf_load D ''./code/t1.o'') (\<lambda>b.
        case b of
          None \<Rightarrow> io_seq (put Std_out (''MISSED exit'' @ [CHR 0x0A])) (ret 1)
        | Some b \<Rightarrow>
            let bpfret = rte_bpf_exec D b bpf_pkt in
            io_seq (put Std_out (''bpfret:'' @ fmt_u (unat bpfret) @ '' 0x'' @ fmt_x (unat bpfret) @ [CHR 0x0A]))
            (io_seq (rte_bpf_dump D Std_out b) (ret 0))))"

section \<open>Reads and writes\<close>

lemma fetch_Some_iff: "fetch n r a = Some bs \<longleftrightarrow> length bs = n \<and> (\<forall>i<n. r (a + i) = Some (bs ! i))"
proof (induction n arbitrary: a bs)
  case (Suc n)
  show ?case
  proof (cases bs)
    case (Cons b cs)
    have "(\<forall>i<Suc n. r (a + i) = Some (bs ! i)) \<longleftrightarrow> r a = Some b \<and> (\<forall>i<n. r (a + 1 + i) = Some (cs ! i))"
      unfolding Cons by (auto simp: less_Suc_eq_0_disj)
    then show ?thesis
      using Suc.IH [of "a + 1" cs] Cons by (auto split: option.splits)
  qed (auto split: option.splits)
qed auto

lemma fetch_part:
  assumes "fetch n r a = Some bs" and "i + k \<le> n"
  shows "fetch k r (a + i) = Some (take k (drop i bs))"
  using assms by (auto simp: fetch_Some_iff add.assoc)

lemma fetch_put_bytes_same: "fetch (length bs) (put_bytes r a bs) a = Some bs"
  by (simp add: fetch_Some_iff put_bytes_def)

lemma fetch_put_bytes_other:
  "a + n \<le> b \<or> b + length bs \<le> a \<Longrightarrow> fetch n (put_bytes r b bs) a = fetch n r a"
proof (induction n arbitrary: a)
  case (Suc n)
  then have "put_bytes r b bs a = r a" by (auto simp: put_bytes_def)
  moreover have "fetch n (put_bytes r b bs) (a + 1) = fetch n r (a + 1)"
    using Suc by (cases "n = 0") auto
  ultimately show ?case by (simp split: option.splits)
qed simp

lemma put_bytes_id: "fetch (length bs) r a = Some bs \<Longrightarrow> put_bytes r a bs = r"
  unfolding fetch_Some_iff put_bytes_def by (rule ext) (metis le_add_diff_inverse nat_add_left_cancel_less)

lemma put_bytes_twice: "length bs = length cs \<Longrightarrow> put_bytes (put_bytes r a bs) a cs = put_bytes r a cs"
  by (rule ext) (simp add: put_bytes_def)

lemma put_bytes_inside:
  assumes "fetch (length p) r a = Some p" and "i + length bs \<le> length p"
  shows "put_bytes r (a + i) bs = put_bytes r a (take i p @ bs @ drop (i + length bs) p)"
proof
  fix x
  have l: "length (take i p @ bs @ drop (i + length bs) p) = length p" using assms(2) by simp
  show "put_bytes r (a + i) bs x = put_bytes r a (take i p @ bs @ drop (i + length bs) p) x"
  proof (cases "a \<le> x \<and> x < a + length p")
    case True
    then obtain j where x: "x = a + j" and j: "j < length p" by (metis le_Suc_ex nat_add_left_cancel_less)
    have "r x = Some (p ! j)" using assms(1) j unfolding x fetch_Some_iff by blast
    then show ?thesis
      using True j assms(2) unfolding put_bytes_def l x by (auto simp: nth_append)
  next
    case False
    then show ?thesis using assms(2) unfolding put_bytes_def l by auto
  qed
qed


section \<open>Byte swaps\<close>

lemma le_word_Cons:
  "8 \<le> LENGTH('a) \<Longrightarrow> (of_nat (le_nat (b # bs)) :: 'a::len word) = ucast b OR push_bit 8 (of_nat (le_nat bs))"
proof -
  assume l: "8 \<le> LENGTH('a)"
  have p: "(of_nat (256 * n) :: 'a word) = push_bit 8 (of_nat n)" for n
    by (simp add: push_bit_eq_mult)
  have "(of_nat (le_nat (b # bs)) :: 'a word) = of_nat (unat b) + of_nat (256 * le_nat bs)"
    by simp
  also have "\<dots> = ucast b + push_bit 8 (of_nat (le_nat bs))"
    unfolding p by (simp add: unsigned_of_nat [symmetric] word_of_nat_eq_iff)
  also have "\<dots> = ucast b OR push_bit 8 (of_nat (le_nat bs))"
    by (rule disjunctive_add) (auto simp: bit_simps dest: bit_imp_le_length)
  finally show ?thesis .
qed

lemma byte_masks:
  "(0x00ff :: u16) = mask 8" "(0xff00 :: u16) = push_bit 8 (mask 8)"
  "(0x000000ff :: u32) = mask 8" "(0x0000ff00 :: u32) = push_bit 8 (mask 8)"
  "(0x00ff0000 :: u32) = push_bit 16 (mask 8)" "(0xff000000 :: u32) = push_bit 24 (mask 8)"
  by (simp_all add: mask_eq_exp_minus_1)

lemma bswap16_bytes: "bswap16 (of_nat (le_nat [a, b])) = of_nat (le_nat [b, a])"
  unfolding bswap16_def byte_masks
  by (intro bit_eqI) (auto simp: le_word_Cons bit_simps simp del: le_nat.simps(2) dest: bit_imp_le_length)

lemma bit_le_word4:
  "bit (of_nat (le_nat [a, b, c, d]) :: u32) n \<longleftrightarrow>
    (if n < 8 then bit a n else if n < 16 then bit b (n - 8) else if n < 24 then bit c (n - 16)
     else n < 32 \<and> bit d (n - 24))"
  by (auto simp: le_word_Cons bit_simps simp del: le_nat.simps(2) dest: bit_imp_le_length)

lemma bswap32_bits:
  assumes "\<And>n. bit v n \<longleftrightarrow> (if n < 8 then bit a n else if n < 16 then bit b (n - 8) else if n < 24 then bit c (n - 16)
      else n < 32 \<and> bit d (n - 24))"
    and "\<And>n. bit w n \<longleftrightarrow> (if n < 8 then bit d n else if n < 16 then bit c (n - 8) else if n < 24 then bit b (n - 16)
      else n < 32 \<and> bit a (n - 24))"
  shows "bswap32 v = w"
proof (rule bit_eqI)
  fix n
  assume "possible_bit TYPE(u32) n"
  then consider "n < 8" | "8 \<le> n" "n < 16" | "16 \<le> n" "n < 24" | "24 \<le> n" "n < 32"
    unfolding possible_bit_word by force
  then show "bit (bswap32 v) n \<longleftrightarrow> bit w n"
    unfolding bswap32_def byte_masks
    by cases (auto simp: assms bit_simps add.commute)
qed

lemma bswap32_bytes: "bswap32 (of_nat (le_nat [a, b, c, d])) = of_nat (le_nat [d, c, b, a])"
  by (rule bswap32_bits [OF bit_le_word4 bit_le_word4])


text \<open>The two comparisons of the programs, read as comparisons of bytes on the wire.\<close>

lemma ether_type_ip: "bswap16 (of_nat (le_nat [a, b])) = 0x0800 \<longleftrightarrow> [a, b] = [0x08, 0x00]"
proof -
  have "(0x0800 :: u16) = of_nat (le_nat [0x00, 0x08])" by simp
  then show ?thesis
    unfolding bswap16_bytes using le_nat_word_inject [of "[b, a]" "[0x00, 0x08]", where 'a = 16] by auto
qed

lemma saddr_is:
  "bswap32 (of_nat (le_nat [a, b, c, d])) = of_nat (le_nat [d', c', b', a']) \<longleftrightarrow> [a, b, c, d] = [a', b', c', d']"
  unfolding bswap32_bytes
  using le_nat_word_inject [of "[d, c, b, a]" "[d', c', b', a']", where 'a = 32] by auto

section \<open>What the programs do to a packet\<close>

text \<open>The bytes of a packet with the source address \<open>old\<close> of an IPv4 packet replaced by \<open>new\<close>.\<close>

definition nat_src :: "u8 list \<Rightarrow> u8 list \<Rightarrow> u8 list \<Rightarrow> u8 list" where
  "nat_src old new p =
     (if take 2 (drop 12 p) = [0x08, 0x00] \<and> take 4 (drop 26 p) = old
      then take 26 p @ new @ drop 30 p else p)"

text \<open>The descriptor \<open>m\<close> in memory at \<open>a\<close>, as far as the programs look at it, and its packet.\<close>

definition mbuf_at :: "ram \<Rightarrow> u64 \<Rightarrow> rte_mbuf \<Rightarrow> bool" where
  "mbuf_at r a m \<longleftrightarrow>
     fetch 8 r (unat a) = Some (le_bytes 8 (unat (buf_addr m))) \<and>
     fetch 2 r (unat (a + 16)) = Some (le_bytes 2 (unat (data_off m)))"

definition packet_at :: "ram \<Rightarrow> rte_mbuf \<Rightarrow> u8 list \<Rightarrow> bool" where
  "packet_at r m p \<longleftrightarrow>
     fetch (length p) r (unat (rte_pktmbuf_mtod m)) = Some p \<and> 30 \<le> length p \<and>
     unat (rte_pktmbuf_mtod m) + length p \<le> 2 ^ 64"

text \<open>The descriptor and the packet do not overlap.\<close>

definition apart :: "u64 \<Rightarrow> rte_mbuf \<Rightarrow> u8 list \<Rightarrow> bool" where
  "apart a m p \<longleftrightarrow>
     unat a + 18 \<le> 2 ^ 64 \<and>
     (unat a + 18 \<le> unat (rte_pktmbuf_mtod m) \<or> unat (rte_pktmbuf_mtod m) + length p \<le> unat a)"

lemma length_nat_src [simp]: "length new = 4 \<Longrightarrow> 30 \<le> length p \<Longrightarrow> length (nat_src old new p) = length p"
  by (simp add: nat_src_def)

lemma nat_src_back:
  assumes "length new = 4" and "30 \<le> length p"
    and "take 2 (drop 12 p) = [0x08, 0x00] \<Longrightarrow> take 4 (drop 26 p) \<noteq> new"
  shows "nat_src new old (nat_src old new p) = p"
  using assms take_add [of 26 4 p] append_take_drop_id [of 30 p]
  by (auto simp: nat_src_def drop_take simp flip: append_assoc)

lemma peek_fetch: "fetch n r (unat a) = Some bs \<Longrightarrow> peek n r a = ret (le_nat bs)"
  by (simp add: peek_def)

lemma offset_buf_addr: "offset_of x86_64 ''buf_addr'' = 0" and offset_data_off: "offset_of x86_64 ''data_off'' = 16"
  by (simp_all add: offset_of_def rte_mbuf_members_def x86_64_def align_up_def)

lemma mtod_mbuf: "mbuf_at r a m \<Longrightarrow> mtod r a = ret (rte_pktmbuf_mtod m)"
proof -
  assume m: "mbuf_at r a m"
  have "unat (buf_addr m) < 256 ^ 8" using unat_word_less [of "buf_addr m"] by simp
  moreover have "unat (data_off m) < 256 ^ 2" using unat_word_less [of "data_off m"] by simp
  ultimately have "peek 8 r a = ret (unat (buf_addr m))" "peek 2 r (a + 16) = ret (unat (data_off m))"
    using m by (simp_all add: mbuf_at_def peek_def le_nat_le_bytes_id)
  then show ?thesis
    by (simp add: mtod_def offset_buf_addr offset_data_off rte_pktmbuf_mtod_def rte_pktmbuf_mtod_offset_def)
qed

text \<open>The two programs are one function of the two addresses they name.\<close>

definition saddr_prog :: "u32 \<Rightarrow> u32 \<Rightarrow> ram \<Rightarrow> u64 \<Rightarrow> (u64 \<times> ram) io" where
  "saddr_prog old new r pkt =
     io_bind (mtod r pkt) (\<lambda>eh.
     io_bind (peek 2 r (eh + 12)) (\<lambda>ether_type.
       if bswap16 (of_nat ether_type) \<noteq> 0x0800 then ret (0, r)
       else let ih = eh + 14 in
       io_bind (peek 4 r (ih + 12)) (\<lambda>saddr.
         if bswap32 (of_nat saddr) = old then
           io_bind (poke 4 r (ih + 12) (unat (bswap32 new))) (\<lambda>r. ret (0, r))
         else ret (0, r))))"

lemma saddr_prog_effect:
  assumes m: "mbuf_at r a m" and p: "packet_at r m p"
    and old: "length old = 4" and new: "length new = 4"
  shows "saddr_prog (of_nat (le_nat (rev old))) (of_nat (le_nat (rev new))) r a =
    ret (0, put_bytes r (unat (rte_pktmbuf_mtod m)) (nat_src old new p))"
proof -
  let ?d = "rte_pktmbuf_mtod m"
  have f: "fetch (length p) r (unat ?d) = Some p" and l: "30 \<le> length p" and w: "unat ?d + length p \<le> 2 ^ 64"
    using p by (simp_all add: packet_at_def)
  have u: "unat (?d + 12) = unat ?d + 12" "unat (?d + 26) = unat ?d + 26"
    using unat_plus [of ?d 12] unat_plus [of ?d 26] l w by simp_all
  have e2: "fetch 2 r (unat (?d + 12)) = Some (take 2 (drop 12 p))"
    and e4: "fetch 4 r (unat (?d + 26)) = Some (take 4 (drop 26 p))"
    unfolding u using l by (auto intro: fetch_part [OF f])
  obtain x y where xy: "take 2 (drop 12 p) = [x, y]" using list2 [of "take 2 (drop 12 p)"] l by auto
  obtain s1 s2 s3 s4 where s: "take 4 (drop 26 p) = [s1, s2, s3, s4]" using list4 [of "take 4 (drop 26 p)"] l by auto
  obtain o1 o2 o3 o4 where o: "old = [o1, o2, o3, o4]" using list4 [OF old] by blast
  obtain n1 n2 n3 n4 where n: "new = [n1, n2, n3, n4]" using list4 [OF new] by blast
  have "unat (bswap32 (of_nat (le_nat (rev new)))) = le_nat new"
    using le_nat_less [of new] bswap32_bytes [of n4 n3 n2 n1] unfolding n by (simp add: unat_of_nat_small del: le_nat.simps)
  then have k: "poke 4 r (?d + 26) (unat (bswap32 (of_nat (le_nat (rev new))))) =
      ret (put_bytes r (unat ?d) (take 26 p @ new @ drop 30 p))"
    using e4 put_bytes_inside [OF f, of 26 new] new l le_bytes_le_nat [of new] by (simp add: poke_def u)
  have run: "saddr_prog (of_nat (le_nat (rev old))) (of_nat (le_nat (rev new))) r a =
     (if bswap16 (of_nat (le_nat [x, y])) \<noteq> 0x0800 then ret (0, r)
      else if bswap32 (of_nat (le_nat [s1, s2, s3, s4])) = of_nat (le_nat (rev old)) then
        io_bind (poke 4 r (?d + 26) (unat (bswap32 (of_nat (le_nat (rev new)))))) (\<lambda>r. ret (0, r))
      else ret (0, r))"
    unfolding saddr_prog_def mtod_mbuf [OF m]
    using e2 e4 by (simp add: peek_fetch xy s add.assoc del: le_nat.simps)
  have "bswap32 (of_nat (le_nat [s1, s2, s3, s4])) = of_nat (le_nat (rev old)) \<longleftrightarrow> take 4 (drop 26 p) = old"
    unfolding s using saddr_is [of s1 s2 s3 s4 o4 o3 o2 o1] by (simp add: o del: le_nat.simps)
  then show ?thesis
    unfolding run ether_type_ip using put_bytes_id [OF f] by (simp add: k nat_src_def xy)
qed


section \<open>The contract of an address rewriter\<close>

locale saddr_rewriter =
  fixes prog :: "ram \<Rightarrow> u64 \<Rightarrow> (u64 \<times> ram) io" and old new :: "u8 list"
  assumes length_old: "length old = 4" and length_new: "length new = 4"
    and effect: "mbuf_at r a m \<Longrightarrow> packet_at r m p \<Longrightarrow>
      prog r a = ret (0, put_bytes r (unat (rte_pktmbuf_mtod m)) (nat_src old new p))"
begin

lemma packet_after: "packet_at r m p \<Longrightarrow> packet_at (put_bytes r (unat (rte_pktmbuf_mtod m)) (nat_src old new p)) m (nat_src old new p)"
  using length_new fetch_put_bytes_same [of "nat_src old new p"] by (simp add: packet_at_def)

lemma mbuf_after:
  assumes "mbuf_at r a m" and "packet_at r m p" and "apart a m p"
  shows "mbuf_at (put_bytes r (unat (rte_pktmbuf_mtod m)) (nat_src old new p)) a m"
proof -
  have "unat (a + 16) = unat a + 16" using unat_plus [of a 16] assms(3) by (simp add: apart_def)
  moreover have "length (nat_src old new p) = length p" using assms(2) length_new by (simp add: packet_at_def)
  ultimately show ?thesis
    using assms(1,3) unfolding mbuf_at_def apart_def by (auto simp: fetch_put_bytes_other)
qed

lemma untouched: "mbuf_at r a m \<Longrightarrow> packet_at r m p \<Longrightarrow> nat_src old new p = p \<Longrightarrow> prog r a = ret (0, r)"
  by (simp add: effect put_bytes_id packet_at_def)

end

text \<open>Two rewriters in opposite directions: the second takes back what the first did.\<close>

locale rewriter_pair =
  first: saddr_rewriter there_prog old new + second: saddr_rewriter back_prog new old
  for there_prog back_prog :: "ram \<Rightarrow> u64 \<Rightarrow> (u64 \<times> ram) io" and old new :: "u8 list"
begin

lemma there_and_back:
  assumes "mbuf_at r a m" and "packet_at r m p" and "apart a m p"
    and "take 2 (drop 12 p) = [0x08, 0x00] \<Longrightarrow> take 4 (drop 26 p) \<noteq> new"
  shows "io_bind (there_prog r a) (\<lambda>(x, r). back_prog r a) = ret (0, r)"
proof -
  have "nat_src new old (nat_src old new p) = p"
    using assms(2,4) first.length_new by (intro nat_src_back) (simp_all add: packet_at_def)
  then show ?thesis
    using first.effect [OF assms(1,2)] assms(2) first.length_new
      second.effect [OF first.mbuf_after [OF assms(1-3)] first.packet_after [OF assms(2)]]
    by (simp add: put_bytes_twice put_bytes_id packet_at_def)
qed

end

interpretation t2: saddr_rewriter t2_eentry "[10, 0, 0, 2]" "[10, 0, 0, 20]"
proof
  have "t2_eentry r a = saddr_prog (of_nat (le_nat (rev [10, 0, 0, 2]))) (of_nat (le_nat (rev [10, 0, 0, 20]))) r a" for r a
    by (simp add: t2_eentry_def saddr_prog_def)
  then show "mbuf_at r a m \<Longrightarrow> packet_at r m p \<Longrightarrow>
      t2_eentry r a = ret (0, put_bytes r (unat (rte_pktmbuf_mtod m)) (nat_src [10, 0, 0, 2] [10, 0, 0, 20] p))" for r a m p
    using saddr_prog_effect [of r a m p "[10, 0, 0, 2]" "[10, 0, 0, 20]"] by simp
qed simp_all

interpretation t3: saddr_rewriter t3_eentry "[10, 0, 0, 20]" "[10, 0, 0, 2]"
proof
  have "t3_eentry r a = saddr_prog (of_nat (le_nat (rev [10, 0, 0, 20]))) (of_nat (le_nat (rev [10, 0, 0, 2]))) r a" for r a
    by (simp add: t3_eentry_def saddr_prog_def)
  then show "mbuf_at r a m \<Longrightarrow> packet_at r m p \<Longrightarrow>
      t3_eentry r a = ret (0, put_bytes r (unat (rte_pktmbuf_mtod m)) (nat_src [10, 0, 0, 20] [10, 0, 0, 2] p))" for r a m p
    using saddr_prog_effect [of r a m p "[10, 0, 0, 20]" "[10, 0, 0, 2]"] by simp
qed simp_all

interpretation t2_t3: rewriter_pair t2_eentry t3_eentry "[10, 0, 0, 2]" "[10, 0, 0, 20]"
  by unfold_locales

text \<open>A descriptor at address 4096 whose packet of 34 bytes lies at 8192.\<close>

definition sample_ip :: "u8 list" where
  "sample_ip = replicate 12 0 @ [0x08, 0x00] @ replicate 12 0 @ [10, 0, 0, 2] @ [10, 0, 0, 9]"

definition sample_mbuf :: rte_mbuf where
  "sample_mbuf = \<lparr>buf_addr = 8064, buf_physaddr = 0, data_off = 128, refcnt = 1, nb_segs = 1, mbuf_port = 0,
     ol_flags = 0, packet_type = 0, pkt_len = 34, data_len = 34, vlan_tci = 0, hash = 0, vlan_tci_outer = 0,
     buf_len = 2176, timestamp = 0, udata64 = 0, pool = 0, next_seg = 0, tx_offload = 0, priv_size = 0,
     timesync = 0, seqn = 0\<rparr>"

definition sample_ram :: ram where
  "sample_ram = put_bytes (put_bytes (put_bytes Map.empty 4096 (le_bytes 8 8064)) 4112 (le_bytes 2 128)) 8192 sample_ip"

lemma sample_ok: "mbuf_at sample_ram 4096 sample_mbuf" "packet_at sample_ram sample_mbuf sample_ip"
  "apart 4096 sample_mbuf sample_ip"
proof -
  have d: "unat (rte_pktmbuf_mtod sample_mbuf) = 8192" "length sample_ip = 34"
    by (simp_all add: rte_pktmbuf_mtod_def rte_pktmbuf_mtod_offset_def sample_mbuf_def sample_ip_def)
  show "mbuf_at sample_ram 4096 sample_mbuf"
    using fetch_put_bytes_same [of "le_bytes 8 8064"] fetch_put_bytes_same [of "le_bytes 2 128"]
    by (simp add: mbuf_at_def sample_ram_def sample_mbuf_def fetch_put_bytes_other)
  show "packet_at sample_ram sample_mbuf sample_ip" "apart 4096 sample_mbuf sample_ip"
    using fetch_put_bytes_same [of sample_ip]
    by (simp_all add: packet_at_def apart_def sample_ram_def d del: One_nat_def)
qed

section \<open>What a dump prints\<close>

fun ins_text :: "(u64 \<Rightarrow> u64) \<Rightarrow> nat \<Rightarrow> u64 list \<Rightarrow> string" where
  "ins_text bswap i [] = []"
| "ins_text bswap i (x # xs) =
     ''  0x'' @ fmt_0x 4 (i * 8) @ '': '' @ fmt_0x 16 (unat (bswap x)) @ [CHR 0x0A] @ ins_text bswap (i + 1) xs"

lemma dump_ins_run: "snd (dump_ins bswap i xs) = Inr ()"
  "text_on f (fst (dump_ins bswap i xs)) = (if f = Std_out then ins_text bswap i xs else [])"
  by (induction xs arbitrary: i) auto

lemma rte_bpf_dump_returns: "snd (rte_bpf_dump D f b) = Inr ()"
  by (simp add: rte_bpf_dump_def dump_ins_run)

lemma rte_bpf_dump_text: "text_on g (fst (rte_bpf_dump D f b)) =
   (if g = f then ''bpf </pmd/md/t.o>@'' @ [CHR 0x0A] else []) @ (if g = Std_out then ins_text (rte_bswap64 D) 0 (ins (prm b)) else [])"
  by (simp add: rte_bpf_dump_def dump_ins_run)

section \<open>Properties\<close>

text \<open>
  The byte swaps are the reversal of the bytes in memory, and each is its own inverse.
\<close>

theorem bswaps_reverse_bytes:
  "bswap16 (of_nat (le_nat [a, b])) = of_nat (le_nat [b, a]) \<and>
   bswap32 (of_nat (le_nat [a, b, c, d])) = of_nat (le_nat [d, c, b, a]) \<and>
   bswap16 (bswap16 v) = v \<and> bswap32 (bswap32 w) = w"
proof (intro conjI bswap16_bytes bswap32_bytes)
  have v: "of_nat (le_nat (le_bytes 2 (unat v))) = v" and w: "of_nat (le_nat (le_bytes 4 (unat w))) = w"
    using unat_word_less [of v] unat_word_less [of w] by (simp_all add: le_nat_le_bytes_id)
  obtain x y where xy: "le_bytes 2 (unat v) = [x, y]" using list2 [of "le_bytes 2 (unat v)"] by auto
  obtain x1 x2 x3 x4 where x4: "le_bytes 4 (unat w) = [x1, x2, x3, x4]"
    using list4 [of "le_bytes 4 (unat w)"] by auto
  show "bswap16 (bswap16 v) = v" "bswap32 (bswap32 w) = w"
    using bswap16_bytes bswap32_bytes v w unfolding xy x4 by metis+
qed

text \<open>
  C12: \<open>t2\<close> on an IPv4 packet from 10.0.0.2 replaces the four source bytes by 10.0.0.20 and changes no
  other byte of the memory (the header checksum among them); every other packet is left as it is. The
  result is 0 in each case.
\<close>

theorem t2_rewrites_source:
  assumes "mbuf_at r a m" and "packet_at r m p"
  shows "t2_eentry r a =
    ret (0, put_bytes r (unat (rte_pktmbuf_mtod m)) (nat_src [10, 0, 0, 2] [10, 0, 0, 20] p))"
  using assms by (rule t2.effect)

theorem t2_rewrites_source_witness:
  "t2_eentry sample_ram 4096 =
    ret (0, put_bytes sample_ram 8192
      (replicate 12 0 @ [0x08, 0x00] @ replicate 12 0 @ [10, 0, 0, 20] @ [10, 0, 0, 9]))"
proof -
  have "unat (rte_pktmbuf_mtod sample_mbuf) = 8192"
    by (simp add: rte_pktmbuf_mtod_def rte_pktmbuf_mtod_offset_def sample_mbuf_def)
  then show ?thesis
    using t2_rewrites_source [OF sample_ok(1,2)] by (simp add: nat_src_def sample_ip_def)
qed

text \<open>
  C23: \<open>t3\<close> takes back what \<open>t2\<close> did: run one after the other on a packet that did not come from
  10.0.0.20, they leave the memory as it was.
\<close>

theorem t3_undoes_t2:
  assumes "mbuf_at r a m" and "packet_at r m p" and "apart a m p"
    and "take 2 (drop 12 p) = [0x08, 0x00] \<Longrightarrow> take 4 (drop 26 p) \<noteq> [10, 0, 0, 20]"
  shows "io_bind (t2_eentry r a) (\<lambda>(x, r). t3_eentry r a) = ret (0, r)"
  using assms by (rule t2_t3.there_and_back)

theorem t3_undoes_t2_witness:
  "io_bind (t2_eentry sample_ram 4096) (\<lambda>(x, r). t3_eentry r 4096) = ret (0, sample_ram)"
  by (rule t3_undoes_t2 [OF sample_ok]) (simp add: sample_ip_def)

text \<open>
  When the loaded program runs as \<open>t1\<close>, \<open>main\<close> prints the verdict 1 and one line per
  instruction, and returns 0; when nothing is loaded it says so and returns 1.
\<close>

theorem bpf_main_result:
  assumes "\<And>p. rte_bpf_elf_load D p ''./code/t1.o'' ''.text'' = loaded"
    and "\<And>b. loaded = Some b \<Longrightarrow> t1_entry r a = ret (rte_bpf_exec D b bpf_pkt)"
    and "0 \<le> eal"
  shows "snd (bpf_main D eal) = Inr (if loaded = None then 1 else 0) \<and>
    text_on Std_out (fst (bpf_main D eal)) =
      (case loaded of
         None \<Rightarrow> ''MISSED exit'' @ [CHR 0x0A]
       | Some b \<Rightarrow> ''bpfret:1 0x1'' @ [CHR 0x0A] @ ''bpf </pmd/md/t.o>@'' @ [CHR 0x0A] @
           ins_text (rte_bswap64 D) 0 (ins (prm b)))"
proof (cases loaded)
  case None
  then show ?thesis
    using assms(1,3) by (simp add: bpf_main_def mbuf_bpf_elf_load_def)
next
  case (Some b)
  have "rte_bpf_exec D b bpf_pkt = 1" using assms(2) [OF Some] by (simp add: t1_entry_def)
  moreover have "fmt_u 1 = ''1''" "fmt_x 1 = ''1''" by (simp_all add: fmt_u_def fmt_x_def radix.simps hexdigit_def)
  ultimately show ?thesis
    using assms(1,3) Some by (simp add: bpf_main_def mbuf_bpf_elf_load_def rte_bpf_dump_text rte_bpf_dump_returns)
qed

theorem bpf_main_result_witness:
  "snd (bpf_main \<lparr>rte_bpf_elf_load = \<lambda>_ _ _. None, rte_bpf_exec = \<lambda>_ _. 0, rte_bswap64 = \<lambda>x. x,
     sizeof_rte_mbuf = 128, headroom = 128, file_name = ''bpf.h''\<rparr> 0) = Inr 1"
  using bpf_main_result [of "\<lparr>rte_bpf_elf_load = \<lambda>_ _ _. None, rte_bpf_exec = \<lambda>_ _. 0, rte_bswap64 = \<lambda>x. x,
     sizeof_rte_mbuf = 128, headroom = 128, file_name = ''bpf.h''\<rparr>" None undefined undefined 0] by simp

text \<open>
  A dump to a stream other than the standard output leaves only its first line there; the
  instructions go to the standard output in every case.
\<close>

theorem bpf_dump_ignores_file:
  "text_on Std_err (fst (rte_bpf_dump D Std_err b)) = ''bpf </pmd/md/t.o>@'' @ [CHR 0x0A] \<and>
   text_on Std_out (fst (rte_bpf_dump D Std_err b)) = ins_text (rte_bswap64 D) 0 (ins (prm b))"
  by (simp add: rte_bpf_dump_text)

end
