(* ===== verification/Bpf_Checksum.thy ===== *)
theory Bpf_Checksum
  imports Bpf
begin

text \<open>
  What the address rewriters leave undone: the checksum of the IPv4 header (RFC 1071, RFC 791), as the
  receiver of a packet computes it.
\<close>

section \<open>The checksum of a header\<close>

text \<open>The sum of the 16-bit words in network order, and its folding into 16 bits with end-around carry.\<close>

fun word_sum :: "u8 list \<Rightarrow> nat" where
  "word_sum (a # b # bs) = 256 * unat a + unat b + word_sum bs"
| "word_sum [a] = 256 * unat a"
| "word_sum [] = 0"

function fold16 :: "nat \<Rightarrow> nat" where
  "fold16 s = (if s < 2 ^ 16 then s else fold16 (s mod 2 ^ 16 + s div 2 ^ 16))"
  by pat_completeness auto
termination
proof (relation "measure id")
  fix s :: nat
  assume "\<not> s < 2 ^ 16"
  then have "0 < s div 65536" by (simp add: div_greater_zero_iff)
  moreover have "s mod 65536 + 65536 * (s div 65536) = s" by simp
  ultimately have "s mod 65536 + s div 65536 < s" by linarith
  then show "(s mod 2 ^ 16 + s div 2 ^ 16, s) \<in> measure id" by simp
qed simp

declare fold16.simps [simp del]

definition header_ok :: "u8 list \<Rightarrow> bool" where
  "header_ok h \<longleftrightarrow> fold16 (word_sum h) = 0xffff"

text \<open>Folding keeps the remainder modulo \<open>2 ^ 16 - 1\<close>, and only zero folds to zero.\<close>

lemma fold_step_mod: "(s mod 65536 + s div 65536) mod 65535 = s mod 65535" for s :: nat
proof -
  have "s = (s mod 65536 + s div 65536) + 65535 * (s div 65536)"
    using mod_mult_div_eq [of s 65536] by linarith
  then show ?thesis by (metis mod_mult_self2)
qed

lemma fold_step_zero: "s mod 65536 + s div 65536 = 0 \<longleftrightarrow> s = 0" for s :: nat
  using mod_mult_div_eq [of s 65536] by auto

lemma fold16_facts: "fold16 s mod 65535 = s mod 65535 \<and> (fold16 s = 0 \<longleftrightarrow> s = 0) \<and> fold16 s < 65536"
proof (induction s rule: fold16.induct)
  case (1 s)
  show ?case
  proof (cases "s < 2 ^ 16")
    case True
    then show ?thesis by (simp add: fold16.simps [of s])
  next
    case False
    have "fold16 s = fold16 (s mod 65536 + s div 65536)" using False by (subst fold16.simps) simp
    moreover note "1.IH" [OF False]
    ultimately show ?thesis using fold_step_mod [of s] fold_step_zero [of s] by simp
  qed
qed

lemmas fold16_mod = fold16_facts [THEN conjunct1] and fold16_zero = fold16_facts [THEN conjunct2, THEN conjunct1]
  and fold16_less = fold16_facts [THEN conjunct2, THEN conjunct2]

lemma header_ok_iff: "header_ok h \<longleftrightarrow> 0 < word_sum h \<and> word_sum h mod 65535 = 0"
proof -
  let ?s = "word_sum h"
  have "fold16 ?s = 65535 \<longleftrightarrow> fold16 ?s \<noteq> 0 \<and> fold16 ?s mod 65535 = 0"
  proof
    assume z: "fold16 ?s \<noteq> 0 \<and> fold16 ?s mod 65535 = 0"
    show "fold16 ?s = 65535"
    proof (rule ccontr)
      assume "fold16 ?s \<noteq> 65535"
      then have "fold16 ?s < 65535" using fold16_less [of ?s] by simp
      with z show False by auto
    qed
  qed simp
  then show ?thesis using fold16_mod [of ?s] fold16_zero [of ?s] by (simp add: header_ok_def)
qed

lemma word_sum_append: "even (length xs) \<Longrightarrow> word_sum (xs @ ys) = word_sum xs + word_sum ys"
  by (induction xs rule: word_sum.induct) auto

section \<open>A rewritten header\<close>

text \<open>Bytes 12 to 15 of the header, at 26 in the packet, are the source address.\<close>

lemma rewritten_header:
  assumes "take 2 (drop 12 p) = [0x08, 0x00]" and "take 4 (drop 26 p) = old" and "length new = 4" and "30 \<le> length p"
    and "16 \<le> n"
  shows "word_sum (take n (drop 14 (nat_src old new p))) + word_sum old = word_sum (take n (drop 14 p)) + word_sum new"
proof -
  define A B where "A = take 12 (drop 14 p)" and "B = take (n - 16) (drop 30 p)"
  have A: "length A = 12" using assms(4) by (simp add: A_def)
  have old: "length old = 4" using assms(2,4) by auto
  have "drop 14 p = A @ old @ drop 30 p"
    using assms(2) append_take_drop_id [of 12 "drop 14 p"] append_take_drop_id [of 4 "drop 26 p"] by (simp add: A_def)
  then have h: "take n (drop 14 p) = A @ old @ B" using A old assms(5) by (simp add: B_def)
  have "nat_src old new p = take 26 p @ new @ drop 30 p" using assms(1,2) by (simp add: nat_src_def)
  moreover have "drop 14 (take 26 p) = A" by (simp add: A_def drop_take)
  ultimately have "drop 14 (nat_src old new p) = A @ new @ drop 30 p" using assms(4) by simp
  then have "take n (drop 14 (nat_src old new p)) = A @ new @ B" using A assms(3,5) by (simp add: B_def)
  then show ?thesis by (simp add: h word_sum_append A old assms(3))
qed

section \<open>Properties\<close>

text \<open>
  C13: \<open>t2\<close> makes every packet it rewrites invalid: an IPv4 packet from 10.0.0.2 whose header checksum is
  right (whatever the header's length) has a wrong one afterwards, because the checksum is not updated.
\<close>

theorem t2_breaks_checksum:
  assumes "mbuf_at r a m" and "packet_at r m p"
    and "take 2 (drop 12 p) = [0x08, 0x00]" and "take 4 (drop 26 p) = [10, 0, 0, 2]"
    and "20 \<le> n" and "header_ok (take n (drop 14 p))"
  shows "\<exists>r' p'. t2_eentry r a = ret (0, r') \<and> packet_at r' m p' \<and> take 4 (drop 26 p') = [10, 0, 0, 20] \<and>
    \<not> header_ok (take n (drop 14 p'))"
proof -
  let ?p' = "nat_src [10, 0, 0, 2] [10, 0, 0, 20] p"
  have l: "30 \<le> length p" using assms(2) by (simp add: packet_at_def)
  have "word_sum (take n (drop 14 ?p')) = word_sum (take n (drop 14 p)) + 18"
    using rewritten_header [OF assms(3,4), of "[10, 0, 0, 20]" n] l assms(5) by simp
  moreover have "word_sum (take n (drop 14 p)) mod 65535 = 0" using assms(6) by (simp add: header_ok_iff)
  ultimately have "word_sum (take n (drop 14 ?p')) mod 65535 = 18"
    using mod_add_left_eq [of "word_sum (take n (drop 14 p))" 65535 18] by simp
  then have "\<not> header_ok (take n (drop 14 ?p'))" by (simp add: header_ok_iff)
  moreover have "take 4 (drop 26 ?p') = [10, 0, 0, 20]" using assms(3,4) l by (simp add: nat_src_def)
  ultimately show ?thesis
    using t2.effect [OF assms(1,2)] t2.packet_after [OF assms(2)] by blast
qed

text \<open>A header of 20 bytes from 10.0.0.2 to 10.0.0.9 with the checksum 0x66cf.\<close>

definition checked_ip :: "u8 list" where
  "checked_ip = replicate 12 0 @ [0x08, 0x00] @
     [0x45, 0x00, 0x00, 0x14, 0x00, 0x00, 0x00, 0x00, 0x40, 0x11, 0x66, 0xcf, 10, 0, 0, 2, 10, 0, 0, 9]"

definition checked_ram :: ram where
  "checked_ram = put_bytes sample_ram 8192 checked_ip"

lemma checked_ok: "mbuf_at checked_ram 4096 sample_mbuf" "packet_at checked_ram sample_mbuf checked_ip"
proof -
  have d: "unat (rte_pktmbuf_mtod sample_mbuf) = 8192" "length checked_ip = 34"
    by (simp_all add: rte_pktmbuf_mtod_def rte_pktmbuf_mtod_offset_def sample_mbuf_def checked_ip_def)
  show "mbuf_at checked_ram 4096 sample_mbuf"
    using sample_ok(1) by (simp add: mbuf_at_def checked_ram_def fetch_put_bytes_other d)
  show "packet_at checked_ram sample_mbuf checked_ip"
    using fetch_put_bytes_same [of checked_ip] by (simp add: packet_at_def checked_ram_def d)
qed

theorem t2_breaks_checksum_witness:
  "header_ok (take 20 (drop 14 checked_ip)) \<and>
   (\<exists>r' p'. t2_eentry checked_ram 4096 = ret (0, r') \<and> packet_at r' sample_mbuf p' \<and> \<not> header_ok (take 20 (drop 14 p')))"
proof -
  have h: "header_ok (take 20 (drop 14 checked_ip))" by (simp add: header_ok_iff checked_ip_def)
  have "take 2 (drop 12 checked_ip) = [0x08, 0x00]" "take 4 (drop 26 checked_ip) = [10, 0, 0, 2]"
    by (simp_all add: checked_ip_def)
  from t2_breaks_checksum [OF checked_ok this _ h] h show ?thesis by auto
qed

end
