(* ===== verification/Dpdk.thy ===== *)
theory Dpdk
  imports CString Mbuf
begin

text \<open>
  What the DPDK programs (\<open>yak\<close>, \<open>chained_mbuf\<close>, \<open>ip_reassembly\<close>) share. A packet buffer is known by
  a number, its memory is a descriptor and the bytes of its data room. The DPDK functions and the
  system calls are not part of the repository: a program is modelled by the calls it makes, in order,
  each with the answer the environment gave, and the answers are arguments of the definitions. The
  documented contract of the calls, who owns which buffer, is \<open>held_step\<close>.
\<close>

section \<open>Calls\<close>

record eth_conf =
  rx_mq_mode :: u32
  max_rx_pkt_len :: u32
  header_split :: bool
  jumbo_frame :: bool
  enable_scatter :: bool
  ignore_offload_bitfield :: bool
  tx_mq_mode :: u32

text \<open>\<open>struct ifreq\<close>: the name and the bytes of its union.\<close>

record ifreq =
  ifr_name :: string
  ifr_ifru :: "u8 list"

text \<open>What sets a program up and takes it down; the answer of the environment is the last argument.\<close>

datatype config_call =
    Dev_configure u8 nat nat eth_conf int
  | Rxq_setup u8 nat nat nat int
  | Txq_setup u8 nat nat u32 int
  | Dev_start u8 int
  | Dev_stop u16
  | Promiscuous_enable u8
  | Open_tun int
  | Ioctl int string ifreq int
  | Socket int
  | Close_fd int
  | Malloc bool
  | Pool_create string nat nat nat "nat option"
  | Pool_free nat
  | Ring_create string nat "nat option"
  | Ring_free nat
  | Frag_table_create u32 u32 u32 u64 "nat option"
  | Frag_table_destroy nat
  | Pcap_open string bool
  | Pcap_close

datatype call =
    Out stream string
  | Exit_msg string
  | Alloc "nat option"
  | Free nat
  | Dump nat u32
  | Read_fd int u64
  | Write_fd int nat "u8 list"
  | Enqueue nat nat int
  | Dequeue nat "nat list"
  | Tx u16 nat u16
  | Rx u16 "nat list"
  | Chain nat nat
  | Linearize nat int
  | Reassemble nat "nat option"
  | Pcap_next
  | Setup config_call

type_synonym 'a prog = "(call, 'a) eff"

definition call :: "call \<Rightarrow> unit prog" where
  "call c = ([c], Inr ())"

abbreviation setup_call :: "config_call \<Rightarrow> unit prog" where
  "setup_call c \<equiv> call (Setup c)"

text \<open>\<open>rte_exit (EXIT_FAILURE, msg)\<close>; the messages of the programs all end with a newline.\<close>

definition rte_exit :: "string \<Rightarrow> 'a prog" where
  "rte_exit msg = io_bind (call (Exit_msg (msg @ [CHR 0x0A]))) (\<lambda>_. stop (Exit 1))"

section \<open>Packet buffers\<close>

record seg =
  desc :: rte_mbuf
  room :: mem

type_synonym store = "nat \<Rightarrow> seg"

text \<open>
  The bytes a pointer from \<open>rte_pktmbuf_mtod\<close> leads to are those of the data room from \<open>data_off\<close> on.
  Reading or writing beyond the room is a fault.
\<close>

definition data_at :: "seg \<Rightarrow> nat" where
  "data_at s = unat (data_off (desc s))"

definition read_data :: "seg \<Rightarrow> nat \<Rightarrow> u8 list prog" where
  "read_data s n =
     (if data_at s + n \<le> length (room s) then ret (take n (drop (data_at s) (room s))) else stop Read_OOB)"

definition write_data :: "seg \<Rightarrow> u8 list \<Rightarrow> seg prog" where
  "write_data s bs =
     (if data_at s + length bs \<le> length (room s)
      then ret (s\<lparr>room := take (data_at s) (room s) @ bs @ drop (data_at s + length bs) (room s)\<rparr>)
      else stop Write_OOB)"

definition htons :: "u16 \<Rightarrow> u16" where
  "htons v = push_bit 8 v OR drop_bit 8 v"

text \<open>\<open>m->pkt_len = m->data_len = len\<close> and the two assignments in the other order.\<close>

definition set_lens :: "u16 \<Rightarrow> u32 \<Rightarrow> seg \<Rightarrow> seg" where
  "set_lens dlen plen s = s\<lparr>desc := (desc s)\<lparr>data_len := dlen, pkt_len := plen\<rparr>\<rparr>"

section \<open>Who owns a buffer\<close>

text \<open>
  The buffers a thread holds before and after a call, as the documentation of the calls has it:
  \<open>None\<close> when the thread uses a buffer that is not its own. \<open>rte_eth_tx_burst\<close> takes the buffer when
  it answers 1, \<open>rte_ring_enqueue\<close> when it answers 0; \<open>rte_pktmbuf_chain\<close> makes the second buffer a
  segment of the first; the reassembly takes the fragment and may give a packet.
\<close>

fun held_step :: "call \<Rightarrow> nat set \<Rightarrow> nat set option" where
  "held_step (Alloc (Some p)) H = Some (insert p H)"
| "held_step (Free p) H = (if p \<in> H then Some (H - {p}) else None)"
| "held_step (Dump p n) H = (if p \<in> H then Some H else None)"
| "held_step (Write_fd fd p bs) H = (if p \<in> H then Some H else None)"
| "held_step (Enqueue r p res) H = (if p \<in> H then Some (if res = 0 then H - {p} else H) else None)"
| "held_step (Dequeue r ps) H = Some (H \<union> set ps)"
| "held_step (Tx pid p n) H = (if p \<in> H then Some (if n = 1 then H - {p} else H) else None)"
| "held_step (Rx pid ps) H = Some (H \<union> set ps)"
| "held_step (Chain p q) H = (if p \<in> H \<and> q \<in> H \<and> p \<noteq> q then Some (H - {q}) else None)"
| "held_step (Linearize p res) H = (if p \<in> H then Some H else None)"
| "held_step (Reassemble p q) H = (if p \<in> H then Some ((H - {p}) \<union> set_option q) else None)"
| "held_step c H = Some H"

fun held_run :: "call list \<Rightarrow> nat set \<Rightarrow> nat set option" where
  "held_run [] H = Some H"
| "held_run (c # cs) H = (case held_step c H of None \<Rightarrow> None | Some H \<Rightarrow> held_run cs H)"

lemma held_run_append:
  "held_run (xs @ ys) H = (case held_run xs H of None \<Rightarrow> None | Some H \<Rightarrow> held_run ys H)"
  by (induction xs arbitrary: H) (auto split: option.splits)

text \<open>A program that ends keeps exactly \<open>H'\<close>; a program that stops has at least misused nothing.\<close>

definition keeps :: "'a prog \<Rightarrow> nat set \<Rightarrow> nat set \<Rightarrow> bool" where
  "keeps m H H' \<longleftrightarrow>
     held_run (fst m) H \<noteq> None \<and> (case snd m of Inl e \<Rightarrow> True | Inr a \<Rightarrow> held_run (fst m) H = Some H')"

named_theorems keeps_rules \<open>ownership of the modelled programs\<close>

lemma fst_call [simp]: "fst (call c) = [c]" and snd_call [simp]: "snd (call c) = Inr ()"
  by (simp_all add: call_def)

lemma snd_rte_exit [simp]: "snd (rte_exit msg) = Inl (Exit 1)"
  and fst_rte_exit [simp]: "fst (rte_exit msg) = [Exit_msg (msg @ [CHR 0x0A])]"
  by (simp_all add: rte_exit_def)

lemma snd_io_seq_call [simp]: "snd (io_bind (call c) f) = snd (f ())"
  and fst_io_seq_call [simp]: "fst (io_bind (call c) f) = c # fst (f ())"
  by (simp_all add: io_bind_def call_def)

lemma io_bind_rte_exit [simp]: "io_bind (rte_exit msg) f = rte_exit msg"
  by (simp add: io_bind_def rte_exit_def call_def stop_def)

lemma rte_exit_neq_ret [simp]: "rte_exit msg \<noteq> ret a" "ret a \<noteq> rte_exit msg"
  by (simp_all add: rte_exit_def io_bind_def call_def stop_def ret_def)

lemma keeps_ret [keeps_rules]: "H = H' \<Longrightarrow> keeps (ret a) H H'"
  and keeps_stop [keeps_rules]: "keeps (stop e) H H'"
  and keeps_exit [keeps_rules]: "keeps (rte_exit msg) H H'"
  by (simp_all add: keeps_def)

lemma keeps_call: "held_step c H = Some H' \<Longrightarrow> keeps (call c) H H'"
  by (simp add: keeps_def)

lemma keeps_bind:
  assumes "keeps m H H1" and "\<And>a. snd m = Inr a \<Longrightarrow> keeps (f a) H1 H2"
  shows "keeps (io_bind m f) H H2"
proof (cases "snd m")
  case (Inl e)
  then show ?thesis using assms(1) by (simp add: keeps_def io_bind_def)
next
  case (Inr a)
  then show ?thesis
    using assms(1) assms(2) [OF Inr] by (auto simp: keeps_def held_run_append split: sum.splits)
qed

lemma keeps_step [keeps_rules]:
  "held_step c H = Some H1 \<Longrightarrow> keeps (f ()) H1 H2 \<Longrightarrow> keeps (io_bind (call c) f) H H2"
  by (rule keeps_bind [OF keeps_call]) simp_all

lemma keeps_quiet:
  "fst m = [] \<Longrightarrow> (\<And>a. snd m = Inr a \<Longrightarrow> keeps (f a) H H2) \<Longrightarrow> keeps (io_bind m f) H H2"
  by (rule keeps_bind [of m H H]) (auto simp: keeps_def split: sum.splits)

lemma keeps_each:
  "(\<And>x. x \<in> set xs \<Longrightarrow> keeps (f x) H H) \<Longrightarrow> keeps (io_each f xs) H H"
  by (induction xs) (auto intro: keeps_rules keeps_bind)

lemma quiet_data [simp]: "fst (read_data s n) = []" "fst (write_data s bs) = []"
  by (simp_all add: read_data_def write_data_def)

lemma quiet_load [simp]: "fst (load16 m a) = []"
  by (simp add: load16_def load_def)

lemma keeps_data [keeps_rules]:
  "(\<And>a. snd (read_data s n) = Inr a \<Longrightarrow> keeps (f a) H H2) \<Longrightarrow> keeps (io_bind (read_data s n) f) H H2"
  "(\<And>a. snd (write_data s bs) = Inr a \<Longrightarrow> keeps (g a) H H2) \<Longrightarrow> keeps (io_bind (write_data s bs) g) H H2"
  "(\<And>a. snd (load16 m i :: u16 prog) = Inr a \<Longrightarrow> keeps (h a) H H2) \<Longrightarrow> keeps (io_bind (load16 m i) h) H H2"
  by (rule keeps_quiet; simp)+

section \<open>The contract of a job\<close>

text \<open>
  A thread repeats a job; a job starts with the buffers \<open>H\<close> and gives back every other buffer it gets,
  whatever the environment answers, as long as the answers are good.
\<close>

locale packet_job =
  fixes job :: "'a \<Rightarrow> unit prog" and good :: "'a \<Rightarrow> bool"
  assumes job_keeps: "good a \<Longrightarrow> keeps (job a) {} {}"
begin

lemma never_misused: "good a \<Longrightarrow> held_run (fst (job a)) {} \<noteq> None"
  using job_keeps by (simp add: keeps_def)

lemma gives_back: "good a \<Longrightarrow> snd (job a) = Inr () \<Longrightarrow> held_run (fst (job a)) {} = Some {}"
  using job_keeps [of a] by (simp add: keeps_def)

lemma rounds: "list_all good as \<Longrightarrow> keeps (io_each job as) {} {}"
  by (intro keeps_each job_keeps) (simp add: list_all_iff)

end

end
