(* ===== verification/Tap.thy ===== *)
theory Tap
  imports Dpdk
begin

text \<open>
  \<open>yak/tap.c\<close>: the host side of a port, a TAP interface. \<open>tap_recv\<close> reads a frame into a fresh
  buffer, \<open>tap_send\<close> writes one and frees it, \<open>tap_alloc\<close> makes the interface, gives it the address
  of the port and sets it up. The kernel's constants are a parameter.
\<close>

section \<open>The code: frames\<close>

text \<open>
  The answers of one \<open>tap_recv\<close>: the buffer \<open>rte_pktmbuf_alloc\<close> gives, with its memory, or \<open>None\<close>
  for NULL; the result of \<open>read\<close> and the bytes it stored.
\<close>

record tap_answers =
  ta_alloc :: "(nat \<times> seg) option"
  ta_len :: int
  ta_data :: "u8 list"

text \<open>
  \<open>rte_pktmbuf_headroom\<close> is a function of DPDK. Its result is subtracted as an \<open>int\<close> and converted to
  the \<open>size_t\<close> that \<open>read\<close> takes.
\<close>

definition tap_recv :: "(rte_mbuf \<Rightarrow> u16) \<Rightarrow> tap_answers \<Rightarrow> int \<Rightarrow> store \<Rightarrow> (nat \<times> store) prog" where
  "tap_recv rte_pktmbuf_headroom A fd st =
     io_bind (call (Alloc (map_option fst (ta_alloc A)))) (\<lambda>_.
     case ta_alloc A of
       None \<Rightarrow> stop Null_Deref
     | Some (m, s) \<Rightarrow>
         io_bind (call (Read_fd fd (of_int (int (unat (buf_len (desc s))) -
           int (unat (rte_pktmbuf_headroom (desc s))))))) (\<lambda>_.
         io_bind (if ta_len A < 0 then ret s else write_data s (ta_data A)) (\<lambda>s.
         if ta_len A < 0 then rte_exit ''tap receive failed''
         else
           let dlen = of_int (ta_len A) in
           ret (m, st(m := set_lens dlen (ucast dlen) s)))))"

definition tap_send :: "int \<Rightarrow> int \<Rightarrow> nat \<Rightarrow> store \<Rightarrow> unit prog" where
  "tap_send result fd m st =
     io_bind (read_data (st m) (unat (pkt_len (desc (st m))))) (\<lambda>bs.
     io_bind (call (Write_fd fd m bs)) (\<lambda>_.
     if result < 0 then rte_exit ''tap send failed''
     else call (Free m)))"

section \<open>The code: the interface\<close>

definition tap_free :: "int \<Rightarrow> unit prog" where
  "tap_free fd = setup_call (Close_fd fd)"

record tun_uapi =
  IFF_TAP :: u16
  IFF_NO_PI :: u16
  IFF_UP :: u16
  ARPHRD_ETHER :: u16

definition IFNAMSIZ :: nat where
  "IFNAMSIZ = 16"

text \<open>A structure of zero bytes; \<open>strncpy (ifr.ifr_name, ifname, n)\<close>; the two views of the union.\<close>

definition ifreq_zero :: ifreq where
  "ifreq_zero = \<lparr>ifr_name = replicate IFNAMSIZ NUL, ifr_ifru = replicate 24 0\<rparr>"

definition strncpy_name :: "string \<Rightarrow> nat \<Rightarrow> ifreq \<Rightarrow> ifreq" where
  "strncpy_name ifname n i =
     i\<lparr>ifr_name := take n (ifname @ replicate n NUL) @ drop n (ifr_name i)\<rparr>"

definition ifr_flags :: "ifreq \<Rightarrow> u16" where
  "ifr_flags i = of_nat (le_nat (take 2 (ifr_ifru i)))"

definition set_ifr_flags :: "u16 \<Rightarrow> ifreq \<Rightarrow> ifreq" where
  "set_ifr_flags f i = i\<lparr>ifr_ifru := le_bytes 2 (unat f) @ drop 2 (ifr_ifru i)\<rparr>"

definition set_ifr_hwaddr :: "u16 \<Rightarrow> u8 list \<Rightarrow> ifreq \<Rightarrow> ifreq" where
  "set_ifr_hwaddr family addr i =
     i\<lparr>ifr_ifru := le_bytes 2 (unat family) @ addr @ drop (2 + length addr) (ifr_ifru i)\<rparr>"

text \<open>The answers of \<open>tap_alloc\<close>; \<open>SIOCGIFFLAGS\<close> also stores the flags.\<close>

record tapif_answers =
  tf_open :: int
  tf_setiff :: int
  tf_hwaddr :: int
  tf_socket :: int
  tf_getflags :: int
  tf_flags :: u16
  tf_setflags :: int

definition tap_alloc :: "tun_uapi \<Rightarrow> tapif_answers \<Rightarrow> string \<Rightarrow> u8 list \<Rightarrow> int prog" where
  "tap_alloc K A ifname hwaddr =
     io_bind (setup_call (Open_tun (tf_open A))) (\<lambda>_.
     if tf_open A < 0 then rte_exit ''Cannot create tap''
     else
       let fd = tf_open A;
           ifr = strncpy_name ifname IFNAMSIZ (set_ifr_flags (IFF_TAP K OR IFF_NO_PI K) ifreq_zero) in
       io_bind (setup_call (Ioctl fd ''TUNSETIFF'' ifr (tf_setiff A))) (\<lambda>_.
       if tf_setiff A < 0 then rte_exit ''ioctl TUNSETIFF failed''
       else
         let ifr = set_ifr_hwaddr (ARPHRD_ETHER K) hwaddr ifr in
         io_bind (setup_call (Ioctl fd ''SIOCSIFHWADDR'' ifr (tf_hwaddr A))) (\<lambda>_.
         if tf_hwaddr A < 0 then rte_exit ''ioctl SIOCSIFHWADDR failed''
         else
           let sock = tf_socket A in
           io_bind (setup_call (Socket sock)) (\<lambda>_.
           let ifr = strncpy_name ifname (IFNAMSIZ - 1) ifreq_zero in
           io_bind (setup_call (Ioctl sock ''SIOCGIFFLAGS'' ifr (tf_getflags A))) (\<lambda>_.
           if tf_getflags A < 0 then rte_exit ''ioctl SIOCGIFFLAGS failed''
           else
             let ifr = set_ifr_flags (tf_flags A OR IFF_UP K) (set_ifr_flags (tf_flags A) ifr) in
             io_bind (setup_call (Ioctl sock ''SIOCSIFFLAGS'' ifr (tf_setflags A))) (\<lambda>_.
             if tf_setflags A < 0 then rte_exit ''ioctl SIOCSIFFLAGS failed''
             else io_bind (setup_call (Close_fd sock)) (\<lambda>_. ret fd)))))))"

section \<open>Lengths\<close>

lemma keeps_tap_send [keeps_rules]: "m \<in> H \<Longrightarrow> keeps (tap_send result fd m st) H (H - {m})"
  unfolding tap_send_def by (auto intro!: keeps_rules keeps_call)

lemma data_at_set_lens [simp]: "data_at (set_lens d p s) = data_at s" "room (set_lens d p s) = room s"
  by (simp_all add: data_at_def set_lens_def)

lemma write_data_ok:
  assumes "write_data s bs = ret s'"
  shows "data_at s + length bs \<le> length (room s)" and "desc s' = desc s" and "length (room s') = length (room s)"
    and "take (length bs) (drop (data_at s) (room s')) = bs"
  using assms by (auto simp: write_data_def data_at_def split: if_splits)

text \<open>What \<open>read\<close> promises: it stores as many bytes as it says and never more than it was asked for.\<close>

definition read_ok :: "(rte_mbuf \<Rightarrow> u16) \<Rightarrow> tap_answers \<Rightarrow> bool" where
  "read_ok hr A \<longleftrightarrow>
     (case ta_alloc A of
        None \<Rightarrow> True
      | Some (m, s) \<Rightarrow> ta_len A < 0 \<or> (ta_len A = int (length (ta_data A)) \<and>
          int (length (ta_data A)) \<le> uint (of_int (int (unat (buf_len (desc s))) - int (unat (hr (desc s)))) :: u64)))"

text \<open>A fresh buffer: its room has \<open>buf_len\<close> bytes and its data begins inside.\<close>

definition fresh_seg :: "seg \<Rightarrow> bool" where
  "fresh_seg s \<longleftrightarrow> length (room s) = unat (buf_len (desc s)) \<and> data_at s \<le> length (room s)"


lemma keeps_tap_recv: "keeps (tap_recv hr A fd st) H (H \<union> set_option (map_option fst (ta_alloc A)))"
  unfolding tap_recv_def
  by (cases "ta_alloc A"; cases "ta_len A < 0") (auto intro!: keeps_rules simp: Let_def)

lemma tap_recv_result:
  assumes "ta_alloc A = Some (m, s)" and "fresh_seg s" and "hr (desc s) = data_off (desc s)" and "read_ok hr A"
    and "0 \<le> ta_len A"
  shows "\<exists>s'. tap_recv hr A fd st =
      ([Alloc (Some m), Read_fd fd (of_nat (unat (buf_len (desc s)) - data_at s))], Inr (m, st(m := s'))) \<and>
    data_at s' = data_at s \<and> length (room s') = length (room s) \<and>
    unat (data_len (desc s')) = length (ta_data A) \<and> unat (pkt_len (desc s')) = length (ta_data A) \<and>
    data_at s' + length (ta_data A) \<le> length (room s') \<and>
    take (length (ta_data A)) (drop (data_at s') (room s')) = ta_data A"
proof -
  let ?n = "unat (buf_len (desc s)) - data_at s"
  have b: "data_at s \<le> unat (buf_len (desc s))" "length (room s) = unat (buf_len (desc s))"
    using assms(2) by (simp_all add: fresh_seg_def)
  then have size: "(of_int (int (unat (buf_len (desc s))) - int (unat (hr (desc s)))) :: u64) = of_nat ?n"
    using assms(3) by (simp add: data_at_def of_nat_diff)
  have "?n < 2 ^ 64" using unat_word_less [of "buf_len (desc s)"] by simp
  then have "uint (of_nat ?n :: u64) = int ?n" using unat_of_nat_small [of ?n, where 'a = 64] uint_nat [of "of_nat ?n :: u64"] by simp
  with assms(1,4,5) size have len: "ta_len A = int (length (ta_data A))" and n: "length (ta_data A) \<le> ?n"
    by (auto simp: read_ok_def)
  then have "data_at s + length (ta_data A) \<le> length (room s)" using b by simp
  then obtain s1 where w: "write_data s (ta_data A) = ret s1" by (simp add: write_data_def)
  note s1 = write_data_ok [OF w]
  have small: "length (ta_data A) < 2 ^ 16" using n unat_word_less [of "buf_len (desc s)"] by simp
  define s' where "s' = set_lens (of_int (ta_len A)) (ucast (of_int (ta_len A) :: u16)) s1"
  have "unat (of_int (ta_len A) :: u16) = length (ta_data A)"
    unfolding len using small by (simp add: unat_of_nat_small)
  then have l: "unat (data_len (desc s')) = length (ta_data A)" "unat (pkt_len (desc s')) = length (ta_data A)"
    by (simp_all add: s'_def set_lens_def unat_ucast_up)
  have d: "data_at s' = data_at s" "room s' = room s1"
    using s1(2) by (simp_all add: s'_def data_at_def set_lens_def)
  have "tap_recv hr A fd st = ([Alloc (Some m), Read_fd fd (of_nat ?n)], Inr (m, st(m := s')))"
    using assms(1,5) w size
    by (simp add: tap_recv_def s'_def Let_def io_bind_def call_def ret_def)
  then show ?thesis using d l s1 by auto
qed

lemma strncpy_names:
  assumes "NUL \<notin> set ifname"
  shows "ifr_name (strncpy_name ifname (IFNAMSIZ - 1) ifreq_zero) =
    ifr_name (strncpy_name ifname IFNAMSIZ (set_ifr_flags f ifreq_zero)) \<longleftrightarrow> length ifname < 16"
proof -
  let ?c = "ifname @ replicate 16 NUL"
  have e: "ifr_name (strncpy_name ifname (IFNAMSIZ - 1) ifreq_zero) = take 15 ?c @ [NUL]"
    "ifr_name (strncpy_name ifname IFNAMSIZ (set_ifr_flags f ifreq_zero)) = take 16 ?c"
    by (simp_all add: strncpy_name_def IFNAMSIZ_def ifreq_zero_def set_ifr_flags_def)
  have "take (Suc 15) ?c = take 15 ?c @ [?c ! 15]"
    by (rule take_Suc_conv_app_nth) simp
  moreover have "Suc 15 = 16" by simp
  ultimately have "take 15 ?c @ [NUL] = take 16 ?c \<longleftrightarrow> ?c ! 15 = NUL" by (metis append1_eq_conv)
  also have "\<dots> \<longleftrightarrow> length ifname < 16"
    using assms by (auto simp: nth_append) (metis nth_mem)
  finally show ?thesis unfolding e .
qed

section \<open>Properties\<close>

text \<open>
  C21: a frame read from the interface fits the buffer it is read into, is recorded with its exact
  length, and is what \<open>tap_send\<close> writes; no other buffer is touched.
\<close>

theorem tap_roundtrip:
  assumes "ta_alloc A = Some (m, s)" and "fresh_seg s" and "hr (desc s) = data_off (desc s)" and "read_ok hr A"
    and "0 \<le> ta_len A" and "0 \<le> result"
  shows "\<exists>st'. snd (tap_recv hr A fd st) = Inr (m, st') \<and> (\<forall>q. q \<noteq> m \<longrightarrow> st' q = st q) \<and>
    unat (data_len (desc (st' m))) = length (ta_data A) \<and> unat (pkt_len (desc (st' m))) = length (ta_data A) \<and>
    data_at (st' m) + length (ta_data A) \<le> length (room (st' m)) \<and>
    tap_send result fd' m st' = ([Write_fd fd' m (ta_data A), Free m], Inr ())"
proof -
  obtain s' where r: "snd (tap_recv hr A fd st) = Inr (m, st(m := s'))"
    and s': "unat (data_len (desc s')) = length (ta_data A)" "unat (pkt_len (desc s')) = length (ta_data A)"
      "data_at s' + length (ta_data A) \<le> length (room s')"
      "take (length (ta_data A)) (drop (data_at s') (room s')) = ta_data A"
    using tap_recv_result [OF assms(1-5), of fd st] by (metis snd_conv)
  have "tap_send result fd' m (st(m := s')) = ([Write_fd fd' m (ta_data A), Free m], Inr ())"
    using s' assms(6) by (simp add: tap_send_def read_data_def io_bind_def call_def ret_def)
  with r s' show ?thesis by auto
qed

definition sample_seg :: seg where
  "sample_seg = \<lparr>desc = \<lparr>buf_addr = 0, buf_physaddr = 0, data_off = 2, refcnt = 1, nb_segs = 1, mbuf_port = 0,
     ol_flags = 0, packet_type = 0, pkt_len = 0, data_len = 0, vlan_tci = 0, hash = 0, vlan_tci_outer = 0,
     buf_len = 8, timestamp = 0, udata64 = 0, pool = 0, next_seg = 0, tx_offload = 0, priv_size = 0,
     timesync = 0, seqn = 0\<rparr>, room = replicate 8 0\<rparr>"

theorem tap_roundtrip_witness:
  "\<exists>st'. snd (tap_recv data_off \<lparr>ta_alloc = Some (7, sample_seg), ta_len = 3, ta_data = [1, 2, 3]\<rparr> 4 (\<lambda>_. sample_seg)) = Inr (7, st') \<and>
    tap_send 3 4 7 st' = ([Write_fd 4 7 [1, 2, 3], Free 7], Inr ())"
  using tap_roundtrip [of "\<lparr>ta_alloc = Some (7, sample_seg), ta_len = 3, ta_data = [1, 2, 3]\<rparr>" 7 sample_seg data_off 3 4 "\<lambda>_. sample_seg" 4]
  by (auto simp: fresh_seg_def read_ok_def sample_seg_def data_at_def)

text \<open>
  \<open>tap_send\<close> takes all \<open>pkt_len\<close> bytes from the first segment, whatever the other segments hold: a
  packet of several segments goes out with the bytes behind its first segment, or the read leaves the
  data room.
\<close>

theorem tap_send_first_segment:
  assumes "q \<noteq> m"
  shows "tap_send result fd m (st(q := s)) = tap_send result fd m st \<and>
    fst (tap_send result fd m st) =
      (if data_at (st m) + unat (pkt_len (desc (st m))) \<le> length (room (st m))
       then Write_fd fd m (take (unat (pkt_len (desc (st m)))) (drop (data_at (st m)) (room (st m)))) #
         (if result < 0 then [Exit_msg (''tap send failed'' @ [CHR 0x0A])] else [Free m])
       else [])"
  using assms by (auto simp: tap_send_def read_data_def)

text \<open>A packet of two segments, of which the first holds two of the four bytes.\<close>

theorem tap_send_first_segment_witness:
  "fst (tap_send 4 5 7 ((\<lambda>_. set_lens 2 4 (sample_seg\<lparr>room := [0, 0, 1, 2, 0xee, 0xee, 0, 0]\<rparr>))(8 := set_lens 2 2 (sample_seg\<lparr>room := [0, 0, 3, 4, 0, 0, 0, 0]\<rparr>)))) =
     [Write_fd 5 7 [1, 2, 0xee, 0xee], Free 7]"
  using tap_send_first_segment [of 8 7 4 5 "\<lambda>_. set_lens 2 4 (sample_seg\<lparr>room := [0, 0, 1, 2, 0xee, 0xee, 0, 0]\<rparr>)"]
  by (simp add: data_at_def sample_seg_def set_lens_def)

text \<open>
  A packet is a list of segments: the lengths in the descriptors, and each segment's bytes in its room;
  \<open>pkt_len\<close> of the first one is the length of all.
\<close>

definition seg_bytes :: "seg \<Rightarrow> u8 list" where
  "seg_bytes s = take (unat (data_len (desc s))) (drop (data_at s) (room s))"

definition packet_bytes :: "store \<Rightarrow> nat list \<Rightarrow> u8 list" where
  "packet_bytes st ms = concat (map (\<lambda>m. seg_bytes (st m)) ms)"

definition packet_ok :: "store \<Rightarrow> nat list \<Rightarrow> bool" where
  "packet_ok st ms \<longleftrightarrow> ms \<noteq> [] \<and>
     list_all (\<lambda>m. data_at (st m) + unat (data_len (desc (st m))) \<le> length (room (st m))) ms \<and>
     unat (pkt_len (desc (st (hd ms)))) = sum_list (map (\<lambda>m. unat (data_len (desc (st m)))) ms)"

lemma length_packet_bytes:
  "list_all (\<lambda>m. data_at (st m) + unat (data_len (desc (st m))) \<le> length (room (st m))) ms \<Longrightarrow>
   length (packet_bytes st ms) = sum_list (map (\<lambda>m. unat (data_len (desc (st m)))) ms)"
  by (induction ms) (auto simp: packet_bytes_def seg_bytes_def)

text \<open>
  C22: \<open>tap_send\<close> sends a packet of one segment as it is. A packet of more segments is sent right exactly
  when the bytes behind the first segment, in its own room, happen to be those of the other segments:
  otherwise bytes that do not belong to the packet go out, or the read leaves the room and nothing is
  sent at all.
\<close>

theorem tap_send_packet:
  assumes "packet_ok st (m # ms)"
  shows "if data_at (st m) + unat (pkt_len (desc (st m))) \<le> length (room (st m))
    then \<exists>bs cs. fst (tap_send result fd m st) = Write_fd fd m bs # cs \<and> length bs = length (packet_bytes st (m # ms)) \<and>
      (bs = packet_bytes st (m # ms) \<longleftrightarrow>
        take (length (packet_bytes st ms)) (drop (data_at (st m) + unat (data_len (desc (st m)))) (room (st m))) =
          packet_bytes st ms)
    else ms \<noteq> [] \<and> tap_send result fd m st = stop Read_OOB"
proof -
  let ?s = "st m" and ?n = "unat (pkt_len (desc (st m)))" and ?k = "unat (data_len (desc (st m)))"
  let ?r = "length (packet_bytes st ms)"
  have n: "?n = ?k + ?r" and fits: "data_at ?s + ?k \<le> length (room ?s)"
    using assms by (simp_all add: packet_ok_def length_packet_bytes)
  show ?thesis
  proof (cases "data_at ?s + ?n \<le> length (room ?s)")
    case True
    define rest where "rest = take ?r (drop (data_at ?s + ?k) (room ?s))"
    have w: "take ?n (drop (data_at ?s) (room ?s)) = seg_bytes ?s @ rest"
      unfolding n by (simp add: take_add seg_bytes_def rest_def add.commute [of ?k "data_at ?s"])
    have "length (seg_bytes ?s) = ?k" using fits by (simp add: seg_bytes_def)
    moreover have "length rest = ?r" using True unfolding n by (simp add: rest_def)
    moreover have "packet_bytes st (m # ms) = seg_bytes ?s @ packet_bytes st ms" by (simp add: packet_bytes_def)
    ultimately show ?thesis
      using True by (auto simp: tap_send_def read_data_def w simp flip: rest_def)
  next
    case False
    then have "ms \<noteq> []" using fits n by (auto simp: packet_bytes_def)
    with False show ?thesis by (simp add: tap_send_def read_data_def)
  qed
qed

text \<open>A packet of two segments, of which the first holds two of the four bytes.\<close>

definition two_segments :: store where
  "two_segments = (\<lambda>_. set_lens 2 4 (sample_seg\<lparr>room := [0, 0, 1, 2, 0xee, 0xee, 0, 0]\<rparr>))
     (8 := set_lens 2 2 (sample_seg\<lparr>room := [0, 0, 3, 4, 0, 0, 0, 0]\<rparr>))"

theorem tap_send_packet_witness:
  "packet_bytes two_segments [7, 8] = [1, 2, 3, 4] \<and>
   (\<exists>bs cs. fst (tap_send 4 5 7 two_segments) = Write_fd 5 7 bs # cs \<and> bs \<noteq> [1, 2, 3, 4])"
proof -
  have ok: "packet_ok two_segments [7, 8]" and p: "packet_bytes two_segments [7, 8] = [1, 2, 3, 4]"
    by (simp_all add: packet_ok_def packet_bytes_def seg_bytes_def two_segments_def set_lens_def sample_seg_def data_at_def)
  have "\<exists>bs cs. fst (tap_send 4 5 7 two_segments) = Write_fd 5 7 bs # cs \<and> bs \<noteq> [1, 2, 3, 4]"
    using tap_send_packet [OF ok, of 4 5]
    by (simp add: p) (auto simp: packet_bytes_def seg_bytes_def two_segments_def set_lens_def sample_seg_def data_at_def)
  with p show ?thesis by blast
qed

text \<open>
  A successful \<open>tap_alloc\<close> leaves one descriptor open. Its first request carries the whole name,
  the later ones at most 15 characters of it: they name the same interface exactly when the name is
  shorter than 16.
\<close>

theorem tap_alloc_names:
  assumes "snd (tap_alloc K A ifname hwaddr) = Inr fd" and "NUL \<notin> set ifname"
  shows "fd = tf_open A \<and> (\<exists>i1 i2 i3 i4.
    fst (tap_alloc K A ifname hwaddr) = map Setup
      [Open_tun fd, Ioctl fd ''TUNSETIFF'' i1 (tf_setiff A), Ioctl fd ''SIOCSIFHWADDR'' i2 (tf_hwaddr A),
       Socket (tf_socket A), Ioctl (tf_socket A) ''SIOCGIFFLAGS'' i3 (tf_getflags A),
       Ioctl (tf_socket A) ''SIOCSIFFLAGS'' i4 (tf_setflags A), Close_fd (tf_socket A)] \<and>
    ifr_flags i1 = IFF_TAP K OR IFF_NO_PI K \<and> ifr_flags i4 = tf_flags A OR IFF_UP K \<and>
    ifr_name i2 = ifr_name i1 \<and> ifr_name i4 = ifr_name i3 \<and>
    (ifr_name i3 = ifr_name i1 \<longleftrightarrow> length ifname < 16))"
proof -
  let ?z = "set_ifr_flags (IFF_TAP K OR IFF_NO_PI K) ifreq_zero"
  let ?i1 = "strncpy_name ifname IFNAMSIZ ?z" and ?i3 = "strncpy_name ifname (IFNAMSIZ - 1) ifreq_zero"
  have name: "ifr_name ?i3 = ifr_name ?i1 \<longleftrightarrow> length ifname < 16"
    by (rule strncpy_names [OF assms(2)])
  have "ifr_flags (set_ifr_flags f i) = f" for f i
    using unat_word_less [of f] by (simp add: ifr_flags_def set_ifr_flags_def le_nat_le_bytes_id)
  then have fl: "ifr_flags ?i1 = IFF_TAP K OR IFF_NO_PI K"
    "ifr_flags (set_ifr_flags (tf_flags A OR IFF_UP K) j) = tf_flags A OR IFF_UP K" for j
    by (simp_all add: strncpy_name_def ifr_flags_def set_ifr_flags_def)
  have ok: "\<not> tf_open A < 0" "\<not> tf_setiff A < 0" "\<not> tf_hwaddr A < 0" "\<not> tf_getflags A < 0" "\<not> tf_setflags A < 0"
    using assms(1) by (auto simp: tap_alloc_def Let_def split: if_splits)
  show ?thesis
    by (intro conjI exI [of _ ?i1] exI [of _ "set_ifr_hwaddr (ARPHRD_ETHER K) hwaddr ?i1"] exI [of _ ?i3]
        exI [of _ "set_ifr_flags (tf_flags A OR IFF_UP K) (set_ifr_flags (tf_flags A) ?i3)"] fl name)
      (use assms(1) ok in \<open>simp_all add: tap_alloc_def Let_def set_ifr_hwaddr_def set_ifr_flags_def\<close>)
qed

definition linux_tun :: tun_uapi where
  "linux_tun = \<lparr>IFF_TAP = 2, IFF_NO_PI = 0x1000, IFF_UP = 1, ARPHRD_ETHER = 1\<rparr>"

theorem tap_alloc_names_witness:
  "\<exists>i1 i4. {Setup (Ioctl 5 ''TUNSETIFF'' i1 0), Setup (Ioctl 6 ''SIOCSIFFLAGS'' i4 0)} \<subseteq> set (fst (tap_alloc linux_tun
     \<lparr>tf_open = 5, tf_setiff = 0, tf_hwaddr = 0, tf_socket = 6, tf_getflags = 0, tf_flags = 0, tf_setflags = 0\<rparr>
     ''ge-0-0-1'' [1, 2, 3, 4, 5, 6])) \<and> ifr_flags i1 = 0x1002 \<and> ifr_name i4 = ifr_name i1"
proof -
  let ?A = "\<lparr>tf_open = 5, tf_setiff = 0, tf_hwaddr = 0, tf_socket = 6, tf_getflags = 0, tf_flags = 0, tf_setflags = 0\<rparr>"
  have "snd (tap_alloc linux_tun ?A ''ge-0-0-1'' [1, 2, 3, 4, 5, 6]) = Inr 5"
    by (simp add: tap_alloc_def Let_def)
  from tap_alloc_names [OF this] show ?thesis by (auto simp: linux_tun_def)
qed

end
