(* ===== verification/Port.thy ===== *)
theory Port
  imports Tap "HOL-Library.Multiset"
begin

text \<open>
  \<open>yak/port.c\<close> and \<open>yak/port.h\<close>: setting up an Ethernet port with its buffer pool, its TAP interface
  and its ring, and giving it back. The resources a process holds are a multiset that every call
  changes as documented.
\<close>

section \<open>The code\<close>

record port_t =
  hostif_fd :: int
  dpdk_pid :: u16
  nrxq :: nat
  ntxq :: nat
  hostif_addr :: u32
  hwaddr :: "u8 list"
  from_hostif :: nat
  mp :: nat

record dpdk_consts =
  ETH_MQ_RX_NONE :: u32
  ETH_MQ_TX_NONE :: u32
  ETHER_MAX_LEN :: u32
  ETH_TXQ_FLAGS_NOMULTSEGS :: u32
  RTE_PKTMBUF_HEADROOM :: nat

record dev_answers =
  da_configure :: int
  da_rxq :: "nat \<Rightarrow> int"
  da_txq :: "nat \<Rightarrow> int"
  da_start :: int

text \<open>A call whose negative answer ends the process.\<close>

definition checked :: "config_call \<Rightarrow> int \<Rightarrow> string \<Rightarrow> unit prog" where
  "checked c answer msg = io_bind (setup_call c) (\<lambda>_. if answer < 0 then rte_exit msg else ret ())"

definition port_configure ::
    "dpdk_consts \<Rightarrow> dev_answers \<Rightarrow> u8 \<Rightarrow> nat \<Rightarrow> nat \<Rightarrow> eth_conf \<Rightarrow> nat \<Rightarrow> unit prog" where
  "port_configure K A port nb_rxq nb_txq port_conf mpool =
     (let rx_ring_size = 128; tx_ring_size = 512 in
      io_seq (checked (Dev_configure port nb_rxq nb_txq port_conf (da_configure A)) (da_configure A)
        ''rte_eth_dev_configure'')
      (io_seq (io_each (\<lambda>q.
          checked (Rxq_setup port q rx_ring_size mpool (da_rxq A q)) (da_rxq A q) ''rte_eth_rx_queue_setup'')
        [0..<nb_rxq])
      (io_seq (io_each (\<lambda>q.
          let txq_flags = 0 AND NOT (ETH_TXQ_FLAGS_NOMULTSEGS K) in
          checked (Txq_setup port q tx_ring_size txq_flags (da_txq A q)) (da_txq A q) ''rte_eth_tx_queue_setup'')
        [0..<nb_txq])
      (io_seq (checked (Dev_start port (da_start A)) (da_start A) ''rte_eth_dev_start'')
        (setup_call (Promiscuous_enable port))))))"

record port_answers =
  pa_malloc :: bool
  pa_junk :: u32
  pa_pool :: "nat option"
  pa_dev :: dev_answers
  pa_mac :: "u8 list"
  pa_tap :: tapif_answers
  pa_ring :: "nat option"

text \<open>
  \<open>port_alloc\<close>; the member \<open>hostif_addr\<close> keeps what \<open>malloc\<close> left there. \<open>port_configure\<close> takes the port
  number as a \<open>uint8_t\<close>.
\<close>

text \<open>The buffers of a port's pool and the size its ring is created with.\<close>

definition num_mbufs :: nat where
  "num_mbufs = 8191"

definition ringsize :: nat where
  "ringsize = 8192"

definition port_alloc ::
    "dpdk_consts \<Rightarrow> tun_uapi \<Rightarrow> port_answers \<Rightarrow> u16 \<Rightarrow> nat \<Rightarrow> nat \<Rightarrow> string \<Rightarrow> port_t prog" where
  "port_alloc K T A pid nrx ntx ifname =
     io_bind (setup_call (Malloc (pa_malloc A))) (\<lambda>_.
     if \<not> pa_malloc A then rte_exit ''port_alloc: malloc miss''
     else
       let MBUF_CACHE_SIZE = 250; mpname = ''PORT'' @ fmt_u (unat pid) @ ''_MBUFPOOL'' in
       io_bind (setup_call (Pool_create mpname num_mbufs MBUF_CACHE_SIZE
         (RTE_MBUF_DEFAULT_BUF_SIZE (RTE_PKTMBUF_HEADROOM K)) (pa_pool A))) (\<lambda>_.
       case pa_pool A of
         None \<Rightarrow> rte_exit (''Cannot create mbuf pool '' @ mpname)
       | Some mpool \<Rightarrow>
           let port_conf = \<lparr>rx_mq_mode = ETH_MQ_RX_NONE K, max_rx_pkt_len = ETHER_MAX_LEN K,
                 header_split = False, jumbo_frame = True, enable_scatter = True,
                 ignore_offload_bitfield = True, tx_mq_mode = 0\<rparr> in
           io_bind (port_configure K (pa_dev A) (ucast pid) nrx ntx port_conf mpool) (\<lambda>_.
           let mac = pa_mac A in
           io_bind (call (Out Std_out (ifname @ '' addr: '' @
             concat (map (\<lambda>b. fmt_0x 2 (unat b) @ '':'') (take 5 mac)) @ fmt_0x 2 (unat (mac ! 5)) @
             '' '' @ [CHR 0x0A]))) (\<lambda>_.
           io_bind (tap_alloc T (pa_tap A) ifname mac) (\<lambda>fd.
           io_bind (setup_call (Ring_create (''PORT'' @ fmt_u (unat pid) @ ''_HOSTRING'') ringsize (pa_ring A))) (\<lambda>_.
           case pa_ring A of
             None \<Rightarrow> rte_exit ''Cannot create ring''
           | Some r \<Rightarrow>
               ret \<lparr>hostif_fd = fd, dpdk_pid = pid, nrxq = nrx, ntxq = ntx, hostif_addr = pa_junk A,
                 hwaddr = mac, from_hostif = r, mp = mpool\<rparr>))))))"

definition port_free :: "port_t \<Rightarrow> unit prog" where
  "port_free port =
     io_seq (tap_free (hostif_fd port))
     (io_seq (setup_call (Dev_stop (dpdk_pid port)))
     (io_seq (setup_call (Pool_free (mp port)))
       (setup_call (Ring_free (from_hostif port)))))"

section \<open>Checked calls\<close>

text \<open>
  What the configuration is meant to do: the calls of a plan one after the other, up to the first that
  is answered with a negative number.
\<close>

fun run_plan :: "(config_call \<times> int \<times> string) list \<Rightarrow> unit prog" where
  "run_plan [] = ret ()"
| "run_plan ((c, answer, msg) # cs) =
     io_seq (setup_call c) (if answer < 0 then rte_exit msg else run_plan cs)"

lemma run_plan_append: "run_plan (xs @ ys) = io_seq (run_plan xs) (run_plan ys)"
  by (induction xs rule: run_plan.induct) auto

lemma each_plan: "io_each (\<lambda>q. checked (c q) (r q) msg) qs = run_plan (map (\<lambda>q. (c q, r q, msg)) qs)"
  by (induction qs) (auto simp: checked_def)

lemma run_plan_ok: "list_all (\<lambda>(c, a, msg). 0 \<le> a) cs \<Longrightarrow> run_plan cs = (map (Setup \<circ> fst) cs, Inr ())"
  by (induction cs rule: run_plan.induct) (auto simp: ret_def call_def io_bind_def)

lemma run_plan_fails:
  "list_all (\<lambda>(c, a, msg). 0 \<le> a) cs \<Longrightarrow> a < 0 \<Longrightarrow>
   run_plan (cs @ (c, a, msg) # ds) = (map (Setup \<circ> fst) (cs @ [(c, a, msg)]) @ [Exit_msg (msg @ [CHR 0x0A])], Inl (Exit 1))"
  by (induction cs rule: run_plan.induct) (auto simp: call_def io_bind_def rte_exit_def stop_def)

lemma run_plan_ends: "snd (run_plan cs) = Inr () \<Longrightarrow> list_all (\<lambda>(c, a, msg). 0 \<le> a) cs"
  by (induction cs rule: run_plan.induct) (auto split: if_splits)

definition configure_plan ::
    "dev_answers \<Rightarrow> u8 \<Rightarrow> nat \<Rightarrow> nat \<Rightarrow> eth_conf \<Rightarrow> nat \<Rightarrow> (config_call \<times> int \<times> string) list" where
  "configure_plan A port nb_rxq nb_txq conf mpool =
     [(Dev_configure port nb_rxq nb_txq conf (da_configure A), da_configure A, ''rte_eth_dev_configure'')] @
     map (\<lambda>q. (Rxq_setup port q 128 mpool (da_rxq A q), da_rxq A q, ''rte_eth_rx_queue_setup'')) [0..<nb_rxq] @
     map (\<lambda>q. (Txq_setup port q 512 0 (da_txq A q), da_txq A q, ''rte_eth_tx_queue_setup'')) [0..<nb_txq] @
     [(Dev_start port (da_start A), da_start A, ''rte_eth_dev_start''), (Promiscuous_enable port, 0, '''')]"

lemma configure_is_plan:
  "port_configure K A port nb_rxq nb_txq conf mpool = run_plan (configure_plan A port nb_rxq nb_txq conf mpool)"
  unfolding port_configure_def configure_plan_def Let_def
  by (simp only: each_plan bit.conj_zero_left run_plan_append) (simp add: checked_def io_bind_ret_unit)

section \<open>Resources\<close>

datatype resource = Fd int | Block | Pool nat | Ring nat | Device nat

fun taken :: "config_call \<Rightarrow> resource option" where
  "taken (Open_tun fd) = (if 0 \<le> fd then Some (Fd fd) else None)"
| "taken (Socket fd) = (if 0 \<le> fd then Some (Fd fd) else None)"
| "taken (Malloc ok) = (if ok then Some Block else None)"
| "taken (Pool_create n k c b p) = map_option Pool p"
| "taken (Ring_create n k r) = map_option Ring r"
| "taken (Dev_start pid res) = (if 0 \<le> res then Some (Device (unat pid)) else None)"
| "taken c = None"

fun given_back :: "config_call \<Rightarrow> resource option" where
  "given_back (Close_fd fd) = (if 0 \<le> fd then Some (Fd fd) else None)"
| "given_back (Pool_free p) = Some (Pool p)"
| "given_back (Ring_free r) = Some (Ring r)"
| "given_back (Dev_stop pid) = Some (Device (unat pid))"
| "given_back c = None"

fun resources :: "call list \<Rightarrow> resource multiset \<Rightarrow> resource multiset" where
  "resources [] R = R"
| "resources (Setup c # cs) R = resources cs (R + mset_set (set_option (taken c)) - mset_set (set_option (given_back c)))"
| "resources (c # cs) R = resources cs R"

lemma resources_append: "resources (xs @ ys) R = resources ys (resources xs R)"
  by (induction xs R rule: resources.induct) auto

lemma resources_quiet:
  "(\<And>x. x \<in> set xs \<Longrightarrow> taken (f x) = None \<and> given_back (f x) = None) \<Longrightarrow>
   resources (map (\<lambda>x. Setup (f x)) xs) R = R"
  by (induction xs) auto

lemma resources_plan:
  assumes "snd (run_plan (configure_plan A port nb_rxq nb_txq conf mpool)) = Inr ()"
  shows "resources (fst (run_plan (configure_plan A port nb_rxq nb_txq conf mpool))) R = add_mset (Device (unat port)) R"
proof -
  let ?p = "configure_plan A port nb_rxq nb_txq conf mpool"
  have ok: "list_all (\<lambda>(c, a, msg). 0 \<le> a) ?p" by (rule run_plan_ends [OF assms])
  then have "0 \<le> da_start A" by (simp add: configure_plan_def)
  then show ?thesis
    unfolding run_plan_ok [OF ok] fst_conv unfolding configure_plan_def
    by (simp add: resources_append resources_quiet comp_def)
qed

lemma resources_tap:
  assumes "snd (tap_alloc T A ifname mac) = Inr fd"
  shows "resources (fst (tap_alloc T A ifname mac)) R = add_mset (Fd fd) R" and "0 \<le> fd"
  using assms by (auto simp: tap_alloc_def Let_def split: if_splits)

lemma resources_port_alloc:
  assumes "snd (port_alloc K T A pid nrx ntx ifname) = Inr P"
  shows "resources (fst (port_alloc K T A pid nrx ntx ifname)) R =
      R + {#Block, Pool (mp P), Device (unat (ucast pid :: u8)), Fd (hostif_fd P), Ring (from_hostif P)#}"
    and "dpdk_pid P = pid" and "0 \<le> hostif_fd P"
proof -
  let ?conf = "\<lparr>rx_mq_mode = ETH_MQ_RX_NONE K, max_rx_pkt_len = ETHER_MAX_LEN K, header_split = False,
    jumbo_frame = True, enable_scatter = True, ignore_offload_bitfield = True, tx_mq_mode = 0\<rparr>"
  from assms obtain mpool r fd where ok: "pa_malloc A" "pa_pool A = Some mpool" "pa_ring A = Some r"
    and c: "snd (port_configure K (pa_dev A) (ucast pid) nrx ntx ?conf mpool) = Inr ()"
    and t: "snd (tap_alloc T (pa_tap A) ifname (pa_mac A)) = Inr fd"
    by (auto simp: port_alloc_def Let_def split: if_splits option.splits elim!: snd_io_bind_InrE)
  have P: "P = \<lparr>hostif_fd = fd, dpdk_pid = pid, nrxq = nrx, ntxq = ntx, hostif_addr = pa_junk A,
      hwaddr = pa_mac A, from_hostif = r, mp = mpool\<rparr>"
    using assms ok c t by (simp add: port_alloc_def Let_def)
  show "dpdk_pid P = pid" "0 \<le> hostif_fd P" using resources_tap(2) [OF t] by (simp_all add: P)
  show "resources (fst (port_alloc K T A pid nrx ntx ifname)) R =
      R + {#Block, Pool (mp P), Device (unat (ucast pid :: u8)), Fd (hostif_fd P), Ring (from_hostif P)#}"
    using ok c t resources_plan [OF c [unfolded configure_is_plan]] resources_tap(1) [OF t]
    by (simp add: port_alloc_def Let_def P resources_append configure_is_plan)
qed

text \<open>The pool and the ring of a port have been created with the sizes given above.\<close>

lemma port_alloc_sizes:
  assumes "snd (port_alloc K T A pid nrx ntx ifname) = Inr P"
  shows "\<exists>n k b. Setup (Pool_create n num_mbufs k b (Some (mp P))) \<in> set (fst (port_alloc K T A pid nrx ntx ifname))"
    and "\<exists>n. Setup (Ring_create n ringsize (Some (from_hostif P))) \<in> set (fst (port_alloc K T A pid nrx ntx ifname))"
proof -
  let ?conf = "\<lparr>rx_mq_mode = ETH_MQ_RX_NONE K, max_rx_pkt_len = ETHER_MAX_LEN K, header_split = False,
    jumbo_frame = True, enable_scatter = True, ignore_offload_bitfield = True, tx_mq_mode = 0\<rparr>"
  from assms obtain mpool r fd where ok: "pa_malloc A" "pa_pool A = Some mpool" "pa_ring A = Some r"
    and c: "snd (port_configure K (pa_dev A) (ucast pid) nrx ntx ?conf mpool) = Inr ()"
    and t: "snd (tap_alloc T (pa_tap A) ifname (pa_mac A)) = Inr fd"
    by (auto simp: port_alloc_def Let_def split: if_splits option.splits elim!: snd_io_bind_InrE)
  then have "mp P = mpool" "from_hostif P = r" using assms by (auto simp: port_alloc_def Let_def)
  with ok c t show "\<exists>n k b. Setup (Pool_create n num_mbufs k b (Some (mp P))) \<in> set (fst (port_alloc K T A pid nrx ntx ifname))"
    and "\<exists>n. Setup (Ring_create n ringsize (Some (from_hostif P))) \<in> set (fst (port_alloc K T A pid nrx ntx ifname))"
    by (auto simp: port_alloc_def Let_def)
qed


section \<open>Properties\<close>

text \<open>
  Configuring a device makes the calls of the plan, the device first, its receive queues, its
  transmit queues, the start, in this order, and stops the process at the first call that fails; it
  returns exactly when none does.
\<close>

theorem port_configure_result:
  "port_configure K A port nb_rxq nb_txq conf mpool = run_plan (configure_plan A port nb_rxq nb_txq conf mpool) \<and>
   (snd (port_configure K A port nb_rxq nb_txq conf mpool) = Inr () \<longleftrightarrow>
     list_all (\<lambda>(c, answer, msg). 0 \<le> answer) (configure_plan A port nb_rxq nb_txq conf mpool))"
  using run_plan_ends run_plan_ok unfolding configure_is_plan by fastforce

text \<open>
  C29: a port whose number fits in 8 bits gives back what it took, but for the block of its own
  structure: allocating and freeing it leaves one block of memory, and no descriptor, pool, ring or
  running device, more than before.
\<close>

theorem port_alloc_free:
  assumes "snd (port_alloc K T A pid nrx ntx ifname) = Inr P" and "unat pid < 256"
  shows "resources (fst (port_alloc K T A pid nrx ntx ifname)) R =
      R + {#Block, Pool (mp P), Device (unat pid), Fd (hostif_fd P), Ring (from_hostif P)#} \<and>
    resources (fst (port_alloc K T A pid nrx ntx ifname) @ fst (port_free P)) R = R + {#Block#}"
proof -
  have "unat (ucast pid :: u8) = unat pid"
    using assms(2) by (simp add: unsigned_ucast_eq take_bit_nat_eq_self)
  then show ?thesis
    using resources_port_alloc [OF assms(1)] by (simp add: port_free_def tap_free_def resources_append)
qed

definition good_port :: port_answers where
  "good_port = \<lparr>pa_malloc = True, pa_junk = 0, pa_pool = Some 1,
     pa_dev = \<lparr>da_configure = 0, da_rxq = \<lambda>_. 0, da_txq = \<lambda>_. 0, da_start = 0\<rparr>, pa_mac = [1, 2, 3, 4, 5, 6],
     pa_tap = \<lparr>tf_open = 5, tf_setiff = 0, tf_hwaddr = 0, tf_socket = 6, tf_getflags = 0, tf_flags = 0, tf_setflags = 0\<rparr>,
     pa_ring = Some 2\<rparr>"

definition some_consts :: dpdk_consts where
  "some_consts = \<lparr>ETH_MQ_RX_NONE = 0, ETH_MQ_TX_NONE = 0, ETHER_MAX_LEN = 1518, ETH_TXQ_FLAGS_NOMULTSEGS = 1,
     RTE_PKTMBUF_HEADROOM = 128\<rparr>"

lemma good_port_alloc: "snd (port_alloc some_consts linux_tun good_port 0 1 1 ''ge-0-0-0'') =
  Inr \<lparr>hostif_fd = 5, dpdk_pid = 0, nrxq = 1, ntxq = 1, hostif_addr = 0, hwaddr = [1, 2, 3, 4, 5, 6], from_hostif = 2, mp = 1\<rparr>"
  by (simp add: port_alloc_def good_port_def port_configure_def checked_def tap_alloc_def Let_def)

theorem port_alloc_free_witness:
  "resources (fst (port_alloc some_consts linux_tun good_port 0 1 1 ''ge-0-0-0'') @ [Setup (Close_fd 5), Setup (Dev_stop 0),
     Setup (Pool_free 1), Setup (Ring_free 2)]) {#} = {#Block#}"
  using port_alloc_free [OF good_port_alloc, of "{#}"] by (simp add: port_free_def tap_free_def call_def)

text \<open>
  A port number of 256 or more is cut to 8 bits on the way to the device: another device is
  configured and started than the one \<open>port_free\<close> stops.
\<close>

theorem port_number_cut:
  assumes "snd (port_alloc K T A 256 nrx ntx ifname) = Inr P"
  shows "Device 0 \<in># resources (fst (port_alloc K T A 256 nrx ntx ifname) @ fst (port_free P)) {#}"
  using resources_port_alloc [OF assms]
  by (simp add: port_free_def tap_free_def resources_append)

theorem port_number_cut_witness:
  "Device 0 \<in># resources (fst (port_alloc some_consts linux_tun good_port 256 1 1 ''ge-0-0-0'') @ [Setup (Close_fd 5),
     Setup (Dev_stop 256), Setup (Pool_free 1), Setup (Ring_free 2)]) {#}"
proof -
  have "snd (port_alloc some_consts linux_tun good_port 256 1 1 ''ge-0-0-0'') =
    Inr \<lparr>hostif_fd = 5, dpdk_pid = 256, nrxq = 1, ntxq = 1, hostif_addr = 0, hwaddr = [1, 2, 3, 4, 5, 6], from_hostif = 2, mp = 1\<rparr>"
    by (simp add: port_alloc_def good_port_def port_configure_def checked_def tap_alloc_def Let_def)
  from port_number_cut [OF this] show ?thesis by (simp add: port_free_def tap_free_def call_def)
qed

end
