(* ===== verification/Yak.thy ===== *)
theory Yak
  imports Port Bpf
begin

text \<open>
  \<open>yak/main.c\<close>: the forwarding thread, which takes packets from a port's ring to the wire and from the
  wire to the port's TAP interface, and the TAP thread, which fills the ring. Both loops run for ever;
  a run is modelled for every finite number of rounds, with the answers of each round as arguments; the
  TAP thread waits for ever where it reads and nothing arrives any more.
\<close>

section \<open>The code\<close>

text \<open>\<open>port_input\<close>; \<open>result\<close> is what \<open>write\<close> answers in \<open>tap_send\<close>.\<close>

definition port_input :: "store \<Rightarrow> int \<Rightarrow> nat \<Rightarrow> port_t \<Rightarrow> unit prog" where
  "port_input st result m pp =
     io_bind (load16 (room (st m)) (data_at (st m) + 12)) (\<lambda>ether_type.
       if htons ether_type = 0x86dd \<or> htons ether_type = 0x0800 \<or>
          htons ether_type = 0x0806 \<or> htons ether_type = 0x8100 then
         io_bind (call (Out Std_out (''Egress Packet'' @ [CHR 0x0A]))) (\<lambda>_.
         io_bind (call (Dump m (pkt_len (desc (st m))))) (\<lambda>_.
           tap_send result (hostif_fd pp) m st))
       else
         io_bind (call (Out Std_out (''unknown ether_type 0x'' @ fmt_0x 4 (unat (htons ether_type)) @ [CHR 0x0A]))) (\<lambda>_.
           call (Free m)))"

text \<open>
  The answers of one round of \<open>fwd_main\<close> on one port: whether the ring is empty, the buffers dequeued
  and what they hold, the result of each \<open>rte_eth_tx_burst\<close>, the buffers received and what they hold,
  the result of each \<open>write\<close>.
\<close>

record fwd_answers =
  fa_empty :: bool
  fa_dequeued :: "nat list"
  fa_deq_mem :: store
  fa_ntx :: "nat \<Rightarrow> u16"
  fa_rx :: "nat list"
  fa_rx_mem :: store
  fa_write :: "nat \<Rightarrow> int"

definition fwd_ingress :: "store \<Rightarrow> (nat \<Rightarrow> u16) \<Rightarrow> port_t \<Rightarrow> nat \<Rightarrow> unit prog" where
  "fwd_ingress st ntx P m =
     io_bind (call (Out Std_out (''Ingress Packet'' @ [CHR 0x0A]))) (\<lambda>_.
     io_bind (call (Dump m (pkt_len (desc (st m))))) (\<lambda>_.
     io_bind (call (Tx (dpdk_pid P) m (ntx m))) (\<lambda>_.
       if ntx m \<noteq> 1 then call (Free m) else ret ())))"

definition fwd_port :: "fwd_answers \<times> port_t \<Rightarrow> unit prog" where
  "fwd_port AP =
     (let A = fst AP; P = snd AP in
      io_seq
        (if fa_empty A then ret ()
         else io_seq (call (Dequeue (from_hostif P) (fa_dequeued A)))
           (io_each (fwd_ingress (fa_deq_mem A) (fa_ntx A) P) (fa_dequeued A)))
      (io_seq (call (Rx (dpdk_pid P) (fa_rx A)))
        (io_each (\<lambda>m. port_input (fa_rx_mem A) (fa_write A m) m P) (fa_rx A))))"

text \<open>\<open>fwd_main\<close> on the answers of some rounds: in each round all ports, one after the other.\<close>

definition fwd_main :: "nat \<Rightarrow> port_t list \<Rightarrow> fwd_answers list list \<Rightarrow> unit prog" where
  "fwd_main lcore ports rs =
     io_seq (call (Out Std_out (''Core '' @ fmt_u lcore @ '' forwarding main'' @ [CHR 0x0A])))
       (io_each (\<lambda>r. io_each fwd_port (zip r ports)) rs)"

definition tap_port :: "(rte_mbuf \<Rightarrow> u16) \<Rightarrow> tap_answers \<Rightarrow> int \<Rightarrow> port_t \<Rightarrow> store \<Rightarrow> store prog" where
  "tap_port hr A enq P st =
     io_bind (tap_recv hr A (hostif_fd P) st) (\<lambda>(m, st).
     io_bind (call (Enqueue (from_hostif P) m enq)) (\<lambda>_. ret st))"

text \<open>
  The TAP thread on what arrives: for each port of the table the frames that will ever arrive at its
  interface, in order, each with what the ring answers to its enqueue. Where nothing is left \<open>read\<close> does
  not return: the buffer of that round, \<open>spare\<close>, has been allocated, and the thread waits.
\<close>

type_synonym arrivals = "(port_t \<times> (tap_answers \<times> int) list) list"

definition tap_wait :: "(nat \<times> seg) option \<Rightarrow> unit prog" where
  "tap_wait m = io_seq (call (Alloc (map_option fst m))) (case m of None \<Rightarrow> stop Null_Deref | Some _ \<Rightarrow> ret ())"

text \<open>One pass over the ports: \<open>Inl\<close> is the port at which the thread waits for ever.\<close>

fun tap_ports ::
    "(rte_mbuf \<Rightarrow> u16) \<Rightarrow> (port_t \<Rightarrow> (nat \<times> seg) option) \<Rightarrow> arrivals \<Rightarrow> store \<Rightarrow> (port_t + arrivals \<times> store) prog" where
  "tap_ports hr spare [] st = ret (Inr ([], st))"
| "tap_ports hr spare ((P, []) # Q) st = io_bind (tap_wait (spare P)) (\<lambda>_. ret (Inl P))"
| "tap_ports hr spare ((P, (A, enq) # As) # Q) st =
     io_bind (tap_port hr A enq P st) (\<lambda>st.
     io_bind (tap_ports hr spare Q st) (\<lambda>r.
       ret (case r of Inl P' \<Rightarrow> Inl P' | Inr (Q', st) \<Rightarrow> Inr ((P, As) # Q', st))))"

text \<open>The endless loop, for at most \<open>n\<close> passes; \<open>Inr\<close> is where it goes on.\<close>

fun tap_rounds ::
    "(rte_mbuf \<Rightarrow> u16) \<Rightarrow> (port_t \<Rightarrow> (nat \<times> seg) option) \<Rightarrow> nat \<Rightarrow> arrivals \<Rightarrow> store \<Rightarrow> (port_t + arrivals \<times> store) prog" where
  "tap_rounds hr spare 0 Q st = ret (Inr (Q, st))"
| "tap_rounds hr spare (Suc n) Q st =
     io_bind (tap_ports hr spare Q st) (\<lambda>r.
       case r of Inl P \<Rightarrow> ret (Inl P) | Inr (Q', st) \<Rightarrow> tap_rounds hr spare n Q' st)"

definition tap_main ::
    "(rte_mbuf \<Rightarrow> u16) \<Rightarrow> (port_t \<Rightarrow> (nat \<times> seg) option) \<Rightarrow> nat \<Rightarrow> nat \<Rightarrow> arrivals \<Rightarrow> store \<Rightarrow>
     (port_t + arrivals \<times> store) prog" where
  "tap_main hr spare lcore n Q st =
     io_bind (call (Out Std_out (''Core '' @ fmt_u lcore @ '' tap main'' @ [CHR 0x0A])))
       (\<lambda>_. tap_rounds hr spare n Q st)"

text \<open>
  \<open>main\<close> up to the moment both threads run: the ports. \<open>pthread_create\<close> answers 0 on success.
\<close>

fun alloc_ports :: "dpdk_consts \<Rightarrow> tun_uapi \<Rightarrow> (nat \<Rightarrow> port_answers) \<Rightarrow> nat list \<Rightarrow> port_t list prog" where
  "alloc_ports K T A [] = ret []"
| "alloc_ports K T A (i # is) =
     io_bind (port_alloc K T (A i) (of_nat i) 1 1 (''ge-0-0-'' @ fmt_u i)) (\<lambda>p.
     io_bind (alloc_ports K T A is) (\<lambda>ps. ret (p # ps)))"

definition yak_main ::
    "dpdk_consts \<Rightarrow> tun_uapi \<Rightarrow> int \<Rightarrow> nat \<Rightarrow> (nat \<Rightarrow> port_answers) \<Rightarrow> int \<Rightarrow> int \<Rightarrow> port_t list prog" where
  "yak_main K T eal nb_ports A fwd_thread tap_thread =
     (if eal < 0 then rte_exit ''rte_eal_init''
      else io_bind (alloc_ports K T A [0..<nb_ports]) (\<lambda>ports.
        if fwd_thread \<noteq> 0 then rte_exit ''Failed create fwd_thread''
        else if tap_thread \<noteq> 0 then rte_exit ''Failed create tap_thread''
        else ret ports))"

section \<open>The forwarding thread gives everything back\<close>

lemma keeps_port_input [keeps_rules]: "m \<in> H \<Longrightarrow> keeps (port_input st result m pp) H (H - {m})"
  unfolding port_input_def by (auto intro!: keeps_rules keeps_call)

lemma keeps_fwd_ingress [keeps_rules]: "m \<in> H \<Longrightarrow> keeps (fwd_ingress st ntx P m) H (H - {m})"
  unfolding fwd_ingress_def by (auto intro!: keeps_rules keeps_call)

lemma keeps_consume:
  assumes "\<And>m H. m \<in> H \<Longrightarrow> keeps (f m) H (H - {m})" and "distinct ms" and "H = set ms"
  shows "keeps (io_each f ms) H {}"
  using assms(2,3)
proof (induction ms arbitrary: H)
  case (Cons m ms)
  then have "H - {m} = set ms" by auto
  with Cons show ?case using assms(1) [of m H] by (auto intro!: keeps_bind)
qed (simp add: keeps_ret)

definition good_round :: "fwd_answers \<times> port_t \<Rightarrow> bool" where
  "good_round AP \<longleftrightarrow> distinct (fa_dequeued (fst AP)) \<and> distinct (fa_rx (fst AP))"

lemma keeps_fwd_port: "good_round AP \<Longrightarrow> keeps (fwd_port AP) {} {}"
  unfolding fwd_port_def good_round_def Let_def
  by (auto intro!: keeps_bind [where ?H1.0 = "{}"] keeps_step keeps_ret keeps_consume keeps_port_input keeps_fwd_ingress)

interpretation fwd: packet_job fwd_port good_round
  by unfold_locales (rule keeps_fwd_port)


section \<open>What the TAP thread does in a round\<close>

lemma tap_port_returns:
  assumes "snd (tap_port hr A enq P st) = Inr st'"
  shows "\<exists>m s n. ta_alloc A = Some (m, s) \<and>
    fst (tap_port hr A enq P st) = [Alloc (Some m), Read_fd (hostif_fd P) n, Enqueue (from_hostif P) m enq]"
proof -
  from assms obtain m s where a: "ta_alloc A = Some (m, s)" and l: "\<not> ta_len A < 0"
    by (auto simp: tap_port_def tap_recv_def split: option.splits if_splits elim!: snd_io_bind_InrE)
  with assms obtain s1 where w: "snd (write_data s (ta_data A)) = Inr s1"
    by (auto simp: tap_port_def tap_recv_def elim!: snd_io_bind_InrE)
  show ?thesis using a l w by (simp add: tap_port_def tap_recv_def Let_def)
qed

lemma tap_port_stops:
  assumes "snd (tap_port hr A enq P st) = Inl e"
  shows "fst (tap_port hr A enq P st) = [Alloc None] \<or>
    (\<exists>m s n x. ta_alloc A = Some (m, s) \<and> fst (tap_port hr A enq P st) = [Alloc (Some m), Read_fd (hostif_fd P) n] @ x \<and>
      (x = [] \<or> (\<exists>msg. x = [Exit_msg msg])))"
proof (cases "ta_alloc A")
  case None
  then show ?thesis by (simp add: tap_port_def tap_recv_def)
next
  case (Some ms)
  then obtain m s where a: "ta_alloc A = Some (m, s)" by (cases ms) simp
  show ?thesis
  proof (cases "ta_len A < 0")
    case True
    then show ?thesis using a by (simp add: tap_port_def tap_recv_def)
  next
    case False
    show ?thesis
    proof (cases "snd (write_data s (ta_data A))")
      case (Inl f)
      then have "write_data s (ta_data A) = ([], Inl f)" by (simp add: prod_eq_iff)
      then show ?thesis using a False by (simp add: tap_port_def tap_recv_def io_bind_def)
    next
      case (Inr s1)
      then show ?thesis using a False assms by (simp add: tap_port_def tap_recv_def Let_def)
    qed
  qed
qed


section \<open>The Ethernet type\<close>

lemma htons_bswap16: "htons v = bswap16 v"
  unfolding htons_def bswap16_def byte_masks
  by (intro bit_eqI) (auto simp: bit_simps dest: bit_imp_le_length)

text \<open>The type as the two bytes on the wire.\<close>

definition hostif_types :: "u8 list list" where
  "hostif_types = [[0x86, 0xdd], [0x08, 0x00], [0x08, 0x06], [0x81, 0x00]]"

lemma ether_type_is:
  "htons (of_nat (le_nat [a, b])) = of_nat (le_nat [y, x]) \<longleftrightarrow> [a, b] = [x, y]"
  unfolding htons_bswap16 bswap16_bytes using le_nat_word_inject [of "[b, a]" "[y, x]", where 'a = 16] by auto

lemma hostif_type_iff:
  "(htons (of_nat (le_nat [a, b])) = 0x86dd \<or> htons (of_nat (le_nat [a, b])) = 0x0800 \<or>
    htons (of_nat (le_nat [a, b])) = 0x0806 \<or> htons (of_nat (le_nat [a, b])) = 0x8100) \<longleftrightarrow> [a, b] \<in> set hostif_types"
  using ether_type_is [of a b "0xdd" "0x86"] ether_type_is [of a b "0x00" "0x08"]
    ether_type_is [of a b "0x06" "0x08"] ether_type_is [of a b "0x00" "0x81"]
  by (simp add: hostif_types_def)

section \<open>Properties\<close>

text \<open>
  A received packet with an Ethernet header goes to the TAP interface if its type is IPv6, IPv4, ARP
  or VLAN, and is freed unsent otherwise.
\<close>

theorem port_input_result:
  assumes "data_at (st m) + 14 \<le> length (room (st m))"
  shows "if take 2 (drop (data_at (st m) + 12) (room (st m))) \<in> set hostif_types
    then fst (port_input st result m pp) = Out Std_out (''Egress Packet'' @ [CHR 0x0A]) #
        Dump m (pkt_len (desc (st m))) # fst (tap_send result (hostif_fd pp) m st) \<and>
      snd (port_input st result m pp) = snd (tap_send result (hostif_fd pp) m st)
    else (\<exists>txt. port_input st result m pp = ([Out Std_out txt, Free m], Inr ()))"
proof -
  let ?b = "take 2 (drop (data_at (st m) + 12) (room (st m)))"
  obtain a b where ab: "?b = [a, b]" using list2 [of ?b] assms by auto
  have "load16 (room (st m)) (data_at (st m) + 12) = (ret (of_nat (le_nat [a, b])) :: u16 prog)"
    using assms by (simp add: load16_def load_def ab del: le_nat.simps)
  then show ?thesis
    unfolding port_input_def ab hostif_type_iff [symmetric] by (auto simp: call_def io_bind_def)
qed

definition arp_seg :: seg where
  "arp_seg = sample_seg\<lparr>room := replicate 14 0 @ [0x08, 0x06]\<rparr>"

theorem port_input_result_witness:
  "fst (port_input (\<lambda>_. arp_seg) 14 7 \<lparr>hostif_fd = 5, dpdk_pid = 0, nrxq = 1, ntxq = 1, hostif_addr = 0, hwaddr = [],
     from_hostif = 2, mp = 1\<rparr>) = [Out Std_out (''Egress Packet'' @ [CHR 0x0A]), Dump 7 0, Write_fd 5 7 [], Free 7]"
  using port_input_result [of "\<lambda>_. arp_seg" 7 14]
  by (simp add: arp_seg_def sample_seg_def data_at_def hostif_types_def tap_send_def read_data_def)

text \<open>
  The forwarding thread gives back every buffer it dequeued or received, sent, written or freed
  exactly once, in any number of rounds on any number of ports.
\<close>

theorem fwd_main_gives_back:
  assumes "list_all (\<lambda>r. list_all (\<lambda>A. distinct (fa_dequeued A) \<and> distinct (fa_rx A)) r) rs"
  shows "keeps (fwd_main lcore ports rs) {} {}"
proof -
  have "keeps (io_each fwd_port (zip r ports)) {} {}" if "r \<in> set rs" for r
  proof (rule fwd.rounds)
    show "list_all good_round (zip r ports)"
      using assms that by (auto simp: list_all_iff good_round_def dest!: set_zip_leftD)
  qed
  then have "keeps (io_each (\<lambda>r. io_each fwd_port (zip r ports)) rs) {} {}"
    by (rule keeps_each)
  then show ?thesis
    unfolding fwd_main_def by (rule keeps_step [rotated]) simp
qed

theorem fwd_main_gives_back_witness:
  "held_run (fst (fwd_main 1 [\<lparr>hostif_fd = 5, dpdk_pid = 0, nrxq = 1, ntxq = 1, hostif_addr = 0, hwaddr = [],
     from_hostif = 2, mp = 1\<rparr>] [[\<lparr>fa_empty = False, fa_dequeued = [1, 2], fa_deq_mem = \<lambda>_. arp_seg, fa_ntx = \<lambda>m. of_nat (m - 1), fa_rx = [3], fa_rx_mem = \<lambda>_. arp_seg,
     fa_write = \<lambda>_. 0\<rparr>]])) {} \<noteq> None"
  using fwd_main_gives_back [of "[[\<lparr>fa_empty = False, fa_dequeued = [1, 2], fa_deq_mem = \<lambda>_. arp_seg, fa_ntx = \<lambda>m. of_nat (m - 1), fa_rx = [3], fa_rx_mem = \<lambda>_. arp_seg, fa_write = \<lambda>_. 0\<rparr>]]"
      1]
  by (simp add: keeps_def)

end
