(* ===== verification/Traces.thy ===== *)
theory Traces
  imports Main "HOL-Library.Sublist"
begin

text \<open>
  Labelled step relations, their traces, and the contract of a queue that a step relation serves: what a
  step puts in goes to the end, what it takes out comes from the front. Two queues one behind the other
  are a queue.
\<close>

section \<open>Traces\<close>

inductive trace :: "('s \<Rightarrow> 'l \<Rightarrow> 's \<Rightarrow> bool) \<Rightarrow> 's \<Rightarrow> 'l list \<Rightarrow> 's \<Rightarrow> bool" for step s where
  trace_nil: "trace step s [] s"
| trace_snoc: "trace step s tr t \<Longrightarrow> step t l u \<Longrightarrow> trace step s (tr @ [l]) u"

lemma trace_append: "trace step t tr' u \<Longrightarrow> trace step s tr t \<Longrightarrow> trace step s (tr @ tr') u"
  by (induction rule: trace.induct) (auto intro: trace_snoc simp flip: append_assoc)

lemma trace_one: "step s l t \<Longrightarrow> trace step s [l] t"
  using trace_snoc [OF trace_nil] by fastforce

lemma trace_cons: "step s l t \<Longrightarrow> trace step t tr u \<Longrightarrow> trace step s (l # tr) u"
  using trace_append [OF _ trace_one] by fastforce

lemma trace_rtranclp: "trace step s tr t \<Longrightarrow> (\<lambda>s t. \<exists>l. step s l t)\<^sup>*\<^sup>* s t"
  by (induction rule: trace.induct) (auto intro: rtranclp.rtrancl_into_rtrancl)

lemma rtranclp_trace: "(\<lambda>s t. \<exists>l. step s l t)\<^sup>*\<^sup>* s t \<Longrightarrow> \<exists>tr. trace step s tr t"
  by (induction rule: rtranclp_induct) (auto intro: trace_nil trace_snoc)

section \<open>Queues\<close>

text \<open>What a trace hands over, label by label.\<close>

definition along :: "('l \<Rightarrow> 'a list) \<Rightarrow> 'l list \<Rightarrow> 'a list" where
  "along f tr = concat (map f tr)"

lemma along_simps [simp]: "along f [] = []" "along f (l # tr) = f l @ along f tr"
  and along_append [simp]: "along f (tr @ tr') = along f tr @ along f tr'"
  by (simp_all add: along_def)

locale queue =
  fixes step :: "'s \<Rightarrow> 'l \<Rightarrow> 's \<Rightarrow> bool" and inv :: "'s \<Rightarrow> bool"
    and contents :: "'s \<Rightarrow> 'a list" and put get :: "'l \<Rightarrow> 'a list"
  assumes inv_step: "step s l t \<Longrightarrow> inv s \<Longrightarrow> inv t"
    and fifo: "step s l t \<Longrightarrow> inv s \<Longrightarrow> contents s @ put l = get l @ contents t"
begin

lemma inv_trace: "trace step s tr t \<Longrightarrow> inv s \<Longrightarrow> inv t"
  by (induction rule: trace.induct) (auto intro: inv_step)

lemma conserved: "trace step s tr t \<Longrightarrow> inv s \<Longrightarrow> contents s @ along put tr = along get tr @ contents t"
proof (induction rule: trace.induct)
  case (trace_snoc tr t l u)
  then have "contents t @ put l = get l @ contents u"
    using fifo inv_trace by blast
  with trace_snoc show ?case by (metis along_append along_simps append.right_neutral append.assoc)
qed simp

lemma out_in_order:
  "trace step s tr t \<Longrightarrow> inv s \<Longrightarrow> contents s = [] \<Longrightarrow> prefix (along get tr) (along put tr)"
  by (drule (1) conserved) (auto simp: prefix_def)

end

locale two_queues =
  front: queue step inv front put mid + rear: queue step inv rear mid get
  for step :: "'s \<Rightarrow> 'l \<Rightarrow> 's \<Rightarrow> bool" and inv :: "'s \<Rightarrow> bool"
    and front rear :: "'s \<Rightarrow> 'a list" and put mid get :: "'l \<Rightarrow> 'a list"

sublocale two_queues \<subseteq> both: queue step inv "\<lambda>s. rear s @ front s" put get
proof
  show "step s l t \<Longrightarrow> inv s \<Longrightarrow> inv t" for s l t
    by (rule front.inv_step)
  show "step s l t \<Longrightarrow> inv s \<Longrightarrow> (rear s @ front s) @ put l = get l @ rear t @ front t" for s l t
    using front.fifo rear.fifo by (metis append.assoc)
qed

end
