(* ===== verification/Yak_Own.thy ===== *)
theory Yak_Own
  imports Yak Traces
begin

text \<open>
  The two threads of \<open>yak\<close> run at the same time and share the ring and the pool. Here they run as a
  step relation: a step is one call of one thread, the start of a thread's next round, or the driver
  taking a free buffer for reception or giving back a sent one. Where the buffers are is kept as the
  documentation of the calls has it.
\<close>

section \<open>The threads as a step relation\<close>

record yak_state =
  free_bufs :: "nat set"
  wire :: "nat set"
  rings :: "(nat \<times> nat) list"
  fwd_held :: "nat set"
  fwd_todo :: "call list"
  fwd_live :: bool
  tap_held :: "nat set"
  tap_todo :: "call list"
  tap_live :: bool
  lost :: "nat set"

text \<open>
  Which answers a state allows: a fresh buffer is free, an enqueue succeeds exactly if its ring is not
  full (one entry of the size a ring is created with stays unused), what is dequeued is at the head of its
  ring, one packet is sent at most, what is received was with the driver. The last two calls are not made
  by these programs.
\<close>

fun enabled :: "call \<Rightarrow> yak_state \<Rightarrow> bool" where
  "enabled (Alloc (Some p)) s \<longleftrightarrow> p \<in> free_bufs s"
| "enabled (Enqueue r p res) s \<longleftrightarrow> (res = 0 \<longleftrightarrow> length (filter (\<lambda>e. fst e = r) (rings s)) < ringsize - 1)"
| "enabled (Dequeue r ps) s \<longleftrightarrow> ps = take (length ps) (map snd (filter (\<lambda>e. fst e = r) (rings s)))"
| "enabled (Tx pid p n) s \<longleftrightarrow> n \<le> 1"
| "enabled (Rx pid ps) s \<longleftrightarrow> distinct ps \<and> set ps \<subseteq> wire s"
| "enabled (Chain p q) s \<longleftrightarrow> False"
| "enabled (Reassemble p q) s \<longleftrightarrow> False"
| "enabled c s \<longleftrightarrow> True"

fun moved :: "call \<Rightarrow> yak_state \<Rightarrow> yak_state" where
  "moved (Alloc (Some p)) s = s\<lparr>free_bufs := free_bufs s - {p}\<rparr>"
| "moved (Free p) s = s\<lparr>free_bufs := insert p (free_bufs s)\<rparr>"
| "moved (Enqueue r p res) s = (if res = 0 then s\<lparr>rings := rings s @ [(r, p)]\<rparr> else s)"
| "moved (Dequeue r ps) s = s\<lparr>rings := filter (\<lambda>e. snd e \<notin> set ps) (rings s)\<rparr>"
| "moved (Tx pid p n) s = (if n = 1 then s\<lparr>wire := insert p (wire s)\<rparr> else s)"
| "moved (Rx pid ps) s = s\<lparr>wire := wire s - set ps\<rparr>"
| "moved c s = s"

fun lost_step :: "call \<Rightarrow> nat set \<Rightarrow> nat set" where
  "lost_step (Enqueue r p res) L = (if res = 0 then L else insert p L)"
| "lost_step c L = L"

text \<open>
  A round whose calls end in a fault is the thread's last. A new buffer is not one the thread still
  has: \<open>enabled\<close> would refuse it anyway.
\<close>

datatype label =
    Fwd_start "fwd_answers \<times> port_t"
  | Fwd call
  | Tap_start tap_answers port_t
  | Tap call
  | Driver

inductive yak_lstep :: "yak_state \<Rightarrow> label \<Rightarrow> yak_state \<Rightarrow> bool" where
  fwd_round: "fwd_todo s = [] \<Longrightarrow> fwd_live s \<Longrightarrow> good_round AP \<Longrightarrow>
    yak_lstep s (Fwd_start AP)
      (s\<lparr>fwd_todo := fst (fwd_port AP), fwd_live := snd (fwd_port AP) = Inr ()\<rparr>)"
| fwd_call: "fwd_todo s = c # cs \<Longrightarrow> enabled c s \<Longrightarrow> held_step c (fwd_held s) = Some H \<Longrightarrow>
    yak_lstep s (Fwd c) ((moved c s)\<lparr>fwd_held := H, fwd_todo := cs\<rparr>)"
| tap_round: "tap_todo s = [] \<Longrightarrow> tap_live s \<Longrightarrow> set_option (map_option fst (ta_alloc A)) \<inter> tap_held s = {} \<Longrightarrow>
    yak_lstep s (Tap_start A P)
      (s\<lparr>tap_todo := fst (tap_port hr A enq P st), tap_live := (\<exists>st'. snd (tap_port hr A enq P st) = Inr st')\<rparr>)"
| tap_call: "tap_todo s = c # cs \<Longrightarrow> enabled c s \<Longrightarrow> held_step c (tap_held s) = Some H \<Longrightarrow>
    yak_lstep s (Tap c) ((moved c s)\<lparr>tap_held := H, tap_todo := cs, lost := lost_step c (lost s)\<rparr>)"
| rx_refill: "p \<in> free_bufs s \<Longrightarrow>
    yak_lstep s Driver (s\<lparr>free_bufs := free_bufs s - {p}, wire := insert p (wire s)\<rparr>)"
| tx_done: "p \<in> wire s \<Longrightarrow>
    yak_lstep s Driver (s\<lparr>free_bufs := insert p (free_bufs s), wire := wire s - {p}\<rparr>)"

inductive_cases yak_lstepE: "yak_lstep s l t"

abbreviation yak_step :: "yak_state \<Rightarrow> yak_state \<Rightarrow> bool" where
  "yak_step s t \<equiv> \<exists>l. yak_lstep s l t"

definition yak_init :: "nat set \<Rightarrow> yak_state" where
  "yak_init U = \<lparr>free_bufs = U, wire = {}, rings = [], fwd_held = {}, fwd_todo = [], fwd_live = True,
     tap_held = {}, tap_todo = [], tap_live = True, lost = {}\<rparr>"

text \<open>A thread is about to use a buffer it does not own.\<close>

definition misuse :: "call list \<Rightarrow> nat set \<Rightarrow> bool" where
  "misuse todo H \<longleftrightarrow> (case todo of [] \<Rightarrow> False | c # cs \<Rightarrow> held_step c H = None)"

section \<open>Where the buffers are\<close>

definition partition :: "nat set \<Rightarrow> nat set \<Rightarrow> nat set \<Rightarrow> nat set \<Rightarrow> nat set \<Rightarrow> nat set \<Rightarrow> bool" where
  "partition U F W X A B \<longleftrightarrow>
     (\<forall>b. (b \<in> U \<longleftrightarrow> b \<in> F \<or> b \<in> W \<or> b \<in> X \<or> b \<in> A \<or> b \<in> B) \<and>
       (b \<in> F \<longrightarrow> b \<notin> W \<and> b \<notin> X \<and> b \<notin> A \<and> b \<notin> B) \<and> (b \<in> W \<longrightarrow> b \<notin> X \<and> b \<notin> A \<and> b \<notin> B) \<and>
       (b \<in> X \<longrightarrow> b \<notin> A \<and> b \<notin> B) \<and> (b \<in> A \<longrightarrow> b \<notin> B))"

text \<open>Whatever moves between two places leaves a partition; any two places may be exchanged.\<close>

lemma partition_move:
  assumes "partition U F W X A B" and "Y \<subseteq> F"
  shows "partition U (F - Y) W X (A \<union> Y) B"
  unfolding partition_def
proof
  fix b
  show "(b \<in> U \<longleftrightarrow> b \<in> F - Y \<or> b \<in> W \<or> b \<in> X \<or> b \<in> A \<union> Y \<or> b \<in> B) \<and>
       (b \<in> F - Y \<longrightarrow> b \<notin> W \<and> b \<notin> X \<and> b \<notin> A \<union> Y \<and> b \<notin> B) \<and> (b \<in> W \<longrightarrow> b \<notin> X \<and> b \<notin> A \<union> Y \<and> b \<notin> B) \<and>
       (b \<in> X \<longrightarrow> b \<notin> A \<union> Y \<and> b \<notin> B) \<and> (b \<in> A \<union> Y \<longrightarrow> b \<notin> B)"
    using assms(1) [unfolded partition_def, THEN spec, of b] subsetD [OF assms(2), of b] by auto
qed

lemma partition_swaps:
  assumes "partition U F W X A B"
  shows "partition U F W X B A" and "partition U W F X A B" and "partition U X W F A B" and "partition U A W X F B"
    and "partition U F A X W B"
  using assms unfolding partition_def by meson+

lemma partition_moves:
  assumes "partition U F W X A B"
  shows "Y \<subseteq> W \<Longrightarrow> partition U F (W - Y) X (A \<union> Y) B"
    and "Y \<subseteq> X \<Longrightarrow> partition U F W (X - Y) (A \<union> Y) B"
    and "Y \<subseteq> A \<Longrightarrow> partition U (F \<union> Y) W X (A - Y) B"
    and "Y \<subseteq> A \<Longrightarrow> partition U F (W \<union> Y) X (A - Y) B"
    and "Y \<subseteq> A \<Longrightarrow> partition U F W (X \<union> Y) (A - Y) B"
    and "Y \<subseteq> F \<Longrightarrow> partition U (F - Y) (W \<union> Y) X A B"
    and "Y \<subseteq> W \<Longrightarrow> partition U (F \<union> Y) (W - Y) X A B"
proof -
  show "Y \<subseteq> W \<Longrightarrow> partition U F (W - Y) X (A \<union> Y) B"
    by (rule partition_swaps(2) [OF partition_move [OF partition_swaps(2) [OF assms]]])
  show "Y \<subseteq> X \<Longrightarrow> partition U F W (X - Y) (A \<union> Y) B"
    by (rule partition_swaps(3) [OF partition_move [OF partition_swaps(3) [OF assms]]])
  show "Y \<subseteq> A \<Longrightarrow> partition U (F \<union> Y) W X (A - Y) B"
    by (rule partition_swaps(4) [OF partition_move [OF partition_swaps(4) [OF assms]]])
  show "Y \<subseteq> A \<Longrightarrow> partition U F (W \<union> Y) X (A - Y) B"
    by (rule partition_swaps(5) [OF partition_swaps(2) [OF partition_move [OF partition_swaps(2) [OF partition_swaps(5) [OF assms]]]]])
  show "Y \<subseteq> A \<Longrightarrow> partition U F W (X \<union> Y) (A - Y) B"
    by (rule partition_swaps(3) [OF partition_swaps(4) [OF partition_move [OF partition_swaps(4) [OF partition_swaps(3) [OF assms]]]]])
  show "Y \<subseteq> F \<Longrightarrow> partition U (F - Y) (W \<union> Y) X A B"
    by (rule partition_swaps(5) [OF partition_move [OF partition_swaps(5) [OF assms]]])
  show "Y \<subseteq> W \<Longrightarrow> partition U (F \<union> Y) (W - Y) X A B"
    by (rule partition_swaps(2) [OF partition_swaps(5) [OF partition_move [OF partition_swaps(5) [OF partition_swaps(2) [OF assms]]]]])
qed

lemma dequeued_in_ring:
  assumes "ps = take n (map snd (filter P R))"
  shows "set ps \<subseteq> snd ` set R"
  using assms set_take_subset [of n "map snd (filter P R)"] by auto

lemma image_filter_snd: "snd ` set (filter (\<lambda>e. snd e \<notin> X) R) = snd ` set R - X"
  by auto

abbreviation buffers :: "nat set \<Rightarrow> yak_state \<Rightarrow> nat set \<Rightarrow> nat set \<Rightarrow> bool" where
  "buffers U s A B \<equiv> partition U (free_bufs s) (wire s) (snd ` set (rings s)) A B"

lemma call_partition:
  assumes "buffers U s A B" and "enabled c s" and "held_step c A = Some A'"
  shows "buffers U (moved c s) A' B"
  using assms
proof (induction c A rule: held_step.induct)
  case (1 p H)
  then show ?case using partition_move [of U "free_bufs s" "wire s" _ H B "{p}"] by auto
next
  case (2 p H)
  then show ?case using partition_moves(3) [of U "free_bufs s" "wire s" _ H B "{p}"] by (auto split: if_splits)
next
  case (5 r p res H)
  then show ?case using partition_moves(5) [of U "free_bufs s" "wire s" _ H B "{p}"] by (auto split: if_splits)
next
  case (6 r ps H)
  then have "set ps \<subseteq> snd ` set (rings s)" by (auto dest: dequeued_in_ring)
  with 6 show ?case
    using partition_moves(2) [of U "free_bufs s" "wire s" _ H B "set ps"] by (auto simp: image_filter_snd simp del: set_filter)
next
  case (7 pid p n H)
  then show ?case using partition_moves(4) [of U "free_bufs s" "wire s" _ H B "{p}"] by (auto split: if_splits)
next
  case (8 pid ps H)
  then show ?case using partition_moves(1) [of U "free_bufs s" "wire s" _ H B "set ps"] by auto
qed (auto split: if_splits)

section \<open>The TAP thread\<close>

text \<open>The rest of a round: it does not touch a lost buffer, and an enqueue is its last call.\<close>

fun tap_wf :: "nat set \<Rightarrow> call list \<Rightarrow> bool" where
  "tap_wf L [] \<longleftrightarrow> True"
| "tap_wf L (Enqueue r p res # cs) \<longleftrightarrow> p \<notin> L \<and> cs = []"
| "tap_wf L (Alloc (Some p) # cs) \<longleftrightarrow> p \<notin> L \<and> tap_wf L cs"
| "tap_wf L (Alloc None # cs) \<longleftrightarrow> tap_wf L cs"
| "tap_wf L (Read_fd fd n # cs) \<longleftrightarrow> tap_wf L cs"
| "tap_wf L (Exit_msg msg # cs) \<longleftrightarrow> tap_wf L cs"
| "tap_wf L (c # cs) \<longleftrightarrow> False"

fun lost_run :: "call list \<Rightarrow> nat set \<Rightarrow> nat set" where
  "lost_run [] L = L"
| "lost_run (c # cs) L = lost_run cs (lost_step c L)"

lemma tap_wf_step:
  assumes "tap_wf L (c # cs)" and "L \<subseteq> H" and "held_step c H = Some H'"
  shows "tap_wf (lost_step c L) cs" and "lost_step c L \<subseteq> H'"
  using assms by (cases "(L, c # cs)" rule: tap_wf.cases; auto split: if_splits)+

lemma tap_job:
  assumes "set_option (map_option fst (ta_alloc A)) \<inter> H = {}" and "L \<subseteq> H"
  shows "tap_wf L (fst (tap_port hr A enq P st))"
    and "held_run (fst (tap_port hr A enq P st)) H \<noteq> None"
    and "snd (tap_port hr A enq P st) = Inr st' \<Longrightarrow>
      held_run (fst (tap_port hr A enq P st)) L = Some (lost_run (fst (tap_port hr A enq P st)) L)"
proof -
  show "snd (tap_port hr A enq P st) = Inr st' \<Longrightarrow>
      held_run (fst (tap_port hr A enq P st)) L = Some (lost_run (fst (tap_port hr A enq P st)) L)"
    using assms by (auto dest!: tap_port_returns)
  show "tap_wf L (fst (tap_port hr A enq P st))" "held_run (fst (tap_port hr A enq P st)) H \<noteq> None"
    using assms by (cases "snd (tap_port hr A enq P st)"; auto dest!: tap_port_returns tap_port_stops)+
qed


section \<open>The invariant\<close>

lemma moved_other [simp]:
  "fwd_held (moved c s) = fwd_held s" "fwd_todo (moved c s) = fwd_todo s" "fwd_live (moved c s) = fwd_live s"
  "tap_held (moved c s) = tap_held s" "tap_todo (moved c s) = tap_todo s" "tap_live (moved c s) = tap_live s"
  "lost (moved c s) = lost s"
  by (cases "(c, s)" rule: moved.cases; simp)+

definition yak_inv :: "nat set \<Rightarrow> yak_state \<Rightarrow> bool" where
  "yak_inv U s \<longleftrightarrow>
     buffers U s (fwd_held s) (tap_held s) \<and> distinct (map snd (rings s)) \<and>
     held_run (fwd_todo s) (fwd_held s) \<noteq> None \<and>
     (fwd_live s \<longrightarrow> held_run (fwd_todo s) (fwd_held s) = Some {}) \<and>
     held_run (tap_todo s) (tap_held s) \<noteq> None \<and>
     (tap_live s \<longrightarrow> held_run (tap_todo s) (tap_held s) = Some (lost_run (tap_todo s) (lost s))) \<and>
     tap_wf (lost s) (tap_todo s) \<and> lost s \<subseteq> tap_held s"

lemma distinct_rings:
  assumes "buffers U s A B" and "distinct (map snd (rings s))" and "held_step c A = Some A'"
  shows "distinct (map snd (rings (moved c s)))"
  using assms
proof (induction c A rule: held_step.induct)
  case (5 r p res H)
  then show ?case by (auto simp: partition_def split: if_splits)
qed (auto simp: distinct_map_filter split: if_splits)

lemma yak_inv_step: "yak_lstep s l t \<Longrightarrow> yak_inv U s \<Longrightarrow> yak_inv U t"
proof (induction rule: yak_lstep.induct)
  case (fwd_round s AP)
  then have h: "fwd_held s = {}" by (simp add: yak_inv_def)
  show ?case
    using fwd_round fwd.never_misused [of AP] fwd.gives_back [of AP] by (simp add: yak_inv_def h)
next
  case (fwd_call s c cs H)
  have "buffers U (moved c s) H (tap_held s)" "distinct (map snd (rings (moved c s)))"
    using fwd_call call_partition distinct_rings unfolding yak_inv_def by blast+
  with fwd_call show ?case by (simp add: yak_inv_def)
next
  case (tap_round s A hr enq P st)
  then have "tap_held s = lost s" by (simp add: yak_inv_def)
  with tap_round show ?case
    using tap_job [OF tap_round(3), of "lost s"] by (auto simp: yak_inv_def)
next
  case (tap_call s c cs H)
  then have i: "buffers U s (fwd_held s) (tap_held s)" "distinct (map snd (rings s))"
    "tap_wf (lost s) (c # cs)" "lost s \<subseteq> tap_held s" by (simp_all add: yak_inv_def)
  have "buffers U (moved c s) (fwd_held s) H"
    by (rule partition_swaps(1) [OF call_partition [OF partition_swaps(1) [OF i(1)] tap_call(2,3)]])
  moreover have "distinct (map snd (rings (moved c s)))"
    by (rule distinct_rings [OF partition_swaps(1) [OF i(1)] i(2) tap_call(3)])
  ultimately show ?case
    using tap_call tap_wf_step [OF i(3,4) tap_call(3)] by (simp add: yak_inv_def)
next
  case (rx_refill p s)
  then show ?case using partition_moves(6) [of U "free_bufs s" "wire s" _ _ _ "{p}"] by (simp add: yak_inv_def)
next
  case (tx_done p s)
  then show ?case using partition_moves(7) [of U "free_bufs s" "wire s" _ _ _ "{p}"] by (simp add: yak_inv_def)
qed

lemma yak_inv_init: "yak_inv U (yak_init U)"
  by (simp add: yak_inv_def yak_init_def partition_def)

text \<open>Every trace is a run of the unlabelled steps and the other way round.\<close>

lemma yak_reachable_trace: "yak_step\<^sup>*\<^sup>* s t \<longleftrightarrow> (\<exists>tr. trace yak_lstep s tr t)"
  using rtranclp_trace trace_rtranclp by metis

lemma yak_inv_reachable: "yak_step\<^sup>*\<^sup>* (yak_init U) s \<Longrightarrow> yak_inv U s"
  by (induction rule: rtranclp_induct) (auto intro: yak_inv_init yak_inv_step)

lemma held_run_no_misuse: "held_run cs H \<noteq> None \<Longrightarrow> \<not> misuse cs H"
  by (cases cs) (auto simp: misuse_def split: option.splits)

section \<open>Runs of the TAP thread\<close>

definition sample_port :: port_t where
  "sample_port = \<lparr>hostif_fd = 5, dpdk_pid = 0, nrxq = 1, ntxq = 1, hostif_addr = 0, hwaddr = [1, 2, 3, 4, 5, 6],
     from_hostif = 2, mp = 1\<rparr>"

definition frame_at :: "nat \<Rightarrow> tap_answers" where
  "frame_at k = \<lparr>ta_alloc = Some (k, sample_seg), ta_len = 3, ta_data = [1, 2, 3]\<rparr>"

abbreviation sample_frame :: tap_answers where
  "sample_frame \<equiv> frame_at 7"

lemmas sample_frame_def = frame_at_def [of 7]

text \<open>The labels of a round that reads a frame into buffer \<open>k\<close>, and the states between such rounds.\<close>

definition frame_in :: "nat \<Rightarrow> label list" where
  "frame_in k = [Tap_start (frame_at k) sample_port, Tap (Alloc (Some k)), Tap (Read_fd 5 6), Tap (Enqueue 2 k 0)]"

definition ring_state :: "nat set \<Rightarrow> (nat \<times> nat) list \<Rightarrow> yak_state" where
  "ring_state F R = \<lparr>free_bufs = F, wire = {}, rings = R, fwd_held = {}, fwd_todo = [], fwd_live = True, tap_held = {},
     tap_todo = [], tap_live = True, lost = {}\<rparr>"

lemma yak_init_ring_state: "yak_init U = ring_state U []"
  by (simp add: yak_init_def ring_state_def)

lemma frame_round:
  "fst (tap_port data_off (frame_at k) res sample_port (\<lambda>_. sample_seg)) = [Alloc (Some k), Read_fd 5 6, Enqueue 2 k res]"
  "\<exists>st'. snd (tap_port data_off (frame_at k) res sample_port (\<lambda>_. sample_seg)) = Inr st'"
  by (simp_all add: tap_port_def tap_recv_def frame_at_def sample_seg_def sample_port_def write_data_def
      data_at_def Let_def)

lemma frame_in_run:
  assumes "k \<in> F" and "length (filter (\<lambda>e. fst e = 2) R) < ringsize - 1"
  shows "trace yak_lstep (ring_state F R) (frame_in k) (ring_state (F - {k}) (R @ [(2, k)]))"
proof -
  let ?s0 = "ring_state F R"
  let ?s1 = "?s0\<lparr>tap_todo := [Alloc (Some k), Read_fd 5 6, Enqueue 2 k 0], tap_live := True\<rparr>"
  let ?s2 = "?s1\<lparr>free_bufs := F - {k}, tap_held := {k}, tap_todo := [Read_fd 5 6, Enqueue 2 k 0]\<rparr>"
  let ?s3 = "?s2\<lparr>tap_todo := [Enqueue 2 k 0]\<rparr>"
  have "yak_lstep ?s0 (Tap_start (frame_at k) sample_port) ?s1"
    using yak_lstep.tap_round [of ?s0 "frame_at k" sample_port data_off 0 "\<lambda>_. sample_seg"] frame_round
    by (simp add: ring_state_def)
  moreover have "yak_lstep ?s1 (Tap (Alloc (Some k))) ?s2"
    using yak_lstep.tap_call [of ?s1 "Alloc (Some k)" "[Read_fd 5 6, Enqueue 2 k 0]" "{k}"] assms(1)
    by (simp add: ring_state_def)
  moreover have "yak_lstep ?s2 (Tap (Read_fd 5 6)) ?s3"
    using yak_lstep.tap_call [of ?s2 "Read_fd 5 6" "[Enqueue 2 k 0]" "{k}"] by (simp add: ring_state_def)
  moreover have "yak_lstep ?s3 (Tap (Enqueue 2 k 0)) (ring_state (F - {k}) (R @ [(2, k)]))"
    using yak_lstep.tap_call [of ?s3 "Enqueue 2 k 0" "[]" "{}"] assms(2)
    by (simp add: ring_state_def)
  ultimately show ?thesis unfolding frame_in_def by (intro trace_cons trace_one)
qed

text \<open>A frame has come in: buffer 7 waits in the ring.\<close>

lemma sample_run: "yak_step\<^sup>*\<^sup>* (yak_init {7, 8}) (ring_state {8} [(2, 7)])"
  using trace_rtranclp [OF frame_in_run [of 7 "{7, 8}" "[]"]] by (simp add: yak_init_ring_state ringsize_def insert_Diff_if)

section \<open>Properties\<close>

text \<open>
  C4: whatever the two threads and the driver do, and however their steps interleave, every buffer of
  the pool is in exactly one place: free, with the driver, in a ring, or held by one of the threads; no
  buffer is in the rings twice.
\<close>

theorem buffers_partitioned:
  assumes "yak_step\<^sup>*\<^sup>* (yak_init U) s"
  shows "buffers U s (fwd_held s) (tap_held s) \<and> distinct (map snd (rings s))"
  using yak_inv_reachable [OF assms] by (simp add: yak_inv_def)

theorem buffers_partitioned_witness:
  "buffers {7, 8} (ring_state {8} [(2, 7)]) {} {}"
  using buffers_partitioned [OF sample_run] by (simp add: ring_state_def)

text \<open>
  C5: in no reachable state is a thread about to use, send, enqueue or free a buffer that it does not
  own: there is no double free and no use after a packet was handed on.
\<close>

theorem no_misuse:
  assumes "yak_step\<^sup>*\<^sup>* (yak_init U) s"
  shows "\<not> misuse (fwd_todo s) (fwd_held s) \<and> \<not> misuse (tap_todo s) (tap_held s)"
  using yak_inv_reachable [OF assms] by (simp add: yak_inv_def held_run_no_misuse)

theorem no_misuse_witness:
  "\<not> misuse (tap_todo (ring_state {8} [(2, 7)])) (tap_held (ring_state {8} [(2, 7)]))"
  using no_misuse [OF sample_run] by simp

text \<open>
  C20: between two rounds the forwarding thread holds nothing, and the TAP thread holds exactly the
  buffers whose enqueue failed.
\<close>

theorem threads_hold:
  assumes "yak_step\<^sup>*\<^sup>* (yak_init U) s"
  shows "(fwd_todo s = [] \<and> fwd_live s \<longrightarrow> fwd_held s = {}) \<and> (tap_todo s = [] \<and> tap_live s \<longrightarrow> tap_held s = lost s)"
  using yak_inv_reachable [OF assms] by (auto simp: yak_inv_def)

theorem threads_hold_witness:
  "fwd_held (ring_state {8} [(2, 7)]) = {} \<and> tap_held (ring_state {8} [(2, 7)]) = {}"
  using threads_hold [OF sample_run] by (simp add: ring_state_def)

end
