(* ===== verification/Yak_Trace.thy ===== *)
theory Yak_Trace
  imports Yak_Own
begin

text \<open>
  The traces of the two threads of \<open>yak\<close>: the frames of a port leave in the order the TAP thread took
  them in, through two queues one behind the other (the ring, and what the forwarding thread has in its
  hand), and a ring of the size it is created with never refuses one.
\<close>

section \<open>What a call hands over\<close>

fun accepted :: "nat \<Rightarrow> call \<Rightarrow> nat list" where
  "accepted r (Enqueue r' p res) = (if r' = r \<and> res = 0 then [p] else [])"
| "accepted r c = []"

fun dequeued :: "nat \<Rightarrow> call \<Rightarrow> nat list" where
  "dequeued r (Dequeue r' ps) = (if r' = r then ps else [])"
| "dequeued r c = []"

fun offered :: "u16 \<Rightarrow> call \<Rightarrow> nat list" where
  "offered pid (Tx pid' p n) = (if pid' = pid then [p] else [])"
| "offered pid c = []"

fun sent :: "u16 \<Rightarrow> call \<Rightarrow> nat list" where
  "sent pid (Tx pid' p n) = (if pid' = pid \<and> n = 1 then [p] else [])"
| "sent pid c = []"

fun on_calls :: "(call \<Rightarrow> 'a list) \<Rightarrow> label \<Rightarrow> 'a list" where
  "on_calls f (Fwd c) = f c"
| "on_calls f (Tap c) = f c"
| "on_calls f l = []"

text \<open>The two queues of a port.\<close>

definition waiting :: "nat \<Rightarrow> yak_state \<Rightarrow> nat list" where
  "waiting r s = map snd (filter (\<lambda>e. fst e = r) (rings s))"

definition in_hand :: "u16 \<Rightarrow> yak_state \<Rightarrow> nat list" where
  "in_hand pid s = (case fwd_todo s of Dequeue r ps # cs \<Rightarrow> [] | cs \<Rightarrow> along (offered pid) cs)"

text \<open>The threads serve the ports of a table in which no two ports share a ring or a device.\<close>

definition wired :: "port_t list \<Rightarrow> bool" where
  "wired ports \<longleftrightarrow> distinct (map from_hostif ports) \<and> distinct (map dpdk_pid ports)"

definition yak_on :: "port_t list \<Rightarrow> yak_state \<Rightarrow> label \<Rightarrow> yak_state \<Rightarrow> bool" where
  "yak_on ports s l t \<longleftrightarrow> yak_lstep s l t \<and>
     (case l of Fwd_start AP \<Rightarrow> snd AP \<in> set ports | Tap_start A P \<Rightarrow> P \<in> set ports | _ \<Rightarrow> True)"

lemma trace_yak_on:
  "trace yak_lstep s tr t \<Longrightarrow>
   list_all (\<lambda>l. case l of Fwd_start AP \<Rightarrow> snd AP \<in> set ports | Tap_start A P \<Rightarrow> P \<in> set ports | _ \<Rightarrow> True) tr \<Longrightarrow>
   trace (yak_on ports) s tr t"
  by (induction rule: trace.induct) (auto intro: trace_nil trace_snoc simp: yak_on_def)

section \<open>The ring is a queue\<close>

lemma filter_not_prefix: "distinct (ps @ qs) \<Longrightarrow> filter (\<lambda>x. x \<notin> set ps) (ps @ qs) = qs"
  by (auto simp: filter_id_conv filter_empty_conv)

lemma waiting_without:
  "map snd (filter (\<lambda>e. fst e = r) (filter (\<lambda>e. snd e \<notin> X) R)) = filter (\<lambda>p. p \<notin> X) (map snd (filter (\<lambda>e. fst e = r) R))"
  by (induction R) auto

lemma ring_of_unique:
  assumes "distinct (map snd R)" and "(r, p) \<in> set R" and "(r', p) \<in> set R"
  shows "r = r'"
  using assms by (metis Pair_inject distinct_map inj_onD snd_conv)

lemma ring_fifo:
  assumes "distinct (map snd (rings s))" and "enabled c s"
  shows "waiting r s @ accepted r c = dequeued r c @ waiting r (moved c s)"
  using assms
proof (induction c s rule: moved.induct)
  case (4 r' ps s)
  let ?W = "waiting r s"
  have m: "waiting r (moved (Dequeue r' ps) s) = filter (\<lambda>p. p \<notin> set ps) ?W"
    by (simp add: waiting_def waiting_without del: filter_filter)
  have ps: "ps = take (length ps) (waiting r' s)"
    using "4.prems"(2) by (simp add: waiting_def)
  show ?case
  proof (cases "r' = r")
    case True
    define qs where "qs = drop (length ps) ?W"
    have W: "?W = ps @ qs" using ps True by (metis append_take_drop_id qs_def)
    moreover have "distinct ?W" using "4.prems"(1) by (simp add: waiting_def distinct_map_filter)
    ultimately have "filter (\<lambda>p. p \<notin> set ps) ?W = qs" by (metis filter_not_prefix)
    with m W True show ?thesis by simp
  next
    case False
    have "p \<notin> set ps" if "p \<in> set ?W" for p
    proof
      assume "p \<in> set ps"
      then have "p \<in> set (waiting r' s)" using ps by (metis in_set_takeD)
      then show False
        using that False ring_of_unique [OF "4.prems"(1)] by (auto simp: waiting_def)
    qed
    then have "filter (\<lambda>p. p \<notin> set ps) ?W = ?W" by (simp add: filter_id_conv)
    with m False show ?thesis by simp
  qed
qed (simp_all add: waiting_def)

section \<open>The forwarding thread is a queue\<close>

text \<open>A call that has to do with neither queue.\<close>

fun dull :: "call \<Rightarrow> bool" where
  "dull (Dequeue r ps) = False"
| "dull (Tx pid p n) = False"
| "dull c = True"

fun no_take :: "call \<Rightarrow> bool" where
  "no_take (Dequeue r ps) = False"
| "no_take c = True"

lemma dull_simps: "dull c \<Longrightarrow> no_take c" "dull c \<Longrightarrow> offered pid c = []"
  by (cases c; simp)+

lemma dull_list: "list_all dull cs \<Longrightarrow> list_all no_take cs" "list_all dull cs \<Longrightarrow> along (offered pid) cs = []"
  by (induction cs) (auto simp: dull_simps)

lemma calls_bind: "list_all Q (fst m) \<Longrightarrow> (\<And>a. list_all Q (fst (f a))) \<Longrightarrow> list_all Q (fst (io_bind m f))"
  by (auto simp: io_bind_def split: sum.splits)

lemma calls_each: "(\<And>x. list_all Q (fst (f x))) \<Longrightarrow> list_all Q (fst (io_each f xs))"
  by (induction xs) (auto intro!: calls_bind)

lemma dull_port_input: "list_all dull (fst (port_input st result m pp))"
  unfolding port_input_def tap_send_def by (auto intro!: calls_bind)

lemma fwd_ingress_calls:
  "fst (fwd_ingress st ntx P m) = [Out Std_out (''Ingress Packet'' @ [CHR 0x0A]), Dump m (pkt_len (desc (st m))),
     Tx (dpdk_pid P) m (ntx m)] @ (if ntx m \<noteq> 1 then [Free m] else [])"
  "snd (fwd_ingress st ntx P m) = Inr ()"
  by (simp_all add: fwd_ingress_def)

lemma ingress_each:
  "snd (io_each (fwd_ingress st ntx P) ms) = Inr ()"
  "list_all no_take (fst (io_each (fwd_ingress st ntx P) ms))"
  "along (offered pid) (fst (io_each (fwd_ingress st ntx P) ms)) = (if pid = dpdk_pid P then ms else [])"
  by (induction ms) (auto simp: fwd_ingress_calls)

text \<open>
  The rest of a round: before its dequeue it is going to offer what it dequeues, in order, to the device
  of the same port; after it, it dequeues nothing more.
\<close>

fun fwd_wf :: "port_t list \<Rightarrow> call list \<Rightarrow> bool" where
  "fwd_wf ports (Dequeue r ps # cs) \<longleftrightarrow> list_all no_take cs \<and> (\<exists>P\<in>set ports. from_hostif P = r \<and>
     (\<forall>pid. along (offered pid) cs = (if pid = dpdk_pid P then ps else [])))"
| "fwd_wf ports cs \<longleftrightarrow> list_all no_take cs"

lemma fwd_wf_no_take: "list_all no_take cs \<Longrightarrow> fwd_wf ports cs"
  by (cases "(ports, cs)" rule: fwd_wf.cases) simp_all

lemma in_hand_no_take: "list_all no_take (fwd_todo s) \<Longrightarrow> in_hand pid s = along (offered pid) (fwd_todo s)"
  by (auto simp: in_hand_def split: list.split call.split)

lemma fwd_round_calls:
  "\<exists>xs. list_all dull xs \<and> fst (fwd_port AP) =
     (if fa_empty (fst AP) then [] else Dequeue (from_hostif (snd AP)) (fa_dequeued (fst AP)) #
        fst (io_each (fwd_ingress (fa_deq_mem (fst AP)) (fa_ntx (fst AP)) (snd AP)) (fa_dequeued (fst AP)))) @ xs"
proof (intro exI conjI)
  let ?xs = "fst (io_seq (call (Rx (dpdk_pid (snd AP)) (fa_rx (fst AP))))
        (io_each (\<lambda>m. port_input (fa_rx_mem (fst AP)) (fa_write (fst AP) m) m (snd AP)) (fa_rx (fst AP))))"
  show "list_all dull ?xs"
    by (intro calls_bind calls_each dull_port_input) simp
  show "fst (fwd_port AP) =
     (if fa_empty (fst AP) then [] else Dequeue (from_hostif (snd AP)) (fa_dequeued (fst AP)) #
        fst (io_each (fwd_ingress (fa_deq_mem (fst AP)) (fa_ntx (fst AP)) (snd AP)) (fa_dequeued (fst AP)))) @ ?xs"
    by (simp add: fwd_port_def Let_def ingress_each)
qed

lemma fwd_round_wf:
  assumes "snd AP \<in> set ports"
  shows "fwd_wf ports (fst (fwd_port AP))"
    and "fwd_todo s = fst (fwd_port AP) \<Longrightarrow> in_hand pid s = []"
proof -
  obtain xs where xs: "list_all dull xs" and c: "fst (fwd_port AP) =
     (if fa_empty (fst AP) then [] else Dequeue (from_hostif (snd AP)) (fa_dequeued (fst AP)) #
        fst (io_each (fwd_ingress (fa_deq_mem (fst AP)) (fa_ntx (fst AP)) (snd AP)) (fa_dequeued (fst AP)))) @ xs"
    using fwd_round_calls by blast
  show "fwd_wf ports (fst (fwd_port AP))"
    using assms by (auto simp: c dull_list [OF xs] ingress_each intro!: fwd_wf_no_take)
  show "fwd_todo s = fst (fwd_port AP) \<Longrightarrow> in_hand pid s = []"
    using dull_list [OF xs] by (cases "fa_empty (fst AP)") (simp_all add: c in_hand_no_take, simp add: in_hand_def)
qed

lemma fwd_wf_tail: "fwd_wf ports (c # cs) \<Longrightarrow> list_all no_take cs"
  by (cases c) auto

definition port_inv :: "nat set \<Rightarrow> port_t list \<Rightarrow> port_t \<Rightarrow> yak_state \<Rightarrow> bool" where
  "port_inv U ports P s \<longleftrightarrow> yak_inv U s \<and> wired ports \<and> P \<in> set ports \<and> fwd_wf ports (fwd_todo s)"

lemma waiting_update [simp]:
  "waiting r (s\<lparr>fwd_held := X\<rparr>) = waiting r s" "waiting r (s\<lparr>fwd_todo := cs\<rparr>) = waiting r s"
  "waiting r (s\<lparr>fwd_live := b\<rparr>) = waiting r s" "waiting r (s\<lparr>tap_held := X\<rparr>) = waiting r s"
  "waiting r (s\<lparr>tap_todo := cs\<rparr>) = waiting r s" "waiting r (s\<lparr>tap_live := b\<rparr>) = waiting r s"
  "waiting r (s\<lparr>lost := X\<rparr>) = waiting r s" "waiting r (s\<lparr>free_bufs := X\<rparr>) = waiting r s"
  "waiting r (s\<lparr>wire := X\<rparr>) = waiting r s"
  by (simp_all add: waiting_def)

lemma in_hand_update [simp]:
  "in_hand pid (s\<lparr>tap_held := X\<rparr>) = in_hand pid s" "in_hand pid (s\<lparr>tap_todo := cs\<rparr>) = in_hand pid s"
  "in_hand pid (s\<lparr>tap_live := b\<rparr>) = in_hand pid s" "in_hand pid (s\<lparr>lost := X\<rparr>) = in_hand pid s"
  "in_hand pid (s\<lparr>free_bufs := X\<rparr>) = in_hand pid s" "in_hand pid (s\<lparr>wire := X\<rparr>) = in_hand pid s"
  "in_hand pid (moved c s) = in_hand pid s"
  by (simp_all add: in_hand_def)

lemma port_inv_step:
  assumes "yak_on ports s l t" and "port_inv U ports P s"
  shows "port_inv U ports P t"
proof -
  from assms(1) have l: "yak_lstep s l t" by (simp add: yak_on_def)
  then have "fwd_wf ports (fwd_todo t)"
  proof cases
    case (fwd_round AP)
    then show ?thesis using assms(1) by (simp add: yak_on_def fwd_round_wf)
  next
    case (fwd_call c cs H)
    then show ?thesis using assms(2) by (auto simp: port_inv_def dest: fwd_wf_tail intro: fwd_wf_no_take)
  qed (use assms(2) in \<open>auto simp: port_inv_def\<close>)
  then show ?thesis using assms(2) yak_inv_step [OF l, of U] by (simp add: port_inv_def)
qed

lemma ring_step:
  assumes "yak_on ports s l t" and "port_inv U ports P s"
  shows "waiting r s @ on_calls (accepted r) l = on_calls (dequeued r) l @ waiting r t"
proof -
  from assms have l: "yak_lstep s l t" and d: "distinct (map snd (rings s))"
    by (simp_all add: yak_on_def port_inv_def yak_inv_def)
  from l show ?thesis
    by cases (use ring_fifo [OF d] in simp_all)
qed

lemma wired_port:
  assumes "wired ports" and "P \<in> set ports" and "Q \<in> set ports"
  shows "from_hostif P = from_hostif Q \<longleftrightarrow> P = Q" and "dpdk_pid P = dpdk_pid Q \<longleftrightarrow> P = Q"
  using assms by (auto simp: wired_def distinct_map inj_on_def)

lemma hand_call:
  assumes "wired ports" and "P \<in> set ports" and "fwd_wf ports (c # cs)" and "fwd_todo s = c # cs" and "fwd_todo t = cs"
  shows "in_hand (dpdk_pid P) s @ dequeued (from_hostif P) c = offered (dpdk_pid P) c @ in_hand (dpdk_pid P) t"
proof -
  have t: "in_hand (dpdk_pid P) t = along (offered (dpdk_pid P)) cs"
    using fwd_wf_tail [OF assms(3)] by (simp add: in_hand_no_take assms(5))
  show ?thesis
  proof (cases "\<exists>r ps. c = Dequeue r ps")
    case True
    then obtain r ps where c: "c = Dequeue r ps" by blast
    with assms(3) obtain Q where "Q \<in> set ports" "from_hostif Q = r"
      "\<And>pid. along (offered pid) cs = (if pid = dpdk_pid Q then ps else [])" by auto
    moreover have "in_hand (dpdk_pid P) s = []" by (simp add: in_hand_def assms(4) c)
    ultimately show ?thesis using wired_port [OF assms(1,2), of Q] by (auto simp: t c)
  next
    case False
    then have "in_hand (dpdk_pid P) s = along (offered (dpdk_pid P)) (c # cs)" "dequeued (from_hostif P) c = []"
      by (cases c; simp add: in_hand_def assms(4))+
    then show ?thesis by (simp add: t)
  qed
qed

lemma tap_wf_dull: "tap_wf L (c # cs) \<Longrightarrow> dull c"
  by (cases c) auto

lemma hand_step:
  assumes "yak_on ports s l t" and "port_inv U ports P s"
  shows "in_hand (dpdk_pid P) s @ on_calls (dequeued (from_hostif P)) l = on_calls (offered (dpdk_pid P)) l @ in_hand (dpdk_pid P) t"
proof -
  from assms(1) have l: "yak_lstep s l t" by (simp add: yak_on_def)
  from l show ?thesis
  proof cases
    case (fwd_round AP)
    then have "in_hand (dpdk_pid P) s = []" by (simp add: in_hand_def)
    moreover have "in_hand (dpdk_pid P) t = []"
      using fwd_round assms(1) fwd_round_wf(2) [of AP ports t] by (simp add: yak_on_def)
    ultimately show ?thesis using fwd_round by simp
  next
    case (fwd_call c cs H)
    then show ?thesis using hand_call [of ports P c cs s t] assms(2) by (simp add: port_inv_def)
  next
    case (tap_call c cs H)
    then have "dull c" using assms(2) by (auto simp: port_inv_def yak_inv_def dest: tap_wf_dull)
    then have "dequeued (from_hostif P) c = []" "offered (dpdk_pid P) c = []" by (cases c; simp)+
    then show ?thesis using tap_call by simp
  qed simp_all
qed

interpretation port: two_queues "yak_on ports" "port_inv U ports P" "waiting (from_hostif P)" "in_hand (dpdk_pid P)"
    "on_calls (accepted (from_hostif P))" "on_calls (dequeued (from_hostif P))" "on_calls (offered (dpdk_pid P))"
  for ports U P
  by unfold_locales (rule port_inv_step ring_step hand_step; assumption)+

lemma port_inv_init: "wired ports \<Longrightarrow> P \<in> set ports \<Longrightarrow> port_inv U ports P (yak_init U)"
  by (simp add: port_inv_def yak_inv_init) (simp add: yak_init_def)

lemma sent_offered: "subseq (along (on_calls (sent pid)) tr) (along (on_calls (offered pid)) tr)"
proof (induction tr)
  case (Cons l tr)
  have "subseq (sent pid c) (offered pid c)" for c by (cases c) auto
  then have "subseq (on_calls (sent pid) l) (on_calls (offered pid) l)" by (cases l) auto
  with Cons show ?case by (simp add: list_emb_append_mono)
qed simp

section \<open>The ring is never full\<close>

fun refused :: "call \<Rightarrow> nat list" where
  "refused (Enqueue r p res) = (if res = 0 then [] else [p])"
| "refused c = []"

text \<open>
  \<open>home\<close> is the pool of a buffer. A port's pool has \<open>num_mbufs\<close> buffers, and \<open>rte_pktmbuf_alloc\<close> answers with
  a buffer of the pool it is given.
\<close>

definition pools_ok :: "(nat \<Rightarrow> nat) \<Rightarrow> port_t list \<Rightarrow> nat set \<Rightarrow> bool" where
  "pools_ok home ports U \<longleftrightarrow> finite U \<and> (\<forall>P\<in>set ports. card {b \<in> U. home b = mp P} \<le> num_mbufs)"

fun from_pool :: "(nat \<Rightarrow> nat) \<Rightarrow> label \<Rightarrow> bool" where
  "from_pool home (Tap_start A P) \<longleftrightarrow> (case ta_alloc A of None \<Rightarrow> True | Some (m, sg) \<Rightarrow> home m = mp P)"
| "from_pool home l \<longleftrightarrow> True"

text \<open>What is enqueued, and what waits in a ring, is a buffer of the pool of the ring's port.\<close>

definition homed :: "(nat \<Rightarrow> nat) \<Rightarrow> port_t list \<Rightarrow> nat \<times> nat \<Rightarrow> bool" where
  "homed home ports e \<longleftrightarrow> (\<exists>P\<in>set ports. from_hostif P = fst e \<and> home (snd e) = mp P)"

fun enqueues :: "call \<Rightarrow> (nat \<times> nat) list" where
  "enqueues (Enqueue r p res) = [(r, p)]"
| "enqueues c = []"

definition room_inv :: "nat set \<Rightarrow> (nat \<Rightarrow> nat) \<Rightarrow> port_t list \<Rightarrow> yak_state \<Rightarrow> bool" where
  "room_inv U home ports s \<longleftrightarrow> yak_inv U s \<and> lost s = {} \<and> list_all (homed home ports) (rings s) \<and>
     list_all (\<lambda>c. enqueues c = []) (fwd_todo s) \<and> list_all (\<lambda>c. list_all (homed home ports) (enqueues c)) (tap_todo s)"

lemma fwd_round_enqueues: "list_all (\<lambda>c. enqueues c = []) (fst (fwd_port AP))"
  unfolding fwd_port_def fwd_ingress_def port_input_def tap_send_def Let_def
  by (intro calls_bind calls_each) (auto intro!: calls_bind calls_each simp: load16_def load_def read_data_def split: if_splits)

lemma tap_enqueues:
  assumes "P \<in> set ports" and "from_pool home (Tap_start A P)"
  shows "list_all (\<lambda>c. list_all (homed home ports) (enqueues c)) (fst (tap_port hr A enq P st))"
proof (cases "snd (tap_port hr A enq P st)")
  case (Inl e)
  from tap_port_stops [OF Inl] show ?thesis by auto
next
  case (Inr st')
  from tap_port_returns [OF Inr] assms show ?thesis by (auto simp: homed_def)
qed

lemma moved_rings: "enqueues c = [] \<Longrightarrow> set (rings (moved c s)) \<subseteq> set (rings s)"
  by (cases "(c, s)" rule: moved.cases) auto

text \<open>The buffers that wait in a port's ring are different ones of its pool, and the one in hand is another.\<close>

lemma room_fill:
  assumes "wired ports" and "pools_ok home ports U" and "room_inv U home ports s" and "P \<in> set ports"
  shows "length (waiting (from_hostif P) s) \<le> num_mbufs"
    and "p \<in> tap_held s \<Longrightarrow> home p = mp P \<Longrightarrow> length (waiting (from_hostif P) s) < num_mbufs"
proof -
  let ?B = "{b \<in> U. home b = mp P}" and ?W = "waiting (from_hostif P) s"
  have inv: "buffers U s (fwd_held s) (tap_held s)" "distinct (map snd (rings s))" "list_all (homed home ports) (rings s)"
    using assms(3) by (simp_all add: room_inv_def yak_inv_def)
  have home: "home b = mp P" if "(from_hostif P, b) \<in> set (rings s)" for b
  proof -
    from that inv(3) obtain Q where "Q \<in> set ports" "from_hostif Q = from_hostif P" "home b = mp Q"
      by (auto simp: homed_def list_all_iff)
    with wired_port(1) [OF assms(1,4), of Q] show ?thesis by simp
  qed
  have "snd ` set (rings s) \<subseteq> U" "tap_held s \<subseteq> U" and apart: "p \<in> tap_held s \<Longrightarrow> p \<notin> snd ` set (rings s)" for p
    using inv(1) unfolding partition_def by blast+
  then have W: "set ?W \<subseteq> ?B" using home by (auto simp: waiting_def)
  have n: "card (set ?W) = length ?W" using inv(2) by (intro distinct_card) (simp add: waiting_def distinct_map_filter)
  have fin: "finite ?B" "card ?B \<le> num_mbufs" using assms(2,4) by (auto simp: pools_ok_def)
  then show "length ?W \<le> num_mbufs" using card_mono [OF _ W] n by simp
  assume p: "p \<in> tap_held s" "home p = mp P"
  then have "insert p (set ?W) \<subseteq> ?B" "p \<notin> set ?W" using W \<open>tap_held s \<subseteq> U\<close> apart by (auto simp: waiting_def)
  then show "length ?W < num_mbufs" using card_mono [of ?B "insert p (set ?W)"] fin n by simp
qed

lemma room_step:
  assumes "yak_on ports s l t" and "from_pool home l" and "wired ports" and "pools_ok home ports U" and "room_inv U home ports s"
  shows "room_inv U home ports t \<and> on_calls refused l = []"
proof -
  have l: "yak_lstep s l t" using assms(1) by (simp add: yak_on_def)
  have inv: "yak_inv U s" "lost s = {}" "list_all (homed home ports) (rings s)"
    "list_all (\<lambda>c. enqueues c = []) (fwd_todo s)" "list_all (\<lambda>c. list_all (homed home ports) (enqueues c)) (tap_todo s)"
    using assms(5) by (simp_all add: room_inv_def)
  note t = yak_inv_step [OF l inv(1)]
  from l show ?thesis
  proof cases
    case (fwd_round AP)
    then show ?thesis using t inv fwd_round_enqueues by (simp add: room_inv_def)
  next
    case (fwd_call c cs H)
    then have e: "enqueues c = []" using inv(4) by simp
    then have "refused c = []" by (cases c) auto
    with fwd_call t inv moved_rings [OF e, of s] show ?thesis by (auto simp: room_inv_def list_all_iff)
  next
    case (tap_round A P hr enq st)
    then show ?thesis using t inv tap_enqueues assms(1,2) by (simp add: room_inv_def yak_on_def)
  next
    case (tap_call c cs H)
    show ?thesis
    proof (cases "\<exists>r p res. c = Enqueue r p res")
      case True
      then obtain r p res where c: "c = Enqueue r p res" by blast
      with tap_call inv(5) have h: "homed home ports (r, p)" "p \<in> tap_held s" by (auto split: if_splits)
      have "num_mbufs \<le> ringsize - 1" by (simp add: num_mbufs_def ringsize_def)
      moreover from h(1) obtain P where "P \<in> set ports" "from_hostif P = r" "home p = mp P" by (auto simp: homed_def)
      with room_fill(2) [OF assms(3-5)] h(2) have "length (waiting r s) < num_mbufs" by blast
      ultimately have "res = 0" using tap_call(4) c by (simp add: waiting_def)
      with tap_call t inv c h(1) show ?thesis by (simp add: room_inv_def)
    next
      case False
      then have e: "enqueues c = []" "refused c = []" "lost_step c (lost s) = lost s" by (cases c; simp)+
      with tap_call t inv moved_rings [OF e(1), of s] show ?thesis by (auto simp: room_inv_def list_all_iff)
    qed
  qed (use t inv in \<open>simp_all add: room_inv_def\<close>)
qed

lemma room_trace:
  assumes "trace (yak_on ports) (yak_init U) tr s" and "wired ports" and "pools_ok home ports U" and "list_all (from_pool home) tr"
  shows "room_inv U home ports s \<and> along (on_calls refused) tr = []"
  using assms(1,4)
proof (induction rule: trace.induct)
  case trace_nil
  then show ?case using yak_inv_init [of U] by (simp add: room_inv_def) (simp add: yak_init_def)
next
  case (trace_snoc tr t l u)
  then show ?case using room_step [OF trace_snoc(2) _ assms(2,3)] by simp
qed

section \<open>A frame that is sent\<close>

text \<open>\<open>sample_read\<close> is what the buffer of \<open>sample_frame\<close> holds after the read.\<close>

definition sample_read :: seg where
  "sample_read = set_lens 3 3 (sample_seg\<lparr>room := [0, 0, 1, 2, 3, 0, 0, 0]\<rparr>)"

definition sample_round :: fwd_answers where
  "sample_round = \<lparr>fa_empty = False, fa_dequeued = [7], fa_deq_mem = \<lambda>_. sample_read, fa_ntx = \<lambda>_. 1, fa_rx = [],
    fa_rx_mem = \<lambda>_. sample_seg, fa_write = \<lambda>_. 0\<rparr>"

abbreviation ingress_text :: string where
  "ingress_text \<equiv> ''Ingress Packet'' @ [CHR 0x0A]"

definition frame_out :: "label list" where
  "frame_out = [Fwd_start (sample_round, sample_port), Fwd (Dequeue 2 [7]), Fwd (Out Std_out ingress_text), Fwd (Dump 7 3), Fwd (Tx 0 7 1)]"

definition frame_sent :: yak_state where
  "frame_sent = \<lparr>free_bufs = {}, wire = {7}, rings = [], fwd_held = {}, fwd_todo = [Rx 0 []], fwd_live = True,
     tap_held = {}, tap_todo = [], tap_live = True, lost = {}\<rparr>"

abbreviation frame_queued :: yak_state where
  "frame_queued \<equiv> ring_state {} [(2, 7)]"

lemma frame_out_run: "trace (yak_on [sample_port]) frame_queued frame_out frame_sent"
proof -
  let ?c4 = "[Tx 0 7 1, Rx 0 []]" let ?c3 = "Dump 7 3 # ?c4" let ?c2 = "Out Std_out ingress_text # ?c3"
  let ?c1 = "Dequeue 2 [7] # ?c2"
  let ?s1 = "frame_queued\<lparr>fwd_todo := ?c1\<rparr>"
  let ?s2 = "frame_queued\<lparr>rings := [], fwd_held := {7}, fwd_todo := ?c2\<rparr>"
  let ?s3 = "?s2\<lparr>fwd_todo := ?c3\<rparr>" let ?s4 = "?s2\<lparr>fwd_todo := ?c4\<rparr>"
  have r: "fst (fwd_port (sample_round, sample_port)) = ?c1"
    "snd (fwd_port (sample_round, sample_port)) = Inr ()"
    by (simp_all add: fwd_port_def sample_round_def sample_port_def fwd_ingress_def sample_read_def set_lens_def Let_def)
  have "yak_on [sample_port] frame_queued (Fwd_start (sample_round, sample_port)) ?s1"
    using yak_lstep.fwd_round [of frame_queued "(sample_round, sample_port)"] r
    by (simp add: yak_on_def ring_state_def good_round_def) (simp add: sample_round_def)
  moreover have "yak_on [sample_port] ?s1 (Fwd (Dequeue 2 [7])) ?s2"
    using yak_lstep.fwd_call [of ?s1 "Dequeue 2 [7]" ?c2 "{7}"] by (simp add: yak_on_def ring_state_def)
  moreover have "yak_on [sample_port] ?s2 (Fwd (Out Std_out ingress_text)) ?s3"
    using yak_lstep.fwd_call [of ?s2 "Out Std_out ingress_text" ?c3 "{7}"] by (simp add: yak_on_def ring_state_def)
  moreover have "yak_on [sample_port] ?s3 (Fwd (Dump 7 3)) ?s4"
    using yak_lstep.fwd_call [of ?s3 "Dump 7 3" ?c4 "{7}"] by (simp add: yak_on_def ring_state_def)
  moreover have "yak_on [sample_port] ?s4 (Fwd (Tx 0 7 1)) frame_sent"
    using yak_lstep.fwd_call [of ?s4 "Tx 0 7 1" "[Rx 0 []]" "{}"] by (simp add: yak_on_def ring_state_def frame_sent_def)
  ultimately show ?thesis unfolding frame_out_def by (intro trace_cons trace_one)
qed

lemma frame_passes: "trace (yak_on [sample_port]) (yak_init {7}) (frame_in 7 @ frame_out) frame_sent"
proof (rule trace_append [OF frame_out_run])
  show "trace (yak_on [sample_port]) (yak_init {7}) (frame_in 7) frame_queued"
    using trace_yak_on [OF frame_in_run [of 7 "{7}" "[]"]] by (simp add: frame_in_def yak_init_ring_state ringsize_def)
qed

section \<open>Properties\<close>

text \<open>
  Under every interleaving the frames of a port leave in the order they came in: what the TAP thread
  put into the port's ring is what the forwarding thread has offered to the port's device, followed by
  what it still has in its hand, followed by what waits in the ring; none is doubled, none overtakes
  another, and what the device took is a subsequence of it.
\<close>

theorem frames_in_order:
  assumes "trace (yak_on ports) (yak_init U) tr s" and "wired ports" and "P \<in> set ports"
  shows "along (on_calls (accepted (from_hostif P))) tr =
      along (on_calls (offered (dpdk_pid P))) tr @ in_hand (dpdk_pid P) s @ waiting (from_hostif P) s \<and>
    subseq (along (on_calls (sent (dpdk_pid P))) tr) (along (on_calls (accepted (from_hostif P))) tr)"
proof -
  have "in_hand (dpdk_pid P) (yak_init U) @ waiting (from_hostif P) (yak_init U) = []"
    by (simp add: in_hand_def waiting_def yak_init_def)
  then have e: "along (on_calls (accepted (from_hostif P))) tr =
      along (on_calls (offered (dpdk_pid P))) tr @ in_hand (dpdk_pid P) s @ waiting (from_hostif P) s"
    using port.both.conserved [OF assms(1) port_inv_init [OF assms(2,3)]] by simp
  have "subseq (along (on_calls (sent (dpdk_pid P))) tr)
      (along (on_calls (offered (dpdk_pid P))) tr @ in_hand (dpdk_pid P) s @ waiting (from_hostif P) s)"
    using list_emb_append_mono [OF sent_offered list_emb_Nil] by simp
  with e show ?thesis by simp
qed

theorem frames_in_order_witness:
  "along (on_calls (accepted 2)) (frame_in 7 @ frame_out) = [7] \<and> along (on_calls (sent 0)) (frame_in 7 @ frame_out) = [7] \<and>
   in_hand 0 frame_sent = [] \<and> waiting 2 frame_sent = []"
  using frames_in_order [OF frame_passes, of sample_port]
  by (simp add: wired_def frame_in_def frame_out_def sample_port_def)

text \<open>
  C19: the ring never refuses a frame, although \<open>tap_main\<close> does not look at the answer: with the sizes
  \<open>port_alloc\<close> chooses, a ring has an entry for every buffer of its port's pool, and only buffers of this
  pool are put into it. So no frame is dropped there, and between two rounds the TAP thread holds no
  buffer.
\<close>

theorem ring_never_refuses:
  assumes "trace (yak_on ports) (yak_init U) tr s" and "wired ports" and "pools_ok home ports U" and "list_all (from_pool home) tr"
  shows "along (on_calls refused) tr = [] \<and> lost s = {} \<and> (tap_todo s = [] \<and> tap_live s \<longrightarrow> tap_held s = {}) \<and>
    (\<forall>P\<in>set ports. length (waiting (from_hostif P) s) \<le> num_mbufs)"
proof -
  from room_trace [OF assms] have r: "room_inv U home ports s" "along (on_calls refused) tr = []" by blast+
  then have i: "yak_inv U s" "lost s = {}" by (simp_all add: room_inv_def)
  then have held: "tap_todo s = [] \<and> tap_live s \<longrightarrow> tap_held s = {}" by (auto simp: yak_inv_def)
  have "length (waiting (from_hostif P) s) \<le> num_mbufs" if "P \<in> set ports" for P
    by (rule room_fill(1) [OF assms(2,3) r(1) that])
  with r(2) i(2) held show ?thesis by blast
qed

theorem ring_never_refuses_witness:
  "along (on_calls refused) (frame_in 7 @ frame_out) = [] \<and> lost frame_sent = {}"
proof -
  have "wired [sample_port]" "pools_ok (\<lambda>_. 1) [sample_port] {7}" "list_all (from_pool (\<lambda>_. 1)) (frame_in 7 @ frame_out)"
    by (simp_all add: wired_def pools_ok_def num_mbufs_def frame_in_def frame_out_def frame_at_def sample_port_def)
  from ring_never_refuses [OF frame_passes this] show ?thesis by blast
qed

text \<open>
  The pool is what runs out: when the forwarding thread does not come to its dequeue, as many frames as
  the pool has buffers go into the ring, and the next round of the TAP thread, whose allocation is
  answered with NULL, ends in a fault.
\<close>

definition frames_in :: "nat \<Rightarrow> label list" where
  "frames_in n = concat (map frame_in [0..<n])"

lemma frames_in_run: "n \<le> num_mbufs \<Longrightarrow> trace yak_lstep (yak_init {..<num_mbufs}) (frames_in n) (ring_state {n..<num_mbufs} (map (Pair 2) [0..<n]))"
proof (induction n)
  case 0
  then show ?case by (simp add: frames_in_def yak_init_ring_state lessThan_atLeast0 trace_nil)
next
  case (Suc n)
  have "{n..<num_mbufs} - {n} = {Suc n..<num_mbufs}" by auto
  moreover have "n < ringsize - 1" using Suc.prems by (simp add: ringsize_def num_mbufs_def)
  ultimately have "trace yak_lstep (ring_state {n..<num_mbufs} (map (Pair 2) [0..<n])) (frame_in n)
      (ring_state {Suc n..<num_mbufs} (map (Pair 2) [0..<n] @ [(2, n)]))"
    using frame_in_run [of n "{n..<num_mbufs}" "map (Pair 2) [0..<n]"] Suc.prems by (simp add: comp_def)
  with Suc show ?case by (auto simp: frames_in_def intro: trace_append)
qed

theorem pool_runs_dry:
  "\<exists>tr s. trace yak_lstep (yak_init {..<num_mbufs}) tr s \<and> length (waiting 2 s) = num_mbufs \<and> free_bufs s = {} \<and>
    snd (tap_port hr \<lparr>ta_alloc = None, ta_len = n, ta_data = bs\<rparr> enq P st) = Inl Null_Deref"
proof (intro exI conjI)
  show "trace yak_lstep (yak_init {..<num_mbufs}) (frames_in num_mbufs) (ring_state {num_mbufs..<num_mbufs} (map (Pair 2) [0..<num_mbufs]))"
    by (rule frames_in_run) simp
qed (simp_all add: ring_state_def waiting_def comp_def tap_port_def tap_recv_def)

end
