(* ===== verification/Yak_Data.thy ===== *)
theory Yak_Data
  imports Yak_Trace
begin

text \<open>
  The packets themselves. To the step relation of the two threads comes the memory of the buffers: who
  owns a buffer may change it, the threads read it when they take a buffer over, and the TAP thread
  writes a frame into its new buffer. That no byte is lost or mixed up on the way then rests on the
  ownership invariant of \<open>Yak_Own\<close>: a buffer in a ring or in a thread's hand is nobody else's.
\<close>

section \<open>The threads with the memory\<close>

text \<open>\<open>fwd_sees\<close> and \<open>tap_sees\<close> are the answers of the round a thread is in, and its port.\<close>

record yak_data =
  ctl :: yak_state
  memory :: store
  fwd_sees :: "fwd_answers \<times> port_t"
  tap_sees :: "tap_answers \<times> port_t"

text \<open>An event is a step and the contents, at that moment, of the buffers that change hands in it.\<close>

type_synonym data_event = "label \<times> seg list"

fun touched :: "call \<Rightarrow> nat list" where
  "touched (Enqueue r p res) = [p]"
| "touched (Dequeue r ps) = ps"
| "touched (Tx pid p n) = [p]"
| "touched (Rx pid ps) = ps"
| "touched (Write_fd fd p bs) = [p]"
| "touched c = []"

definition content :: "store \<Rightarrow> label \<Rightarrow> seg list" where
  "content M l = map M (on_calls touched l)"

text \<open>
  The answers are true: the buffers the forwarding thread takes over hold what its round says they
  hold, and \<open>read\<close> stores as many bytes as it says, into a buffer that was set up.
\<close>

definition good_read :: "tap_answers \<Rightarrow> bool" where
  "good_read A \<longleftrightarrow> read_ok data_off A \<and> (case ta_alloc A of None \<Rightarrow> True | Some (m, sg) \<Rightarrow> fresh_seg sg)"

fun agrees :: "label \<Rightarrow> yak_data \<Rightarrow> bool" where
  "agrees (Fwd (Dequeue r ps)) s \<longleftrightarrow> list_all (\<lambda>p. fa_deq_mem (fst (fwd_sees s)) p = memory s p) ps"
| "agrees (Fwd (Rx pid ps)) s \<longleftrightarrow> list_all (\<lambda>p. fa_rx_mem (fst (fwd_sees s)) p = memory s p) ps"
| "agrees (Tap_start A P) s \<longleftrightarrow> good_read A"
| "agrees l s \<longleftrightarrow> True"

text \<open>
  What the TAP thread writes: \<open>rte_pktmbuf_alloc\<close> gives it the buffer set up, \<open>read\<close> and the two lengths
  make it the frame. \<open>rte_pktmbuf_headroom\<close> is the offset of the data.
\<close>

fun written :: "label \<Rightarrow> yak_data \<Rightarrow> store" where
  "written (Tap (Alloc (Some p))) s =
     (case ta_alloc (fst (tap_sees s)) of None \<Rightarrow> memory s | Some (m, sg) \<Rightarrow> (memory s)(m := sg))"
| "written (Tap (Read_fd fd n)) s =
     (case snd (tap_recv data_off (fst (tap_sees s)) fd (memory s)) of Inl e \<Rightarrow> memory s | Inr (m, M) \<Rightarrow> M)"
| "written l s = memory s"

text \<open>
  A step of the threads, or of the driver, with its effect on the memory. The buffers that are free or
  with the driver may hold anything afterwards.
\<close>

definition data_step :: "port_t list \<Rightarrow> yak_data \<Rightarrow> data_event \<Rightarrow> yak_data \<Rightarrow> bool" where
  "data_step ports s e t \<longleftrightarrow>
     yak_on ports (ctl s) (fst e) (ctl t) \<and> snd e = content (memory s) (fst e) \<and> agrees (fst e) s \<and>
     (\<forall>p. p \<notin> free_bufs (ctl t) \<union> wire (ctl t) \<longrightarrow> memory t p = written (fst e) s p) \<and>
     fwd_sees t = (case fst e of Fwd_start AP \<Rightarrow> AP | _ \<Rightarrow> fwd_sees s) \<and>
     tap_sees t = (case fst e of Tap_start A P \<Rightarrow> (A, P) | _ \<Rightarrow> tap_sees s)"

lemma data_stepD:
  assumes "data_step ports s e t"
  shows "yak_on ports (ctl s) (fst e) (ctl t)" and "yak_lstep (ctl s) (fst e) (ctl t)"
    and "snd e = content (memory s) (fst e)" and "agrees (fst e) s"
    and "\<And>p. p \<notin> free_bufs (ctl t) \<Longrightarrow> p \<notin> wire (ctl t) \<Longrightarrow> memory t p = written (fst e) s p"
  using assms by (auto simp: data_step_def yak_on_def)

lemma data_trace_ctl: "trace (data_step ports) s tr t \<Longrightarrow> trace (yak_on ports) (ctl s) (map fst tr) (ctl t)"
  by (induction rule: trace.induct) (auto intro: trace_nil trace_snoc dest: data_stepD)

section \<open>The frame the TAP thread reads\<close>

text \<open>The buffer and its contents after \<open>tap_recv\<close>, which depend on the answers alone.\<close>

definition frame_seg :: "tap_answers \<Rightarrow> (nat \<times> seg) option" where
  "frame_seg A = (case snd (tap_recv data_off A 0 (\<lambda>_. sample_seg)) of Inl e \<Rightarrow> None | Inr (m, M) \<Rightarrow> Some (m, M m))"

lemma tap_recv_InrD:
  assumes "snd (tap_recv hr A fd M) = Inr (m, M')"
  shows "\<exists>sg s1. ta_alloc A = Some (m, sg) \<and> \<not> ta_len A < 0 \<and> write_data sg (ta_data A) = ret s1 \<and>
    M' = M(m := set_lens (of_int (ta_len A)) (ucast (of_int (ta_len A) :: u16)) s1)"
proof -
  from assms obtain m' sg where a: "ta_alloc A = Some (m', sg)" and l: "\<not> ta_len A < 0"
    by (auto simp: tap_recv_def split: option.splits if_splits elim!: snd_io_bind_InrE)
  with assms obtain s1 where "snd (write_data sg (ta_data A)) = Inr s1"
    by (auto simp: tap_recv_def elim!: snd_io_bind_InrE)
  then have "write_data sg (ta_data A) = ret s1" by (simp add: prod_eq_iff ret_def)
  with a l assms show ?thesis by (auto simp: tap_recv_def Let_def)
qed

lemma frame_seg_tap_recv:
  assumes "frame_seg A = Some (m, sg)"
  shows "snd (tap_recv hr A fd M) = Inr (m, M(m := sg))"
proof -
  from assms obtain M' where r: "snd (tap_recv data_off A 0 (\<lambda>_. sample_seg)) = Inr (m, M')" and sg: "sg = M' m"
    by (auto simp: frame_seg_def split: sum.splits)
  from tap_recv_InrD [OF r] sg show ?thesis by (auto simp: tap_recv_def Let_def)
qed

lemma tap_port_frame_seg:
  assumes "snd (tap_port hr A enq P st) = Inr st'"
  shows "\<exists>m sg. frame_seg A = Some (m, sg) \<and> ta_alloc A \<noteq> None"
proof -
  from assms obtain m M where r: "snd (tap_recv hr A (hostif_fd P) st) = Inr (m, M)"
    by (auto simp: tap_port_def elim!: snd_io_bind_InrE)
  from tap_recv_InrD [OF r] show ?thesis by (auto simp: frame_seg_def tap_recv_def Let_def)
qed

lemma frame_seg_bytes:
  assumes "frame_seg A = Some (m, sg)" and "good_read A"
  shows "seg_bytes sg = ta_data A"
proof -
  note r = frame_seg_tap_recv [OF assms(1), of data_off 0 "\<lambda>_. sample_seg"]
  from tap_recv_InrD [OF r] obtain s0 where a: "ta_alloc A = Some (m, s0)" "0 \<le> ta_len A" by auto
  with assms(2) have "fresh_seg s0" "read_ok data_off A" by (simp_all add: good_read_def)
  from tap_recv_result [OF a(1) this(1) refl this(2) a(2), of 0 "\<lambda>_. sample_seg"] r
  show ?thesis by (auto simp: seg_bytes_def fun_upd_def fun_eq_iff) metis
qed

section \<open>Who leaves which buffer alone\<close>

lemma owned_not_given:
  assumes "yak_inv U s" and "p \<in> fwd_held s \<or> p \<in> tap_held s \<or> p \<in> snd ` set (rings s)"
  shows "p \<notin> free_bufs s" and "p \<notin> wire s"
  using assms unfolding yak_inv_def partition_def by blast+

lemma fwd_owned_not_tap:
  assumes "yak_inv U s" and "p \<in> fwd_held s \<or> p \<in> snd ` set (rings s)"
  shows "p \<notin> tap_held s"
  using assms unfolding yak_inv_def partition_def by blast

text \<open>The rest of a round of the TAP thread: it will read into, or has read into, its new buffer.\<close>

fun idle :: "call \<Rightarrow> bool" where
  "idle (Alloc None) = True"
| "idle (Exit_msg msg) = True"
| "idle c = False"

definition ends_read :: "tap_answers \<Rightarrow> port_t \<Rightarrow> nat \<Rightarrow> call list \<Rightarrow> bool" where
  "ends_read A P m cs \<longleftrightarrow> list_all idle cs \<or> (\<exists>enq sg. cs = [Enqueue (from_hostif P) m enq] \<and> frame_seg A = Some (m, sg))"

definition tap_stage :: "tap_answers \<Rightarrow> port_t \<Rightarrow> nat set \<Rightarrow> store \<Rightarrow> call list \<Rightarrow> bool" where
  "tap_stage A P H M cs \<longleftrightarrow>
     list_all idle cs \<or>
     (\<exists>m sg n x. ta_alloc A = Some (m, sg) \<and> ends_read A P m x \<and>
       (cs = Alloc (Some m) # Read_fd (hostif_fd P) n # x \<or> (cs = Read_fd (hostif_fd P) n # x \<and> m \<in> H))) \<or>
     (\<exists>m enq sg. cs = [Enqueue (from_hostif P) m enq] \<and> frame_seg A = Some (m, sg) \<and> M m = sg \<and> m \<in> H)"

abbreviation stage_of :: "yak_data \<Rightarrow> bool" where
  "stage_of s \<equiv> tap_stage (fst (tap_sees s)) (snd (tap_sees s)) (tap_held (ctl s)) (memory s) (tap_todo (ctl s))"

lemma tap_stage_start: "tap_stage A P H M (fst (tap_port hr A enq P st))"
proof (cases "snd (tap_port hr A enq P st)")
  case (Inl e)
  from tap_port_stops [OF Inl] show ?thesis by (fastforce simp: tap_stage_def ends_read_def)
next
  case (Inr st')
  from tap_port_returns [OF this] obtain m sg n where a: "ta_alloc A = Some (m, sg)"
    "fst (tap_port hr A enq P st) = [Alloc (Some m), Read_fd (hostif_fd P) n, Enqueue (from_hostif P) m enq]" by blast
  from tap_port_frame_seg [OF Inr] obtain m' sg' where f: "frame_seg A = Some (m', sg')" by blast
  from tap_recv_InrD [OF frame_seg_tap_recv [OF f]] a(1) have "m' = m" by auto
  with a f show ?thesis by (auto simp: tap_stage_def ends_read_def)
qed

lemma tap_stage_memory: "tap_stage A P H M cs \<Longrightarrow> (\<And>m. m \<in> H \<Longrightarrow> M' m = M m) \<Longrightarrow> tap_stage A P H M' cs"
  unfolding tap_stage_def by blast

text \<open>A call of the thread changes no buffer that the thread does not have afterwards.\<close>

lemma written_own:
  assumes "stage_of s" and "tap_todo (ctl s) = c # cs" and "held_step c (tap_held (ctl s)) = Some H" and "p \<notin> H"
  shows "written (Tap c) s p = memory s p"
proof (cases c)
  case (Alloc v)
  with assms show ?thesis by (cases v) (auto simp: tap_stage_def ends_read_def)
next
  case (Read_fd fd n)
  show ?thesis
  proof (cases "snd (tap_recv data_off (fst (tap_sees s)) fd (memory s))")
    case (Inr mM)
    then obtain m M where r: "snd (tap_recv data_off (fst (tap_sees s)) fd (memory s)) = Inr (m, M)" by (cases mM) simp
    from tap_recv_InrD [OF this] assms Read_fd have "m \<noteq> p" by (auto simp: tap_stage_def)
    with tap_recv_InrD [OF r] r Read_fd show ?thesis by auto
  qed (simp add: Read_fd)
qed simp_all

lemma stage_call:
  assumes "stage_of s" and "tap_todo (ctl s) = c # cs" and "held_step c (tap_held (ctl s)) = Some H"
    and "\<And>m. m \<in> H \<Longrightarrow> M m = written (Tap c) s m"
  shows "tap_stage (fst (tap_sees s)) (snd (tap_sees s)) H M cs"
proof -
  let ?A = "fst (tap_sees s)" and ?P = "snd (tap_sees s)"
  from assms(1,2) consider "list_all idle cs"
    | m sg n x where "ta_alloc ?A = Some (m, sg)" "ends_read ?A ?P m x" "c = Alloc (Some m)" "cs = Read_fd (hostif_fd ?P) n # x"
    | m x n where "ends_read ?A ?P m x" "m \<in> tap_held (ctl s)" "c = Read_fd (hostif_fd ?P) n" "cs = x"
    | "cs = []"
    unfolding tap_stage_def by auto
  then show ?thesis
  proof cases
    case 1
    then show ?thesis by (simp add: tap_stage_def)
  next
    case (2 m sg n x)
    with assms(3) show ?thesis by (auto simp: tap_stage_def)
  next
    case (3 m x n)
    then consider "list_all idle cs" | enq sg where "cs = [Enqueue (from_hostif ?P) m enq]" "frame_seg ?A = Some (m, sg)"
      unfolding ends_read_def by blast
    then show ?thesis
    proof cases
      case (2 enq sg)
      then have "written (Tap c) s m = sg" by (simp add: 3 frame_seg_tap_recv)
      with 2 3 assms(3,4) show ?thesis by (auto simp: tap_stage_def)
    qed (simp add: tap_stage_def)
  qed (simp add: tap_stage_def)
qed

lemma written_other: "(\<And>c. l \<noteq> Tap c) \<Longrightarrow> written l s = memory s"
  by (cases "(l, s)" rule: written.cases) auto

lemma owned_written:
  assumes "data_step ports s e t" and "yak_inv U (ctl t)"
    and "p \<in> fwd_held (ctl t) \<or> p \<in> tap_held (ctl t) \<or> p \<in> snd ` set (rings (ctl t))"
  shows "memory t p = written (fst e) s p"
  using data_stepD(5) [OF assms(1)] owned_not_given [OF assms(2,3)] by blast

lemma stage_step:
  assumes "data_step ports s e t" and "yak_inv U (ctl s)" and "stage_of s"
  shows "stage_of t"
proof -
  note l = data_stepD(2) [OF assms(1)]
  note it = yak_inv_step [OF l assms(2)]
  have keep: "stage_of t" if other: "\<And>c. fst e \<noteq> Tap c" "\<And>A P. fst e \<noteq> Tap_start A P"
    and same: "tap_todo (ctl t) = tap_todo (ctl s)" "tap_held (ctl t) = tap_held (ctl s)"
  proof -
    have "tap_sees t = tap_sees s" using assms(1) other(2) by (auto simp: data_step_def split: label.splits)
    moreover have "memory t m = memory s m" if "m \<in> tap_held (ctl s)" for m
      using owned_written [OF assms(1) it, of m] that same(2) by (simp add: written_other other(1))
    ultimately show ?thesis using tap_stage_memory [OF assms(3)] same by simp
  qed
  from l show ?thesis
  proof cases
    case (tap_round A P hr enq st)
    then have "tap_sees t = (A, P)" using assms(1) by (simp add: data_step_def)
    with tap_round show ?thesis by (simp add: tap_stage_start)
  next
    case (tap_call c cs H)
    then have "tap_sees t = tap_sees s" using assms(1) by (simp add: data_step_def)
    moreover have "memory t m = written (Tap c) s m" if "m \<in> H" for m
      using owned_written [OF assms(1) it, of m] tap_call that by simp
    ultimately show ?thesis
      using stage_call [OF assms(3) tap_call(3,5), of "memory t"] tap_call by simp
  qed (use keep in simp_all)
qed

text \<open>The forwarding thread's buffers, and those in the rings, keep their contents in every step.\<close>

lemma fwd_memory:
  assumes "data_step ports s e t" and "yak_inv U (ctl s)" and "stage_of s"
    and "p \<in> fwd_held (ctl t) \<or> p \<in> snd ` set (rings (ctl t))"
  shows "memory t p = memory s p"
proof -
  note l = data_stepD(2) [OF assms(1)]
  note it = yak_inv_step [OF l assms(2)]
  have w: "memory t p = written (fst e) s p"
    using owned_written [OF assms(1) it] assms(4) by blast
  note n = fwd_owned_not_tap [OF it assms(4)]
  from l show ?thesis
  proof cases
    case (tap_call c cs H)
    with n have "p \<notin> H" by simp
    with written_own [OF assms(3) tap_call(3,5)] tap_call(1) w show ?thesis by simp
  qed (use w in simp_all)
qed

section \<open>The rest of a round of the forwarding thread\<close>

definition sent_bytes :: "seg \<Rightarrow> u8 list" where
  "sent_bytes sg = take (unat (pkt_len (desc sg))) (drop (data_at sg) (room sg))"

fun early :: "fwd_answers \<Rightarrow> call \<Rightarrow> bool" where
  "early A (Out f txt) = True"
| "early A (Dump p n) \<longleftrightarrow> n = pkt_len (desc (fa_deq_mem A p))"
| "early A (Dequeue r ps) = True"
| "early A (Tx pid p n) = True"
| "early A (Free p) = True"
| "early A c = False"

fun late :: "fwd_answers \<Rightarrow> port_t \<Rightarrow> call \<Rightarrow> bool" where
  "late A P (Out f txt) = True"
| "late A P (Dump p n) \<longleftrightarrow> p \<in> set (fa_rx A) \<and> n = pkt_len (desc (fa_rx_mem A p))"
| "late A P (Write_fd fd p bs) \<longleftrightarrow> p \<in> set (fa_rx A) \<and> fd = hostif_fd P \<and> bs = sent_bytes (fa_rx_mem A p)"
| "late A P (Free p) = True"
| "late A P (Exit_msg msg) = True"
| "late A P c = False"

text \<open>
  Before the reception the thread's buffers hold what it dequeued, after it the received ones hold what
  was received.
\<close>

definition fwd_stage :: "fwd_answers \<Rightarrow> port_t \<Rightarrow> nat set \<Rightarrow> store \<Rightarrow> call list \<Rightarrow> bool" where
  "fwd_stage A P H M cs \<longleftrightarrow>
     (list_all (late A P) cs \<and> (\<forall>p\<in>H \<inter> set (fa_rx A). M p = fa_rx_mem A p)) \<or>
     (\<exists>xs ys. cs = xs @ Rx (dpdk_pid P) (fa_rx A) # ys \<and> list_all (early A) xs \<and> list_all (late A P) ys \<and>
       (\<forall>p\<in>H. M p = fa_deq_mem A p))"

abbreviation fwd_stage_of :: "yak_data \<Rightarrow> bool" where
  "fwd_stage_of s \<equiv> fwd_stage (fst (fwd_sees s)) (snd (fwd_sees s)) (fwd_held (ctl s)) (memory s) (fwd_todo (ctl s))"

lemma early_ingress: "list_all (early A) (fst (io_each (fwd_ingress (fa_deq_mem A) ntx P) ms))"
  by (induction ms) (auto simp: fwd_ingress_calls)

lemma late_bind:
  "list_all Q (fst m) \<Longrightarrow> (\<And>a. snd m = Inr a \<Longrightarrow> list_all Q (fst (f a))) \<Longrightarrow> list_all Q (fst (io_bind m f))"
  by (auto simp: io_bind_def split: sum.splits)

lemma late_each: "(\<And>x. x \<in> set xs \<Longrightarrow> list_all Q (fst (f x))) \<Longrightarrow> list_all Q (fst (io_each f xs))"
  by (induction xs) (auto intro!: late_bind)

lemma late_port_input:
  assumes "m \<in> set (fa_rx A)"
  shows "list_all (late A P) (fst (port_input (fa_rx_mem A) res m P))"
proof -
  have "list_all (late A P) (fst (tap_send res (hostif_fd P) m (fa_rx_mem A)))"
    using assms unfolding tap_send_def by (auto simp: read_data_def sent_bytes_def)
  with assms show ?thesis unfolding port_input_def by (intro late_bind) auto
qed

lemma fwd_port_calls:
  "\<exists>xs. list_all (early (fst AP)) xs \<and> fst (fwd_port AP) = xs @ Rx (dpdk_pid (snd AP)) (fa_rx (fst AP)) #
     fst (io_each (\<lambda>m. port_input (fa_rx_mem (fst AP)) (fa_write (fst AP) m) m (snd AP)) (fa_rx (fst AP)))"
  by (rule exI [where x = "if fa_empty (fst AP) then [] else Dequeue (from_hostif (snd AP)) (fa_dequeued (fst AP)) #
        fst (io_each (fwd_ingress (fa_deq_mem (fst AP)) (fa_ntx (fst AP)) (snd AP)) (fa_dequeued (fst AP)))"])
    (simp add: fwd_port_def Let_def ingress_each early_ingress)

lemma fwd_stage_start: "fwd_stage (fst AP) (snd AP) {} M (fst (fwd_port AP))"
proof -
  have "list_all (late (fst AP) (snd AP))
    (fst (io_each (\<lambda>m. port_input (fa_rx_mem (fst AP)) (fa_write (fst AP) m) m (snd AP)) (fa_rx (fst AP))))"
    by (intro late_each late_port_input)
  with fwd_port_calls [of AP] show ?thesis unfolding fwd_stage_def by auto
qed

lemma fwd_stage_memory:
  assumes "fwd_stage A P H M cs" and "H' \<subseteq> H" and "\<And>p. p \<in> H' \<Longrightarrow> M' p = M p"
  shows "fwd_stage A P H' M' cs"
proof -
  have "(\<forall>p\<in>H. M p = fa_deq_mem A p) \<Longrightarrow> (\<forall>p\<in>H'. M' p = fa_deq_mem A p)"
    and "(\<forall>p\<in>H \<inter> set (fa_rx A). M p = fa_rx_mem A p) \<Longrightarrow> (\<forall>p\<in>H' \<inter> set (fa_rx A). M' p = fa_rx_mem A p)"
    using assms(2,3) by auto
  with assms(1) show ?thesis unfolding fwd_stage_def by blast
qed

lemma late_held: "late A P c \<Longrightarrow> held_step c H = Some H' \<Longrightarrow> H' \<subseteq> H"
  by (cases c) (auto split: if_splits)

lemma early_held: "early A c \<Longrightarrow> held_step c H = Some H' \<Longrightarrow> p \<in> H' \<Longrightarrow> p \<in> H \<or> (\<exists>r ps. c = Dequeue r ps \<and> p \<in> set ps)"
  by (cases c) (auto split: if_splits)

lemma fwd_stage_call:
  assumes "fwd_stage A P H M (c # cs)" and "held_step c H = Some H'" and "\<And>p. p \<in> H' \<Longrightarrow> M' p = M p"
    and "\<And>r ps. c = Dequeue r ps \<Longrightarrow> list_all (\<lambda>p. fa_deq_mem A p = M p) ps"
    and "\<And>pid ps. c = Rx pid ps \<Longrightarrow> list_all (\<lambda>p. fa_rx_mem A p = M p) ps"
  shows "fwd_stage A P H' M' cs"
proof -
  from assms(1) consider "late A P c" "list_all (late A P) cs" "\<forall>p\<in>H \<inter> set (fa_rx A). M p = fa_rx_mem A p"
    | "c = Rx (dpdk_pid P) (fa_rx A)" "list_all (late A P) cs"
    | xs ys where "early A c" "cs = xs @ Rx (dpdk_pid P) (fa_rx A) # ys" "list_all (early A) xs" "list_all (late A P) ys"
        "\<forall>p\<in>H. M p = fa_deq_mem A p"
    unfolding fwd_stage_def by (auto simp: Cons_eq_append_conv)
  then show ?thesis
  proof cases
    case 1
    then show ?thesis using late_held [OF 1(1) assms(2)] assms(3) by (auto simp: fwd_stage_def)
  next
    case 2
    then show ?thesis using assms(3) assms(5) by (auto simp: fwd_stage_def list_all_iff)
  next
    case (3 xs ys)
    have "M' p = fa_deq_mem A p" if "p \<in> H'" for p
      using early_held [OF 3(1) assms(2) that] 3(5) assms(3) [OF that] assms(4) by (auto simp: list_all_iff)
    with 3 show ?thesis unfolding fwd_stage_def by blast
  qed
qed

lemma fwd_stage_step:
  assumes "data_step ports s e t" and "yak_inv U (ctl s)" and "stage_of s" and "fwd_stage_of s"
  shows "fwd_stage_of t"
proof -
  note l = data_stepD(2) [OF assms(1)]
  note m = fwd_memory [OF assms(1-3)]
  have keep: "fwd_stage_of t" if other: "\<And>AP. fst e \<noteq> Fwd_start AP"
    and same: "fwd_todo (ctl t) = fwd_todo (ctl s)" "fwd_held (ctl t) = fwd_held (ctl s)"
  proof -
    have "fwd_sees t = fwd_sees s" using assms(1) other by (auto simp: data_step_def split: label.splits)
    then show ?thesis using fwd_stage_memory [OF assms(4), of "fwd_held (ctl s)" "memory t"] m same by simp
  qed
  from l show ?thesis
  proof cases
    case (fwd_round AP)
    then have "fwd_sees t = AP" and "fwd_held (ctl s) = {}" using assms(1,2) by (simp_all add: data_step_def yak_inv_def)
    with fwd_round show ?thesis by (simp add: fwd_stage_start)
  next
    case (fwd_call c cs H)
    then have "fwd_sees t = fwd_sees s" using assms(1) by (simp add: data_step_def)
    moreover have "fwd_stage (fst (fwd_sees s)) (snd (fwd_sees s)) H (memory t) cs"
    proof (rule fwd_stage_call)
      show "fwd_stage (fst (fwd_sees s)) (snd (fwd_sees s)) (fwd_held (ctl s)) (memory s) (c # cs)"
        using assms(4) fwd_call(3) by simp
      show "memory t p = memory s p" if "p \<in> H" for p using m [of p] fwd_call that by simp
    qed (use fwd_call data_stepD(4) [OF assms(1)] in auto)
    ultimately show ?thesis using fwd_call by simp
  qed (use keep in simp_all)
qed

text \<open>What the thread is going to offer is already in its hand.\<close>

lemma late_not_offered: "list_all (late A P) cs \<Longrightarrow> along (offered pid) cs = []"
proof (induction cs)
  case (Cons c cs)
  then show ?case by (cases c) auto
qed simp

lemma offered_held:
  assumes "list_all (early A) xs" and "list_all (late A P) ys" and "list_all no_take xs"
    and "held_run (xs @ Rx q ps # ys) H \<noteq> None"
  shows "set (along (offered pid) (xs @ Rx q ps # ys)) \<subseteq> H"
  using assms
proof (induction xs arbitrary: H)
  case Nil
  then show ?case by (simp add: late_not_offered)
next
  case (Cons c xs)
  then obtain H' where h: "held_step c H = Some H'" by (auto split: option.splits)
  with Cons have "set (along (offered pid) (xs @ Rx q ps # ys)) \<subseteq> H'" by simp
  with h Cons.prems(1,3) show ?case by (cases c) (auto split: if_splits)
qed

lemma in_hand_held:
  assumes "fwd_stage A P H M (fwd_todo s)" and "held_run (fwd_todo s) (fwd_held s) \<noteq> None" and "fwd_wf ports (fwd_todo s)"
  shows "set (in_hand pid s) \<subseteq> fwd_held s"
proof (cases "list_all no_take (fwd_todo s)")
  case True
  then have i: "in_hand pid s = along (offered pid) (fwd_todo s)" by (rule in_hand_no_take)
  from assms(1) consider "list_all (late A P) (fwd_todo s)"
    | xs ys where "fwd_todo s = xs @ Rx (dpdk_pid P) (fa_rx A) # ys" "list_all (early A) xs" "list_all (late A P) ys"
    unfolding fwd_stage_def by blast
  then show ?thesis
  proof cases
    case (2 xs ys)
    with True assms(2) offered_held [of A xs P ys "dpdk_pid P" "fa_rx A" "fwd_held s" pid] show ?thesis by (simp add: i)
  qed (simp add: i late_not_offered)
next
  case False
  with assms(3) obtain r ps cs where "fwd_todo s = Dequeue r ps # cs" by (cases "(ports, fwd_todo s)" rule: fwd_wf.cases) auto
  then show ?thesis by (simp add: in_hand_def)
qed

section \<open>The queues with their contents\<close>

definition data_inv :: "nat set \<Rightarrow> port_t list \<Rightarrow> port_t \<Rightarrow> yak_data \<Rightarrow> bool" where
  "data_inv U ports P s \<longleftrightarrow> port_inv U ports P (ctl s) \<and> stage_of s \<and> fwd_stage_of s"

lemma data_invD:
  assumes "data_inv U ports P s"
  shows "port_inv U ports P (ctl s)" and "yak_inv U (ctl s)" and "stage_of s" and "fwd_stage_of s"
    and "wired ports" and "P \<in> set ports" and "fwd_wf ports (fwd_todo (ctl s))"
  using assms by (simp_all add: data_inv_def port_inv_def)

lemma data_inv_step:
  assumes "data_step ports s e t" and "data_inv U ports P s"
  shows "data_inv U ports P t"
proof -
  note i = data_invD [OF assms(2)]
  show ?thesis
    unfolding data_inv_def
    by (intro conjI port_inv_step [OF data_stepD(1) [OF assms(1)] i(1)] stage_step [OF assms(1) i(2,3)]
        fwd_stage_step [OF assms(1) i(2-4)])
qed

lemma data_inv_init:
  assumes "ctl s = yak_init U" and "wired ports" and "P \<in> set ports"
  shows "data_inv U ports P s"
  using port_inv_init [OF assms(2,3), of U]
  by (simp add: data_inv_def assms(1)) (simp add: yak_init_def tap_stage_def fwd_stage_def)

definition carried :: "(call \<Rightarrow> nat list) \<Rightarrow> data_event \<Rightarrow> seg list" where
  "carried f e = (if on_calls f (fst e) = [] then [] else snd e)"

lemma carried_content:
  assumes "\<And>c. f c = [] \<or> f c = touched c" and "data_step ports s e t"
  shows "carried f e = map (memory s) (on_calls f (fst e))"
proof (cases "fst e")
  case (Fwd c)
  with assms(1) [of c] data_stepD(3) [OF assms(2)] show ?thesis by (auto simp: carried_def content_def)
next
  case (Tap c)
  with assms(1) [of c] data_stepD(3) [OF assms(2)] show ?thesis by (auto simp: carried_def content_def)
qed (simp_all add: carried_def)

lemma touched_cases:
  "accepted r c = [] \<or> accepted r c = touched c" "dequeued r c = [] \<or> dequeued r c = touched c"
  "offered pid c = [] \<or> offered pid c = touched c"
  by (cases c; simp)+

text \<open>A queue of buffers that keep their contents is a queue of contents.\<close>

lemma queue_of_contents:
  assumes "ws @ xs = ys @ ws'" and "\<And>p. p \<in> set ws' \<Longrightarrow> M' p = M p"
  shows "map M ws @ map M xs = map M ys @ map M' ws'"
  using arg_cong [OF assms(1), of "map M"] assms(2) by simp

lemma waiting_in_rings: "p \<in> set (waiting r s) \<Longrightarrow> p \<in> snd ` set (rings s)"
  by (auto simp: waiting_def)

interpretation data: two_queues "data_step ports" "data_inv U ports P"
    "\<lambda>s. map (memory s) (waiting (from_hostif P) (ctl s))" "\<lambda>s. map (memory s) (in_hand (dpdk_pid P) (ctl s))"
    "carried (accepted (from_hostif P))" "carried (dequeued (from_hostif P))" "carried (offered (dpdk_pid P))"
  for ports U P
proof unfold_locales
  fix s e t
  assume st: "data_step ports s e t" and inv: "data_inv U ports P s"
  note i = data_invD [OF inv] and it = data_invD [OF data_inv_step [OF st inv]]
  note m = fwd_memory [OF st i(2,3)]
  show "data_inv U ports P t" by (rule data_inv_step [OF st inv])
  show "map (memory s) (waiting (from_hostif P) (ctl s)) @ carried (accepted (from_hostif P)) e =
      carried (dequeued (from_hostif P)) e @ map (memory t) (waiting (from_hostif P) (ctl t))"
    unfolding carried_content [OF touched_cases(1) st] carried_content [OF touched_cases(2) st]
    by (rule queue_of_contents [OF ring_step [OF data_stepD(1) [OF st] i(1)]]) (use m waiting_in_rings in blast)
  have "set (in_hand (dpdk_pid P) (ctl t)) \<subseteq> fwd_held (ctl t)"
    by (rule in_hand_held [OF it(4) _ it(7)]) (use it(2) in \<open>simp add: yak_inv_def\<close>)
  then show "map (memory s) (in_hand (dpdk_pid P) (ctl s)) @ carried (dequeued (from_hostif P)) e =
      carried (offered (dpdk_pid P)) e @ map (memory t) (in_hand (dpdk_pid P) (ctl t))"
    unfolding carried_content [OF touched_cases(2) st] carried_content [OF touched_cases(3) st]
    by (intro queue_of_contents [OF hand_step [OF data_stepD(1) [OF st] i(1)]]) (use m in blast)
qed

lemma sent_carried: "subseq (along (carried (sent pid)) tr) (along (carried (offered pid)) tr)"
proof (induction tr)
  case (Cons e tr)
  have "sent pid c = [] \<or> offered pid c = sent pid c" for c by (cases c) auto
  then have "on_calls (sent pid) (fst e) = [] \<or> on_calls (offered pid) (fst e) = on_calls (sent pid) (fst e)"
    by (cases "fst e") auto
  then have "subseq (carried (sent pid) e) (carried (offered pid) e)" by (auto simp: carried_def)
  with Cons show ?case by (simp add: list_emb_append_mono)
qed simp

section \<open>From the interface into the ring\<close>

text \<open>
  The frames read from the port's interface and not refused by its ring, from the events alone: a round
  on the port reads a frame, the enqueue that follows it decides.
\<close>

fun take_in :: "port_t \<Rightarrow> label \<Rightarrow> u8 list option \<times> u8 list list \<Rightarrow> u8 list option \<times> u8 list list" where
  "take_in P (Tap_start A P') (f, fs) = (if P' = P then Some (ta_data A) else None, fs)"
| "take_in P (Tap (Enqueue r p res)) (f, fs) = (None, if res = 0 then fs @ case_option [] (\<lambda>f. [f]) f else fs)"
| "take_in P l ffs = ffs"

definition frames_taken :: "port_t \<Rightarrow> data_event list \<Rightarrow> u8 list list" where
  "frames_taken P tr = snd (fold (take_in P) (map fst tr) (None, []))"

definition round_frame :: "port_t \<Rightarrow> yak_data \<Rightarrow> u8 list option" where
  "round_frame P s = (if snd (tap_sees s) = P then Some (ta_data (fst (tap_sees s))) else None)"

text \<open>
  In step with a trace: the frame in hand is that of the round, the frames so far are the contents of
  the buffers accepted so far.
\<close>

definition tap_job_inv :: "port_t list \<Rightarrow> port_t \<Rightarrow> data_event list \<Rightarrow> yak_data \<Rightarrow> bool" where
  "tap_job_inv ports P tr s \<longleftrightarrow>
     frames_taken P tr = map seg_bytes (along (carried (accepted (from_hostif P))) tr) \<and>
     (tap_todo (ctl s) \<noteq> [] \<longrightarrow> fst (fold (take_in P) (map fst tr) (None, [])) = round_frame P s \<and>
       snd (tap_sees s) \<in> set ports \<and> good_read (fst (tap_sees s)))"

lemma take_in_calm:
  assumes "\<And>A P. l \<noteq> Tap_start A P" and "\<And>r p res. l \<noteq> Tap (Enqueue r p res)"
  shows "take_in P l ffs = ffs"
  by (cases "(P, l, ffs)" rule: take_in.cases) (use assms in auto)

lemma fwd_never_enqueues: "fwd_stage A P H M (c # cs) \<Longrightarrow> accepted r c = []"
  unfolding fwd_stage_def by (cases c) (auto simp: Cons_eq_append_conv)

lemma tap_calm:
  assumes "tap_job_inv ports P tr s" and "carried (accepted (from_hostif P)) e = []" and "take_in P (fst e) = (\<lambda>ffs. ffs)"
    and "tap_todo (ctl t) \<noteq> [] \<Longrightarrow> tap_todo (ctl s) \<noteq> []" and "tap_sees t = tap_sees s"
  shows "tap_job_inv ports P (tr @ [e]) t"
  using assms by (simp add: tap_job_inv_def frames_taken_def round_frame_def)

lemma enqueue_step:
  assumes "data_step ports s e t" and "data_inv U ports P s" and "tap_job_inv ports P tr s"
    and "fst e = Tap (Enqueue r p res)" and "tap_todo (ctl s) = Enqueue r p res # cs"
    and "tap_todo (ctl t) = cs"
  shows "tap_job_inv ports P (tr @ [e]) t"
proof -
  let ?A = "fst (tap_sees s)" and ?P = "snd (tap_sees s)"
  note i = data_invD [OF assms(2)]
  from i(3) assms(5) obtain sg where cs: "cs = []" and r: "r = from_hostif ?P"
    and f: "frame_seg ?A = Some (p, sg)" and m: "memory s p = sg"
    by (auto simp: tap_stage_def ends_read_def)
  have j: "fst (fold (take_in P) (map fst tr) (None, [])) = round_frame P s" "?P \<in> set ports" "good_read ?A"
    "frames_taken P tr = map seg_bytes (along (carried (accepted (from_hostif P))) tr)"
    using assms(3,5) by (simp_all add: tap_job_inv_def)
  have "r = from_hostif P \<longleftrightarrow> ?P = P" unfolding r by (rule wired_port(1) [OF i(5) j(2) i(6)])
  then have c: "carried (accepted (from_hostif P)) e = (if ?P = P \<and> res = 0 then [sg] else [])"
    using carried_content [OF touched_cases(1) assms(1)] by (simp add: assms(4) m)
  have n: "take_in P (fst e) (fold (take_in P) (map fst tr) (None, [])) =
      (None, frames_taken P tr @ (if ?P = P \<and> res = 0 then [ta_data ?A] else []))"
    by (subst prod.collapse [symmetric], subst j(1)) (simp add: assms(4) frames_taken_def round_frame_def)
  show ?thesis
    unfolding tap_job_inv_def using n j(4) frame_seg_bytes [OF f j(3)] cs
    by (simp add: frames_taken_def [of P "tr @ [e]"] c assms(6))
qed

lemma tap_job_step:
  assumes "data_step ports s e t" and "data_inv U ports P s" and "tap_job_inv ports P tr s"
  shows "tap_job_inv ports P (tr @ [e]) t"
proof -
  note l = data_stepD(2) [OF assms(1)]
  note c = carried_content [OF touched_cases(1) assms(1)]
  have calm: "tap_job_inv ports P (tr @ [e]) t"
    if "on_calls (accepted (from_hostif P)) (fst e) = []" "take_in P (fst e) = (\<lambda>ffs. ffs)"
      "tap_todo (ctl t) \<noteq> [] \<Longrightarrow> tap_todo (ctl s) \<noteq> []" "\<And>A Q. fst e \<noteq> Tap_start A Q"
  proof (rule tap_calm [OF assms(3) _ that(2,3)])
    show "tap_sees t = tap_sees s" using assms(1) that(4) by (auto simp: data_step_def split: label.splits)
  qed (simp_all add: c that(1))
  have idle: "take_in P (fst e) = (\<lambda>ffs. ffs)" if "\<And>A P. fst e \<noteq> Tap_start A P" "\<And>r p res. fst e \<noteq> Tap (Enqueue r p res)"
    using take_in_calm [OF that] by blast
  from l show ?thesis
  proof cases
    case (fwd_call a cs H)
    then have "accepted (from_hostif P) a = []"
      using fwd_never_enqueues data_invD(4) [OF assms(2)] by metis
    with fwd_call show ?thesis by (intro calm idle) auto
  next
    case (tap_round A Q hr enq st)
    then have "tap_sees t = (A, Q)" "Q \<in> set ports" "good_read A"
      using assms(1) by (simp_all add: data_step_def yak_on_def)
    then show ?thesis
      using assms(3) tap_round c
      by (cases "fold (take_in P) (map fst tr) (None, [])") (auto simp: tap_job_inv_def frames_taken_def round_frame_def)
  next
    case (tap_call a cs H)
    show ?thesis
    proof (cases "\<exists>r p res. a = Enqueue r p res")
      case True
      then obtain r p res where "a = Enqueue r p res" by blast
      with tap_call show ?thesis by (intro enqueue_step [OF assms, of r p res cs]) simp_all
    next
      case False
      then have "accepted (from_hostif P) a = []" by (cases a) auto
      with tap_call False show ?thesis by (intro calm idle) auto
    qed
  qed (use calm idle in auto)
qed

lemma tap_job_trace:
  assumes "trace (data_step ports) s0 tr s" and "data_inv U ports P s0" and "tap_todo (ctl s0) = []"
  shows "tap_job_inv ports P tr s"
  using assms(1)
proof (induction rule: trace.induct)
  case trace_nil
  then show ?case using assms(3) by (simp add: tap_job_inv_def frames_taken_def)
next
  case (trace_snoc tr t e u)
  then show ?case using tap_job_step data.front.inv_trace [OF trace_snoc(1) assms(2)] by blast
qed

section \<open>Every run of the threads moves packets\<close>

text \<open>
  The memory that follows a run when nobody but the TAP thread writes: with it every trace of the
  threads whose answers are true is a trace with the memory.
\<close>

definition after_label :: "label \<Rightarrow> yak_data \<Rightarrow> yak_data" where
  "after_label l s = s\<lparr>memory := written l s, fwd_sees := (case l of Fwd_start AP \<Rightarrow> AP | _ \<Rightarrow> fwd_sees s),
     tap_sees := (case l of Tap_start A P \<Rightarrow> (A, P) | _ \<Rightarrow> tap_sees s)\<rparr>"

fun data_events :: "yak_data \<Rightarrow> label list \<Rightarrow> data_event list" where
  "data_events s [] = []"
| "data_events s (l # tr) = (l, content (memory s) l) # data_events (after_label l s) tr"

fun all_agree :: "yak_data \<Rightarrow> label list \<Rightarrow> bool" where
  "all_agree s [] \<longleftrightarrow> True"
| "all_agree s (l # tr) \<longleftrightarrow> agrees l s \<and> all_agree (after_label l s) tr"

lemma events_append:
  "data_events s (tr @ [l]) = data_events s tr @ [(l, content (memory (fold after_label tr s)) l)]"
  "all_agree s (tr @ [l]) \<longleftrightarrow> all_agree s tr \<and> agrees l (fold after_label tr s)"
  by (induction tr arbitrary: s) auto

lemma ctl_irrelevant [simp]: "agrees l (s\<lparr>ctl := c\<rparr>) = agrees l s" "written l (s\<lparr>ctl := c\<rparr>) = written l s"
  by (cases "(l, s)" rule: agrees.cases; simp) (cases "(l, s)" rule: written.cases; simp split: option.split sum.split)

lemma data_trace_exists:
  assumes "trace (yak_on ports) c tr c'" and "all_agree s tr"
  shows "trace (data_step ports) (s\<lparr>ctl := c\<rparr>) (data_events s tr) ((fold after_label tr s)\<lparr>ctl := c'\<rparr>)"
  using assms
proof (induction rule: trace.induct)
  case trace_nil
  then show ?case using trace.trace_nil by simp
next
  case (trace_snoc tr t l u)
  let ?s = "fold after_label tr s"
  have "data_step ports (?s\<lparr>ctl := t\<rparr>) (l, content (memory ?s) l) ((after_label l ?s)\<lparr>ctl := u\<rparr>)"
    using trace_snoc by (simp add: data_step_def events_append) (simp add: after_label_def split: label.split)
  with trace_snoc show ?case
    using trace.trace_snoc [of "data_step ports"] by (simp add: events_append)
qed

text \<open>
  C3: every frame goes from the port's TAP interface to its device byte for byte: under every
  interleaving, and whatever the driver and the pool do to the buffers they own, the frames read from the
  interface and not refused by the ring are, in order, the contents of the buffers at the moment they
  were offered to the device, then those of the buffers in the thread's hand, then those in the ring.
  What the device took is a subsequence of what it was offered.
\<close>

theorem frames_intact:
  assumes "trace (data_step ports) s0 tr s" and "ctl s0 = yak_init U" and "wired ports" and "P \<in> set ports"
  shows "frames_taken P tr = map seg_bytes (along (carried (offered (dpdk_pid P))) tr @
    map (memory s) (in_hand (dpdk_pid P) (ctl s) @ waiting (from_hostif P) (ctl s))) \<and>
    subseq (along (carried (sent (dpdk_pid P))) tr) (along (carried (offered (dpdk_pid P))) tr)"
proof -
  note i = data_inv_init [OF assms(2-4)]
  have e: "waiting r (ctl s0) = []" "in_hand pid (ctl s0) = []" "tap_todo (ctl s0) = []" for r pid
    by (simp_all add: assms(2) yak_init_def waiting_def in_hand_def)
  have "along (carried (accepted (from_hostif P))) tr = along (carried (offered (dpdk_pid P))) tr @
      map (memory s) (in_hand (dpdk_pid P) (ctl s) @ waiting (from_hostif P) (ctl s))"
    using data.both.conserved [OF assms(1) i] by (simp add: e)
  with tap_job_trace [OF assms(1) i e(3)] sent_carried [of "dpdk_pid P" tr] show ?thesis by (simp add: tap_job_inv_def)
qed


text \<open>The run of \<open>frame_passes\<close>, on a memory that holds something else at first.\<close>

definition sample_data :: "seg \<Rightarrow> yak_data" where
  "sample_data sg = \<lparr>ctl = yak_init {7}, memory = \<lambda>_. sg, fwd_sees = (sample_round, sample_port), tap_sees = (sample_frame, sample_port)\<rparr>"

lemma sample_alloc [simp]: "ta_alloc sample_frame = Some (7, sample_seg)" "fa_deq_mem sample_round p = sample_read"
  by (simp_all add: sample_frame_def sample_round_def)

lemma sample_read_room: "take 2 (room sample_seg) @ [1, 2, 3] @ drop 5 (room sample_seg) = room sample_read"
  by (simp add: sample_seg_def sample_read_def set_lens_def numeral_2_eq_2 numeral_3_eq_3)

lemma sample_frame_recv [simp]: "snd (tap_recv data_off sample_frame fd M) = Inr (7, M(7 := sample_read))"
proof -
  have "data_at sample_seg = 2" "length (room sample_seg) = 8" by (simp_all add: sample_seg_def data_at_def)
  then have "write_data sample_seg [1, 2, 3] = ret (sample_seg\<lparr>room := room sample_read\<rparr>)"
    by (simp add: write_data_def flip: sample_read_room)
  moreover have "set_lens 3 3 (sample_seg\<lparr>room := room sample_read\<rparr>) = sample_read"
    by (simp add: sample_read_def set_lens_def)
  ultimately show ?thesis by (simp add: tap_recv_def sample_frame_def Let_def)
qed

lemma sample_good_read [simp]: "good_read sample_frame"
  by (simp add: good_read_def read_ok_def fresh_seg_def) (simp add: sample_frame_def sample_seg_def data_at_def)

lemma sample_agrees: "all_agree (sample_data sg) (frame_in 7 @ frame_out)"
  by (simp add: frame_in_def frame_out_def after_label_def sample_data_def)

lemma sample_data_run:
  "trace (data_step [sample_port]) (sample_data sg) (data_events (sample_data sg) (frame_in 7 @ frame_out))
     ((fold after_label (frame_in 7 @ frame_out) (sample_data sg))\<lparr>ctl := frame_sent\<rparr>)"
  using data_trace_exists [OF frame_passes sample_agrees, of sg] by (simp add: sample_data_def)

text \<open>The three bytes of the frame are offered to the device, whatever the buffer held before.\<close>

theorem frames_intact_witness:
  "map seg_bytes (along (carried (offered 0)) (data_events (sample_data arp_seg) (frame_in 7 @ frame_out))) = [[1, 2, 3]]"
proof -
  have w: "wired [sample_port]" "sample_port \<in> set [sample_port]" by (simp_all add: wired_def)
  have c: "ctl (sample_data arp_seg) = yak_init {7}" by (simp add: sample_data_def)
  have "in_hand 0 frame_sent = []" "waiting 2 frame_sent = []"
    by (simp_all add: frame_sent_def in_hand_def waiting_def)
  moreover have "frames_taken sample_port (data_events (sample_data arp_seg) (frame_in 7 @ frame_out)) = [[1, 2, 3]]"
    by (simp add: frames_taken_def frame_in_def frame_out_def) (simp add: sample_frame_def)
  ultimately show ?thesis
    using frames_intact [OF sample_data_run c w] by (simp add: sample_port_def)
qed

end
