(* ===== verification/Yak_Ends.thy ===== *)
theory Yak_Ends
  imports Yak_Data
begin

text \<open>
  The other direction, from the device to the TAP interface: the received frames of the four types are
  what is written, as long as the driver delivers every packet in one segment, and the forwarding thread
  never works on stale data.
\<close>

section \<open>From the device to the interface\<close>

definition host_bound :: "seg \<Rightarrow> bool" where
  "host_bound sg \<longleftrightarrow> take 2 (drop (data_at sg + 12) (room sg)) \<in> set hostif_types"

text \<open>
  What the thread is going to write of the packets it receives: as many bytes as the packet has, from
  the room of its first segment.
\<close>

fun passed :: "port_t \<Rightarrow> data_event \<Rightarrow> u8 list list" where
  "passed P (Fwd (Rx pid ps), segs) = (if pid = dpdk_pid P then map sent_bytes (filter host_bound segs) else [])"
| "passed P e = []"

fun writes :: "int \<Rightarrow> call \<Rightarrow> u8 list list" where
  "writes fd (Write_fd fd' p bs) = (if fd' = fd then [bs] else [])"
| "writes fd c = []"

fun written_out :: "port_t \<Rightarrow> data_event \<Rightarrow> u8 list list" where
  "written_out P (Fwd c, segs) = writes (hostif_fd P) c"
| "written_out P e = []"

fun no_rx :: "call \<Rightarrow> bool" where
  "no_rx (Rx pid ps) = False"
| "no_rx c = True"

text \<open>What is received and not written yet.\<close>

definition going_out :: "port_t \<Rightarrow> yak_data \<Rightarrow> u8 list list" where
  "going_out P s = (if list_all no_rx (fwd_todo (ctl s)) then along (writes (hostif_fd P)) (fwd_todo (ctl s)) else [])"

lemma along_each:
  "snd (io_each f xs) = Inr () \<Longrightarrow> (\<And>x. x \<in> set xs \<Longrightarrow> snd (f x) = Inr () \<Longrightarrow> along g (fst (f x)) = h x) \<Longrightarrow>
   along g (fst (io_each f xs)) = concat (map h xs)"
  by (induction xs) (auto elim!: snd_io_bind_InrE)

lemma port_input_writes:
  assumes "snd (port_input M res m P) = Inr ()"
  shows "along (writes fd) (fst (port_input M res m P)) =
    (if fd = hostif_fd P \<and> host_bound (M m) then [sent_bytes (M m)] else [])"
proof -
  let ?b = "take 2 (drop (data_at (M m) + 12) (room (M m)))"
  from assms have b: "data_at (M m) + 14 \<le> length (room (M m))"
    by (auto simp: port_input_def load16_def load_def split: if_splits elim!: snd_io_bind_InrE)
  obtain a c where ab: "?b = [a, c]" using list2 [of ?b] b by auto
  have t: "host_bound (M m) \<longleftrightarrow> htons (of_nat (le_nat [a, c])) = 0x86dd \<or> htons (of_nat (le_nat [a, c])) = 0x0800 \<or>
    htons (of_nat (le_nat [a, c])) = 0x0806 \<or> htons (of_nat (le_nat [a, c])) = 0x8100"
    unfolding host_bound_def ab hostif_type_iff ..
  have l: "load16 (room (M m)) (data_at (M m) + 12) = (ret (of_nat (le_nat [a, c])) :: u16 prog)"
    using b by (simp add: load16_def load_def ab del: le_nat.simps)
  show ?thesis
    using assms unfolding port_input_def l t
    by (auto simp: tap_send_def read_data_def sent_bytes_def split: if_splits)
qed

text \<open>The writes of a round whose reception is still to come are those of the frames it receives.\<close>

definition host_frames :: "fwd_answers \<Rightarrow> u8 list list" where
  "host_frames A = map sent_bytes (filter host_bound (map (fa_rx_mem A) (fa_rx A)))"

definition fwd_full :: "port_t list \<Rightarrow> fwd_answers \<Rightarrow> port_t \<Rightarrow> call list \<Rightarrow> bool" where
  "fwd_full ports A P cs \<longleftrightarrow> list_all no_rx cs \<or>
     (P \<in> set ports \<and> (\<forall>fd. along (writes fd) (dropWhile no_rx cs) = (if fd = hostif_fd P then host_frames A else [])))"

lemma early_late_calls: "early A c \<Longrightarrow> no_rx c \<and> writes fd c = []" "late A P c \<Longrightarrow> no_rx c"
  by (cases c; simp)+

lemma early_late_lists: "list_all (early A) cs \<Longrightarrow> list_all no_rx cs" "list_all (late A P) cs \<Longrightarrow> list_all no_rx cs"
  by (auto simp: list_all_iff early_late_calls)

lemma concat_if: "concat (map (\<lambda>x. if c x then [g x] else []) xs) = map g (filter c xs)"
  by (induction xs) auto

lemma fwd_full_start:
  assumes "snd (fwd_port AP) = Inr ()" and "snd AP \<in> set ports"
  shows "fwd_full ports (fst AP) (snd AP) (fst (fwd_port AP))"
proof -
  let ?A = "fst AP" and ?P = "snd AP"
  let ?out = "io_each (\<lambda>m. port_input (fa_rx_mem ?A) (fa_write ?A m) m ?P) (fa_rx ?A)"
  obtain xs where c: "fst (fwd_port AP) = xs @ Rx (dpdk_pid ?P) (fa_rx ?A) # fst ?out" and xs: "list_all (early ?A) xs"
    using fwd_port_calls by blast
  have "snd ?out = Inr ()" using assms(1) by (simp add: fwd_port_def Let_def) (auto elim!: snd_io_bind_InrE split: if_splits)
  then have "along (writes fd) (fst ?out) = concat (map (\<lambda>m. if fd = hostif_fd ?P \<and> host_bound (fa_rx_mem ?A m)
      then [sent_bytes (fa_rx_mem ?A m)] else []) (fa_rx ?A))" for fd
    by (rule along_each) (rule port_input_writes)
  then have "along (writes fd) (fst ?out) = (if fd = hostif_fd ?P then host_frames ?A else [])" for fd
    by (simp add: concat_if host_frames_def filter_map comp_def)
  moreover have "dropWhile no_rx (xs @ ys) = dropWhile no_rx ys" for ys
    using early_late_lists(1) [OF xs] by (simp add: dropWhile_append2 list_all_iff)
  ultimately show ?thesis using assms(2) unfolding fwd_full_def c by simp
qed

text \<open>As long as the thread has not been stopped by a failed write.\<close>

definition live_step :: "port_t list \<Rightarrow> yak_data \<Rightarrow> data_event \<Rightarrow> yak_data \<Rightarrow> bool" where
  "live_step ports s e t \<longleftrightarrow> data_step ports s e t \<and> fwd_live (ctl t)"

definition out_inv :: "nat set \<Rightarrow> port_t list \<Rightarrow> port_t \<Rightarrow> yak_data \<Rightarrow> bool" where
  "out_inv U ports P s \<longleftrightarrow> data_inv U ports P s \<and> distinct (map hostif_fd ports) \<and>
     fwd_full ports (fst (fwd_sees s)) (snd (fwd_sees s)) (fwd_todo (ctl s))"

lemma fwd_full_call: "fwd_full ports A P (c # cs) \<Longrightarrow> no_rx c \<Longrightarrow> fwd_full ports A P cs"
  by (auto simp: fwd_full_def)

lemma out_inv_step:
  assumes "live_step ports s e t" and "out_inv U ports P s"
  shows "out_inv U ports P t"
proof -
  have st: "data_step ports s e t" and live: "fwd_live (ctl t)" and i: "data_inv U ports P s"
    and full: "fwd_full ports (fst (fwd_sees s)) (snd (fwd_sees s)) (fwd_todo (ctl s))"
    using assms by (simp_all add: live_step_def out_inv_def)
  have "fwd_full ports (fst (fwd_sees t)) (snd (fwd_sees t)) (fwd_todo (ctl t))"
    using data_stepD(2) [OF st]
  proof cases
    case (fwd_round AP)
    with st live show ?thesis by (simp add: data_step_def yak_on_def fwd_full_start)
  next
    case (fwd_call c cs H)
    then have "fwd_sees t = fwd_sees s" using st by (simp add: data_step_def)
    moreover have "fwd_full ports (fst (fwd_sees s)) (snd (fwd_sees s)) cs"
    proof (cases "no_rx c")
      case True
      with full fwd_call fwd_full_call show ?thesis by metis
    next
      case False
      with data_invD(4) [OF i] fwd_call have "list_all (late (fst (fwd_sees s)) (snd (fwd_sees s))) cs"
        by (auto simp: fwd_stage_def Cons_eq_append_conv early_late_calls)
      then show ?thesis by (simp add: fwd_full_def early_late_lists)
    qed
    ultimately show ?thesis using fwd_call by simp
  qed (use st full in \<open>simp_all add: data_step_def\<close>)
  then show ?thesis using assms(2) data_inv_step [OF st i] by (simp add: out_inv_def)
qed

lemma passed_no_rx: "no_rx c \<Longrightarrow> passed P (Fwd c, segs) = []"
  by (cases c) auto

lemma out_call:
  assumes "out_inv U ports P s" and "data_step ports s (Fwd c, segs) t" and "fwd_todo (ctl s) = c # cs" and "fwd_todo (ctl t) = cs"
  shows "going_out P s @ passed P (Fwd c, segs) = writes (hostif_fd P) c @ going_out P t"
proof -
  let ?A = "fst (fwd_sees s)" and ?Q = "snd (fwd_sees s)"
  have i: "data_inv U ports P s" and d: "distinct (map hostif_fd ports)" and full: "fwd_full ports ?A ?Q (c # cs)"
    using assms(1,3) by (simp_all add: out_inv_def)
  note ports = data_invD(5,6) [OF i]
  have "fwd_stage ?A ?Q (fwd_held (ctl s)) (memory s) (c # cs)" using data_invD(4) [OF i] assms(3) by simp
  then consider "list_all no_rx (c # cs)" | "c = Rx (dpdk_pid ?Q) (fa_rx ?A)" "list_all no_rx cs"
    | "early ?A c" "\<not> list_all no_rx cs"
    unfolding fwd_stage_def by (auto simp: Cons_eq_append_conv early_late_lists early_late_calls(2))
  then show ?thesis
  proof cases
    case 1
    then show ?thesis using assms(3,4) by (simp add: going_out_def passed_no_rx)
  next
    case 2
    with full have Q: "?Q \<in> set ports" and w: "along (writes (hostif_fd P)) cs = (if hostif_fd P = hostif_fd ?Q then host_frames ?A else [])"
      by (auto simp: fwd_full_def)
    have "hostif_fd P = hostif_fd ?Q \<longleftrightarrow> dpdk_pid ?Q = dpdk_pid P"
      using wired_port(2) [OF ports(1) Q ports(2)] d Q ports(2) by (auto simp: distinct_map inj_on_def)
    moreover have "map (fa_rx_mem ?A) (fa_rx ?A) = segs"
      using data_stepD(3,4) [OF assms(2)] 2(1) by (simp add: content_def list_all_iff)
    ultimately show ?thesis using 2 w assms(3,4) by (simp add: going_out_def host_frames_def)
  next
    case 3
    then show ?thesis using assms(3,4) early_late_calls(1) [OF 3(1)] by (simp add: going_out_def passed_no_rx)
  qed
qed

interpretation out: queue "live_step ports" "out_inv U ports P" "going_out P" "passed P" "written_out P" for ports U P
proof unfold_locales
  fix s e t
  assume st: "live_step ports s e t" and i: "out_inv U ports P s"
  show "out_inv U ports P t" by (rule out_inv_step [OF st i])
  have d: "data_step ports s e t" using st by (simp add: live_step_def)
  obtain l segs where e: "e = (l, segs)" by (cases e)
  from data_stepD(2) [OF d] show "going_out P s @ passed P e = written_out P e @ going_out P t"
  proof cases
    case (fwd_round AP)
    with fwd_port_calls [of AP] show ?thesis by (auto simp: e going_out_def)
  next
    case (fwd_call c cs H)
    then show ?thesis using out_call [OF i, of c segs t cs] d by (simp add: e)
  qed (simp_all add: e going_out_def)
qed

lemma live_trace:
  "trace (data_step ports) s tr t \<Longrightarrow> fwd_live (ctl t) \<Longrightarrow> trace (live_step ports) s tr t"
proof (induction rule: trace.induct)
  case (trace_snoc tr t e u)
  from data_stepD(2) [OF trace_snoc(2)] have "fwd_live (ctl t)"
    by cases (use trace_snoc.prems in simp_all)
  with trace_snoc show ?case by (auto intro: trace.trace_snoc simp: live_step_def)
qed (rule trace_nil)

section \<open>Packets of one segment\<close>

text \<open>
  The bytes of a packet of one segment are those of this segment. The driver may deliver packets of more
  segments (\<open>port_configure\<close> is told \<open>enable_scatter\<close>); that they fit into one is a hypothesis on a trace,
  and what \<open>tap_send\<close> makes of the others is shown in \<open>Tap\<close>.
\<close>

definition one_segment :: "seg \<Rightarrow> bool" where
  "one_segment sg \<longleftrightarrow> nb_segs (desc sg) = 1 \<and> unat (pkt_len (desc sg)) = unat (data_len (desc sg))"

fun unscattered :: "data_event \<Rightarrow> bool" where
  "unscattered (Fwd (Rx pid ps), segs) \<longleftrightarrow> list_all one_segment segs"
| "unscattered e \<longleftrightarrow> True"

text \<open>What the device of a port delivers with one of the four types.\<close>

fun received :: "port_t \<Rightarrow> data_event \<Rightarrow> u8 list list" where
  "received P (Fwd (Rx pid ps), segs) = (if pid = dpdk_pid P then map seg_bytes (filter host_bound segs) else [])"
| "received P e = []"

lemma passed_received: "unscattered e \<Longrightarrow> passed P e = received P e"
proof (induction P e rule: received.induct)
  case (1 P pid ps segs)
  have "sent_bytes sg = seg_bytes sg" if "sg \<in> set segs" for sg
    using that 1 by (simp add: list_all_iff one_segment_def sent_bytes_def seg_bytes_def)
  then show ?case by simp
qed simp_all

lemma passed_received_trace: "list_all unscattered tr \<Longrightarrow> along (passed P) tr = along (received P) tr"
  by (induction tr) (simp_all add: passed_received)

section \<open>A packet that is written\<close>

text \<open>
  The driver is given buffer 8 and delivers an ARP packet in it: the run up to the write to the interface,
  and the write.
\<close>

definition arp_in :: seg where
  "arp_in = set_lens 14 14 arp_seg"

definition arp_round :: fwd_answers where
  "arp_round = \<lparr>fa_empty = True, fa_dequeued = [], fa_deq_mem = \<lambda>_. sample_seg, fa_ntx = \<lambda>_. 1, fa_rx = [8],
    fa_rx_mem = \<lambda>_. arp_in, fa_write = \<lambda>_. 14\<rparr>"

abbreviation egress_text :: string where
  "egress_text \<equiv> ''Egress Packet'' @ [CHR 0x0A]"

definition packet_in :: "label list" where
  "packet_in = [Driver, Fwd_start (arp_round, sample_port), Fwd (Rx 0 [8]), Fwd (Out Std_out egress_text), Fwd (Dump 8 14)]"

definition about_to_write :: yak_state where
  "about_to_write = (yak_init {})\<lparr>fwd_held := {8}, fwd_todo := [Write_fd 5 8 (sent_bytes arp_in), Free 8]\<rparr>"

lemma arp_room:
  "data_at arp_in = 2" "length (room arp_in) = 16" "pkt_len (desc arp_in) = 14" "host_bound arp_in"
  by (simp_all add: arp_in_def arp_seg_def sample_seg_def set_lens_def data_at_def host_bound_def hostif_types_def)

lemma arp_bytes: "sent_bytes arp_in = replicate 12 0 @ [0x08, 0x06]"
  by (simp add: sent_bytes_def arp_room) (simp add: arp_in_def arp_seg_def set_lens_def drop_Cons')

lemma arp_round_calls:
  "fst (fwd_port (arp_round, sample_port)) =
     [Rx 0 [8], Out Std_out egress_text, Dump 8 14, Write_fd 5 8 (sent_bytes arp_in), Free 8]"
  "snd (fwd_port (arp_round, sample_port)) = Inr ()"
proof -
  have l: "load16 (room arp_in) 14 = (ret 0x0608 :: u16 prog)"
    by (simp add: load16_def load_def arp_room) (simp add: arp_in_def arp_seg_def set_lens_def)
  have t: "htons 0x0608 = 0x0806" by (simp add: htons_def)
  show "fst (fwd_port (arp_round, sample_port)) =
     [Rx 0 [8], Out Std_out egress_text, Dump 8 14, Write_fd 5 8 (sent_bytes arp_in), Free 8]"
    "snd (fwd_port (arp_round, sample_port)) = Inr ()"
    by (simp_all add: fwd_port_def arp_round_def sample_port_def port_input_def l t tap_send_def read_data_def arp_room
        sent_bytes_def Let_def)
qed

lemma packet_in_run: "trace (yak_on [sample_port]) (yak_init {8}) packet_in about_to_write"
proof -
  let ?c3 = "[Write_fd 5 8 (sent_bytes arp_in), Free 8]" let ?c2 = "Dump 8 14 # ?c3"
  let ?c1 = "Out Std_out egress_text # ?c2"
  let ?s1 = "(yak_init {})\<lparr>wire := {8}\<rparr>" let ?s2 = "?s1\<lparr>fwd_todo := Rx 0 [8] # ?c1\<rparr>"
  let ?s3 = "(yak_init {})\<lparr>fwd_held := {8}, fwd_todo := ?c1\<rparr>"
  let ?s4 = "?s3\<lparr>fwd_todo := ?c2\<rparr>"
  have "yak_on [sample_port] (yak_init {8}) Driver ?s1"
    using yak_lstep.rx_refill [of 8 "yak_init {8}"] by (simp add: yak_on_def yak_init_def)
  moreover have "yak_on [sample_port] ?s1 (Fwd_start (arp_round, sample_port)) ?s2"
    using yak_lstep.fwd_round [of ?s1 "(arp_round, sample_port)"] arp_round_calls
    by (simp add: yak_on_def good_round_def yak_init_def) (simp add: arp_round_def)
  moreover have "yak_on [sample_port] ?s2 (Fwd (Rx 0 [8])) ?s3"
    using yak_lstep.fwd_call [of ?s2 "Rx 0 [8]" ?c1 "{8}"] by (simp add: yak_on_def yak_init_def)
  moreover have "yak_on [sample_port] ?s3 (Fwd (Out Std_out egress_text)) ?s4"
    using yak_lstep.fwd_call [of ?s3 "Out Std_out egress_text" ?c2 "{8}"] by (simp add: yak_on_def)
  moreover have "yak_on [sample_port] ?s4 (Fwd (Dump 8 14)) about_to_write"
    using yak_lstep.fwd_call [of ?s4 "Dump 8 14" ?c3 "{8}"] by (simp add: yak_on_def about_to_write_def)
  ultimately show ?thesis unfolding packet_in_def by (intro trace_cons trace_one)
qed

definition arp_data :: yak_data where
  "arp_data = \<lparr>ctl = yak_init {8}, memory = \<lambda>_. arp_in, fwd_sees = (sample_round, sample_port), tap_sees = (sample_frame, sample_port)\<rparr>"

lemma arp_data_run:
  "trace (data_step [sample_port]) arp_data (data_events arp_data packet_in)
     ((fold after_label packet_in arp_data)\<lparr>ctl := about_to_write\<rparr>)"
proof -
  have "all_agree arp_data packet_in"
    by (simp add: packet_in_def arp_data_def after_label_def) (simp add: arp_round_def)
  from data_trace_exists [OF packet_in_run this] show ?thesis by (simp add: arp_data_def)
qed

lemma arp_data_start:
  "ctl arp_data = yak_init {8}" "wired [sample_port]" "sample_port \<in> set [sample_port]" "distinct (map hostif_fd [sample_port])"
  by (simp_all add: arp_data_def wired_def)

lemma arp_memory: "memory (fold after_label packet_in arp_data) = (\<lambda>_. arp_in)"
  by (simp add: packet_in_def arp_data_def after_label_def)

section \<open>Properties\<close>

text \<open>
  C6: what the device of a port delivers with one of the four types goes to the port's TAP interface byte
  for byte, once each and in order: as long as every packet comes in one segment and until a write fails,
  the bytes of the packets received are those written followed by those the thread is about to write.
\<close>

theorem frames_delivered:
  assumes "trace (data_step ports) s0 tr s" and "ctl s0 = yak_init U" and "wired ports" and "P \<in> set ports"
    and "distinct (map hostif_fd ports)" and "fwd_live (ctl s)" and "list_all unscattered tr"
  shows "along (received P) tr = along (written_out P) tr @ going_out P s"
proof -
  have "out_inv U ports P s0"
    using data_inv_init [OF assms(2-4)] assms(5) by (simp add: out_inv_def assms(2)) (simp add: fwd_full_def yak_init_def)
  moreover have "going_out P s0 = []" by (simp add: going_out_def assms(2)) (simp add: yak_init_def)
  ultimately show ?thesis
    using out.conserved [OF live_trace [OF assms(1,6)]] passed_received_trace [OF assms(7)] by fastforce
qed

theorem frames_delivered_witness:
  "along (received sample_port) (data_events arp_data packet_in) = [replicate 12 0 @ [0x08, 0x06]]"
proof -
  have l: "fwd_live (ctl ((fold after_label packet_in arp_data)\<lparr>ctl := about_to_write\<rparr>))"
    by (simp add: about_to_write_def) (simp add: yak_init_def)
  have "one_segment arp_in" by (simp add: one_segment_def arp_in_def set_lens_def) (simp add: arp_seg_def sample_seg_def)
  then have u: "list_all unscattered (data_events arp_data packet_in)"
    by (simp add: packet_in_def content_def) (simp add: arp_data_def after_label_def)
  from frames_delivered [OF arp_data_run arp_data_start l u] show ?thesis
    by (simp add: going_out_def about_to_write_def arp_bytes) (simp add: packet_in_def sample_port_def)
qed

text \<open>
  C18: the forwarding thread never works on stale data: what it is about to write to an interface, and the
  length it is about to dump, are those the buffer has at that moment, and it owns the buffer.
\<close>

theorem snapshot_current:
  assumes "trace (data_step ports) s0 tr s" and "ctl s0 = yak_init U" and "wired ports" and "P \<in> set ports"
    and "fwd_todo (ctl s) = c # cs"
  shows "(case c of Write_fd fd p bs \<Rightarrow> p \<in> fwd_held (ctl s) \<and> bs = sent_bytes (memory s p)
    | Dump p n \<Rightarrow> p \<in> fwd_held (ctl s) \<and> n = pkt_len (desc (memory s p)) | _ \<Rightarrow> True)"
proof -
  note i = data_invD [OF data.front.inv_trace [OF assms(1) data_inv_init [OF assms(2-4)]]]
  have h: "held_step c (fwd_held (ctl s)) \<noteq> None"
    using i(2) assms(5) by (auto simp: yak_inv_def split: option.splits)
  from i(4) assms(5) consider "late (fst (fwd_sees s)) (snd (fwd_sees s)) c"
      "\<forall>p\<in>fwd_held (ctl s) \<inter> set (fa_rx (fst (fwd_sees s))). memory s p = fa_rx_mem (fst (fwd_sees s)) p"
    | "\<exists>pid ps. c = Rx pid ps"
    | "early (fst (fwd_sees s)) c" "\<forall>p\<in>fwd_held (ctl s). memory s p = fa_deq_mem (fst (fwd_sees s)) p"
    unfolding fwd_stage_def by (auto simp: Cons_eq_append_conv)
  then show ?thesis using h by cases (auto split: call.split if_splits)
qed

theorem snapshot_current_witness:
  "8 \<in> fwd_held about_to_write"
  using snapshot_current [OF arp_data_run arp_data_start(1-3)]
  by (simp add: about_to_write_def arp_memory)

end
