(* ===== verification/Yak_Main.thy ===== *)
theory Yak_Main
  imports Yak
begin

text \<open>
  \<open>yak\<close>'s \<open>main\<close> and its TAP thread as a whole: what the program holds when both threads run, and in
  which order the TAP thread serves the ports and where it waits.
\<close>

section \<open>The ports\<close>

definition port_resources :: "port_t \<Rightarrow> resource multiset" where
  "port_resources P =
     {#Block, Pool (mp P), Device (unat (ucast (dpdk_pid P) :: u8)), Fd (hostif_fd P), Ring (from_hostif P)#}"

lemma alloc_ports_result:
  "snd (alloc_ports K T A is) = Inr ports \<Longrightarrow>
   map dpdk_pid ports = map of_nat is \<and> list_all (\<lambda>P. 0 \<le> hostif_fd P) ports \<and>
   resources (fst (alloc_ports K T A is)) R = R + sum_mset (image_mset port_resources (mset ports))"
proof (induction "is" arbitrary: ports R)
  case (Cons i "is")
  from Cons.prems obtain P ps where
    P: "snd (port_alloc K T (A i) (of_nat i) 1 1 (''ge-0-0-'' @ fmt_u i)) = Inr P"
    and ps: "snd (alloc_ports K T A is) = Inr ps" and e: "ports = P # ps"
    by (auto elim!: snd_io_bind_InrE)
  note r = resources_port_alloc [OF P] and IH = Cons.IH [OF ps]
  have "resources (fst (alloc_ports K T A (i # is))) R =
      R + port_resources P + sum_mset (image_mset port_resources (mset ps))"
    using P ps r(1) [of R] r(2) IH by (simp add: resources_append port_resources_def [of P])
  then show ?case using IH r by (simp add: e ac_simps)
qed simp

section \<open>The order of the ports\<close>

text \<open>The descriptors a list of calls reads from, in order.\<close>

fun read_fds :: "call list \<Rightarrow> int list" where
  "read_fds [] = []"
| "read_fds (Read_fd fd n # cs) = fd # read_fds cs"
| "read_fds (c # cs) = read_fds cs"

lemma read_fds_append [simp]: "read_fds (xs @ ys) = read_fds xs @ read_fds ys"
  by (induction xs rule: read_fds.induct) simp_all

text \<open>
  A frame has arrived: the pool gives a buffer that is set up, \<open>rte_pktmbuf_headroom\<close> is the offset of its
  data, and \<open>read\<close> stores no more than it was asked for.
\<close>

definition arrived :: "(rte_mbuf \<Rightarrow> u16) \<Rightarrow> tap_answers \<Rightarrow> bool" where
  "arrived hr A \<longleftrightarrow> read_ok hr A \<and> 0 \<le> ta_len A \<and>
     (case ta_alloc A of None \<Rightarrow> False | Some (m, s) \<Rightarrow> fresh_seg s \<and> hr (desc s) = data_off (desc s))"

abbreviation fd_of :: "port_t \<times> (tap_answers \<times> int) list \<Rightarrow> int" where
  "fd_of e \<equiv> hostif_fd (fst e)"

definition good_arrivals :: "(rte_mbuf \<Rightarrow> u16) \<Rightarrow> (port_t \<Rightarrow> (nat \<times> seg) option) \<Rightarrow> arrivals \<Rightarrow> bool" where
  "good_arrivals hr spare Q \<longleftrightarrow> list_all (\<lambda>(P, As). list_all (\<lambda>(A, enq). arrived hr A) As \<and> spare P \<noteq> None) Q"

lemma arrived_round:
  assumes "arrived hr A"
  shows "\<exists>st'. snd (tap_port hr A enq P st) = Inr st'" and "read_fds (fst (tap_port hr A enq P st)) = [hostif_fd P]"
proof -
  from assms obtain m s where a: "ta_alloc A = Some (m, s)" "fresh_seg s" "hr (desc s) = data_off (desc s)" "read_ok hr A" "0 \<le> ta_len A"
    by (auto simp: arrived_def split: option.splits)
  from tap_recv_result [OF this, of "hostif_fd P" st] obtain s' n where
    "tap_recv hr A (hostif_fd P) st = ([Alloc (Some m), Read_fd (hostif_fd P) n], Inr (m, st(m := s')))" by blast
  then show "\<exists>st'. snd (tap_port hr A enq P st) = Inr st'" and "read_fds (fst (tap_port hr A enq P st)) = [hostif_fd P]"
    by (simp_all add: tap_port_def)
qed

text \<open>A pass in which there is a frame for every port, and one in which there is none for some port.\<close>

lemma tap_ports_pass:
  "good_arrivals hr spare Q \<Longrightarrow> list_all (\<lambda>e. snd e \<noteq> []) Q \<Longrightarrow>
   \<exists>st'. snd (tap_ports hr spare Q st) = Inr (Inr (map (\<lambda>(P, As). (P, tl As)) Q, st')) \<and>
     read_fds (fst (tap_ports hr spare Q st)) = map fd_of Q"
proof (induction hr spare Q st rule: tap_ports.induct)
  case (3 hr spare P A enq As Q st)
  then have "arrived hr A" and g: "good_arrivals hr spare Q" "list_all (\<lambda>e. snd e \<noteq> []) Q" by (auto simp: good_arrivals_def)
  note r = arrived_round [OF this(1), of enq P st]
  from r(1) obtain st1 where 1: "snd (tap_port hr A enq P st) = Inr st1" by blast
  from "3.IH" [OF g, of st1] obtain st' where
    "snd (tap_ports hr spare Q st1) = Inr (Inr (map (\<lambda>(P, As). (P, tl As)) Q, st'))"
    "read_fds (fst (tap_ports hr spare Q st1)) = map fd_of Q" by blast
  with 1 r(2) show ?case by simp
qed simp_all

lemma tap_ports_waits:
  "good_arrivals hr spare Q \<Longrightarrow> i < length Q \<Longrightarrow> snd (Q ! i) = [] \<Longrightarrow> \<forall>j<i. snd (Q ! j) \<noteq> [] \<Longrightarrow>
   snd (tap_ports hr spare Q st) = Inr (Inl (fst (Q ! i))) \<and> read_fds (fst (tap_ports hr spare Q st)) = map fd_of (take i Q)"
proof (induction hr spare Q st arbitrary: i rule: tap_ports.induct)
  case (2 hr spare P Q st)
  then show ?case by (cases i) (auto simp: good_arrivals_def tap_wait_def)
next
  case (3 hr spare P A enq As Q st)
  then obtain k where i: "i = Suc k" by (cases i) auto
  have "arrived hr A" and g: "good_arrivals hr spare Q" "k < length Q" "snd (Q ! k) = []" "\<forall>j<k. snd (Q ! j) \<noteq> []"
    using "3.prems" by (auto simp: good_arrivals_def i)
  note r = arrived_round [OF this(1), of enq P st]
  from r(1) obtain st1 where 1: "snd (tap_port hr A enq P st) = Inr st1" by blast
  with r(2) "3.IH" [OF g, of st1] show ?case by (simp add: i)
qed simp

lemma tap_rounds_waits:
  assumes "good_arrivals hr spare Q" and "i < length Q" and "length (snd (Q ! i)) = k"
    and "\<forall>j<length Q. k \<le> length (snd (Q ! j))" and "\<forall>j<i. k < length (snd (Q ! j))"
  shows "(k < n \<longrightarrow> snd (tap_rounds hr spare n Q st) = Inr (Inl (fst (Q ! i)))) \<and>
    read_fds (fst (tap_rounds hr spare n Q st)) =
      concat (replicate (min n k) (map fd_of Q)) @ (if k < n then map fd_of (take i Q) else [])"
  using assms
proof (induction n arbitrary: Q k st)
  case (Suc n)
  show ?case
  proof (cases k)
    case 0
    with Suc.prems tap_ports_waits [of hr spare Q i st] show ?thesis by simp
  next
    case (Suc k')
    let ?Q = "map (\<lambda>(P, As). (P, tl As)) Q"
    have full: "list_all (\<lambda>e. snd e \<noteq> []) Q" using Suc.prems(4) Suc by (fastforce simp: list_all_length)
    from tap_ports_pass [OF Suc.prems(1) this, of st] obtain st1 where
      1: "snd (tap_ports hr spare Q st) = Inr (Inr (?Q, st1))" "read_fds (fst (tap_ports hr spare Q st)) = map fd_of Q" by blast
    have "list_all (\<lambda>(A, enq). arrived hr A) (tl As)" if "list_all (\<lambda>(A, enq). arrived hr A) As" for As
      using that by (cases As) auto
    then have g: "good_arrivals hr spare ?Q"
      using Suc.prems(1) by (auto simp: good_arrivals_def list_all_iff split_beta)
    have nth: "length (snd (?Q ! j)) = length (snd (Q ! j)) - 1" "fst (?Q ! j) = fst (Q ! j)" if "j < length Q" for j
      using that by (simp_all add: split_beta)
    have fds: "map fd_of (take j ?Q) = map fd_of (take j Q)" for j by (simp add: take_map split_beta)
    have all: "map fd_of ?Q = map fd_of Q" by (simp add: split_beta)
    have "(k' < n \<longrightarrow> snd (tap_rounds hr spare n ?Q st1) = Inr (Inl (fst (?Q ! i)))) \<and>
      read_fds (fst (tap_rounds hr spare n ?Q st1)) =
        concat (replicate (min n k') (map fd_of ?Q)) @ (if k' < n then map fd_of (take i ?Q) else [])"
      using Suc.prems(2-5) Suc nth by (intro Suc.IH [OF g]) (auto simp: less_diff_conv)
    with 1 Suc nth(2) [OF Suc.prems(2)] show ?thesis unfolding fds all by simp
  qed
qed simp

section \<open>Properties\<close>

text \<open>
  C28: when both threads run, \<open>yak\<close> holds exactly one block of memory, one pool, one started device, one
  descriptor and one ring for each port, in the order of the port numbers, and it never gives any of them
  back.
\<close>

theorem yak_main_resources:
  assumes "snd (yak_main K T eal nb_ports A fwd_thread tap_thread) = Inr ports"
  shows "map dpdk_pid ports = map of_nat [0..<nb_ports] \<and> list_all (\<lambda>P. 0 \<le> hostif_fd P) ports \<and>
    resources (fst (yak_main K T eal nb_ports A fwd_thread tap_thread)) {#} =
      sum_mset (image_mset port_resources (mset ports))"
proof -
  from assms have "snd (alloc_ports K T A [0..<nb_ports]) = Inr ports"
    and "fst (yak_main K T eal nb_ports A fwd_thread tap_thread) = fst (alloc_ports K T A [0..<nb_ports])"
    by (auto simp: yak_main_def split: if_splits elim!: snd_io_bind_InrE)
  then show ?thesis using alloc_ports_result by fastforce
qed

text \<open>
  C37: the TAP thread serves the ports in lockstep, so that an idle port holds up the others. If the port
  where the fewest frames will arrive, the first of them in the table, is number \<open>i\<close> and gets \<open>k\<close> frames,
  then the thread waits for ever at this port in its pass number \<open>k + 1\<close>: it has read \<open>k\<close> frames from
  every port and one more from each port before it, however many are waiting at the others.
\<close>

theorem tap_main_lockstep:
  assumes "good_arrivals hr spare Q" and "i < length Q" and "length (snd (Q ! i)) = k"
    and "\<forall>j<length Q. k \<le> length (snd (Q ! j))" and "\<forall>j<i. k < length (snd (Q ! j))"
  shows "(k < n \<longrightarrow> snd (tap_main hr spare lcore n Q st) = Inr (Inl (fst (Q ! i)))) \<and>
    read_fds (fst (tap_main hr spare lcore n Q st)) =
      concat (replicate (min n k) (map fd_of Q)) @ (if k < n then map fd_of (take i Q) else [])"
  using tap_rounds_waits [OF assms, of n st] by (simp add: tap_main_def)

text \<open>Three frames at the first port and one at the second: two are read, the third never is.\<close>

definition two_ports :: "port_t list" where
  "two_ports = map (\<lambda>i. \<lparr>hostif_fd = 5 + int i, dpdk_pid = of_nat i, nrxq = 1, ntxq = 1, hostif_addr = 0,
     hwaddr = [1, 2, 3, 4, 5, 6], from_hostif = i, mp = i\<rparr>) [0, 1]"

definition one_frame :: "nat \<Rightarrow> tap_answers \<times> int" where
  "one_frame m = (\<lparr>ta_alloc = Some (m, sample_seg), ta_len = 1, ta_data = [1]\<rparr>, 0)"

definition uneven_arrivals :: arrivals where
  "uneven_arrivals = zip two_ports [[one_frame 7, one_frame 8, one_frame 9], [one_frame 10]]"

theorem tap_main_lockstep_witness:
  "snd (tap_main data_off (\<lambda>_. Some (11, sample_seg)) 1 100 uneven_arrivals (\<lambda>_. sample_seg)) = Inr (Inl (two_ports ! 1)) \<and>
   read_fds (fst (tap_main data_off (\<lambda>_. Some (11, sample_seg)) 1 100 uneven_arrivals (\<lambda>_. sample_seg))) = [5, 6, 5]"
proof -
  let ?hr = data_off let ?spare = "\<lambda>_ :: port_t. Some (11 :: nat, sample_seg)"
  have "arrived ?hr (fst (one_frame m))" for m
    by (simp add: arrived_def one_frame_def read_ok_def fresh_seg_def) (simp add: sample_seg_def data_at_def)
  then have g: "good_arrivals ?hr ?spare uneven_arrivals"
    by (simp add: good_arrivals_def uneven_arrivals_def two_ports_def split_beta)
  have "\<forall>j<length uneven_arrivals. 1 \<le> length (snd (uneven_arrivals ! j))" "\<forall>j<1. 1 < length (snd (uneven_arrivals ! j))"
    by (simp_all add: uneven_arrivals_def two_ports_def less_Suc_eq)
  from tap_main_lockstep [OF g _ _ this, of 100 1 "\<lambda>_. sample_seg"] show ?thesis
    by (simp add: uneven_arrivals_def two_ports_def)
qed

theorem yak_main_resources_witness:
  "resources (fst (yak_main some_consts linux_tun 0 1 (\<lambda>_. good_port) 0 0)) {#} =
     {#Block, Pool 1, Device 0, Fd 5, Ring 2#}"
proof -
  have g: "snd (port_alloc some_consts linux_tun good_port 0 1 1 n) =
      Inr \<lparr>hostif_fd = 5, dpdk_pid = 0, nrxq = 1, ntxq = 1, hostif_addr = 0, hwaddr = [1, 2, 3, 4, 5, 6], from_hostif = 2, mp = 1\<rparr>" for n
    by (simp add: port_alloc_def good_port_def port_configure_def checked_def tap_alloc_def Let_def)
  have "\<exists>ports. snd (yak_main some_consts linux_tun 0 1 (\<lambda>_. good_port) 0 0) = Inr ports \<and>
      ports = [\<lparr>hostif_fd = 5, dpdk_pid = 0, nrxq = 1, ntxq = 1, hostif_addr = 0, hwaddr = [1, 2, 3, 4, 5, 6], from_hostif = 2, mp = 1\<rparr>]"
    using g by (simp add: yak_main_def)
  then obtain ports where "snd (yak_main some_consts linux_tun 0 1 (\<lambda>_. good_port) 0 0) = Inr ports"
    and "ports = [\<lparr>hostif_fd = 5, dpdk_pid = 0, nrxq = 1, ntxq = 1, hostif_addr = 0, hwaddr = [1, 2, 3, 4, 5, 6], from_hostif = 2, mp = 1\<rparr>]"
    by blast
  with yak_main_resources [OF this(1)] show ?thesis by (simp add: port_resources_def)
qed

end
