(* ===== verification/Chained.thy ===== *)
theory Chained
  imports Port
begin

text \<open>
  \<open>chained_mbuf/dpdk.h\<close> and \<open>chained_mbuf/main.c\<close>: three buffers are filled, chained to one packet and
  sent. The answers of the DPDK functions are arguments.
\<close>

section \<open>The code: helpers\<close>

text \<open>\<open>ptr\<close> is the array a pointer leads to; \<open>rte_memcpy\<close> reads \<open>len\<close> bytes of it.\<close>

definition copy_in :: "seg \<Rightarrow> u8 list \<Rightarrow> nat \<Rightarrow> seg prog" where
  "copy_in s ptr len = (if length ptr < len then stop Read_OOB else write_data s (take len ptr))"

definition rte_pktmbuf_set :: "seg \<Rightarrow> u8 list \<Rightarrow> nat \<Rightarrow> seg prog" where
  "rte_pktmbuf_set m ptr len =
     (let m = m\<lparr>desc := (desc m)\<lparr>pkt_len := of_nat len\<rparr>\<rparr>;
          m = m\<lparr>desc := (desc m)\<lparr>data_len := of_nat len\<rparr>\<rparr>
      in copy_in m ptr len)"

definition rte_pktmbuf_alloc_set :: "(nat \<times> seg) option \<Rightarrow> u8 list \<Rightarrow> nat \<Rightarrow> (nat \<times> seg) prog" where
  "rte_pktmbuf_alloc_set alloc ptr len =
     io_bind (call (Alloc (map_option fst alloc))) (\<lambda>_.
     case alloc of
       None \<Rightarrow> stop Null_Deref
     | Some (p, m) \<Rightarrow>
         let m = m\<lparr>desc := (desc m)\<lparr>pkt_len := of_nat len\<rparr>\<rparr>;
             m = m\<lparr>desc := (desc m)\<lparr>data_len := of_nat len\<rparr>\<rparr>
         in io_bind (copy_in m ptr len) (\<lambda>m. ret (p, m)))"

definition rte_eth_dev_configure_easy ::
    "dpdk_consts \<Rightarrow> dev_answers \<Rightarrow> u8 \<Rightarrow> nat \<Rightarrow> nat \<Rightarrow> eth_conf \<Rightarrow> nat \<Rightarrow> unit prog" where
  "rte_eth_dev_configure_easy K A port nb_rxq nb_txq port_conf mpool =
     (let rx_ring_size = 128; tx_ring_size = 512 in
      io_seq (checked (Dev_configure port nb_rxq nb_txq port_conf (da_configure A)) (da_configure A)
        ''rte_eth_dev_configure'')
      (io_seq (io_each (\<lambda>q.
          checked (Rxq_setup port q rx_ring_size mpool (da_rxq A q)) (da_rxq A q) ''rte_eth_rx_queue_setup'')
        [0..<nb_rxq])
      (io_seq (io_each (\<lambda>q.
          let txq_flags = 0 AND NOT (ETH_TXQ_FLAGS_NOMULTSEGS K) in
          checked (Txq_setup port q tx_ring_size txq_flags (da_txq A q)) (da_txq A q) ''rte_eth_tx_queue_setup'')
        [0..<nb_txq])
      (io_seq (checked (Dev_start port (da_start A)) (da_start A) ''rte_eth_dev_start'')
        (setup_call (Promiscuous_enable port))))))"

section \<open>The code: the program\<close>

record chain_answers =
  ca_eal :: int
  ca_pool :: "nat option"
  ca_dev :: dev_answers
  ca_alloc :: "nat \<Rightarrow> (nat \<times> seg) option"
  ca_linearize :: int
  ca_pkt_len :: u32
  ca_ntx :: u16

text \<open>\<open>ca_pkt_len\<close> is the packet length the head has after the library chained and linearised it.\<close>

definition chained_main :: "dpdk_consts \<Rightarrow> chain_answers \<Rightarrow> int prog" where
  "chained_main K A =
     (if ca_eal A < 0 then rte_exit ''Invalid EAL parameters''
      else io_bind (setup_call (Pool_create ''mp'' 8192 0 (RTE_MBUF_DEFAULT_BUF_SIZE (RTE_PKTMBUF_HEADROOM K)) (ca_pool A))) (\<lambda>_.
      case ca_pool A of
        None \<Rightarrow> rte_exit ''Invalid MP parameters''
      | Some mpool \<Rightarrow>
          let port_conf = \<lparr>rx_mq_mode = ETH_MQ_RX_NONE K, max_rx_pkt_len = ETHER_MAX_LEN K,
                header_split = False, jumbo_frame = True, enable_scatter = True,
                ignore_offload_bitfield = False, tx_mq_mode = ETH_MQ_TX_NONE K\<rparr> in
          io_bind (rte_eth_dev_configure_easy K (ca_dev A) 0 1 1 port_conf mpool) (\<lambda>_.
          let buf0 = replicate 1000 0x11; buf1 = replicate 1000 0x22; buf2 = replicate 1000 0x33 in
          io_bind (rte_pktmbuf_alloc_set (ca_alloc A 0) buf0 1000) (\<lambda>(m0, s0).
          io_bind (rte_pktmbuf_alloc_set (ca_alloc A 1) buf1 1000) (\<lambda>(m1, s1).
          io_bind (rte_pktmbuf_alloc_set (ca_alloc A 2) buf2 1000) (\<lambda>(m2, s2).
          io_bind (call (Chain m0 m1)) (\<lambda>_.
          io_bind (call (Chain m0 m2)) (\<lambda>_.
          io_bind (call (Linearize m0 (ca_linearize A))) (\<lambda>_.
          io_bind (call (Dump m0 (ca_pkt_len A))) (\<lambda>_.
          io_bind (call (Tx 0 m0 (ca_ntx A))) (\<lambda>_.
          if ca_ntx A \<noteq> 1 then rte_exit ''tx_burst''
          else
            io_bind (call (Free m0)) (\<lambda>_.
            io_bind (call (Free m1)) (\<lambda>_.
            io_bind (setup_call (Pool_free mpool)) (\<lambda>_. ret 0))))))))))))))"

section \<open>Ownership\<close>

lemma alloc_set_returns:
  "snd (rte_pktmbuf_alloc_set a ptr len) = Inr (p, s) \<Longrightarrow> fst (rte_pktmbuf_alloc_set a ptr len) = [Alloc (Some p)]"
  by (auto simp: rte_pktmbuf_alloc_set_def copy_in_def Let_def write_data_def split: option.splits if_splits)

text \<open>Setting a program up concerns no buffer.\<close>

lemma held_run_setup: "held_run (map (Setup \<circ> f) xs) H = Some H"
  by (induction xs) simp_all

lemma keeps_plan: "keeps (run_plan cs) H H"
  by (induction cs rule: run_plan.induct) (auto intro!: keeps_ret keeps_step [where ?H1.0 = H] keeps_exit)

lemma dpdk_configure_plan:
  "rte_eth_dev_configure_easy K A port nb_rxq nb_txq conf mpool = run_plan (configure_plan A port nb_rxq nb_txq conf mpool)"
  by (simp only: rte_eth_dev_configure_easy_def port_configure_def [symmetric] configure_is_plan)

section \<open>Properties\<close>

text \<open>
  The two programs' helpers do the same: \<open>rte_eth_dev_configure_easy\<close> makes the calls of \<open>yak\<close>'s
  \<open>port_configure\<close>, those of the configuration plan, and \<open>rte_pktmbuf_alloc_set\<close> is the allocation
  followed by \<open>rte_pktmbuf_set\<close>.
\<close>

theorem dpdk_helpers_equivalent:
  "rte_eth_dev_configure_easy K A port nb_rxq nb_txq conf mpool = run_plan (configure_plan A port nb_rxq nb_txq conf mpool) \<and>
   rte_eth_dev_configure_easy K A port nb_rxq nb_txq conf mpool = port_configure K A port nb_rxq nb_txq conf mpool \<and>
   rte_pktmbuf_alloc_set (Some (p, m)) ptr len =
     io_bind (call (Alloc (Some p))) (\<lambda>_. io_bind (rte_pktmbuf_set m ptr len) (\<lambda>m. ret (p, m)))"
  by (simp add: dpdk_configure_plan configure_is_plan rte_pktmbuf_alloc_set_def rte_pktmbuf_set_def Let_def)

lemma run_plan_result:
  "run_plan cs = (let ok = takeWhile (\<lambda>(c, a, msg). 0 \<le> a) cs in
     case dropWhile (\<lambda>(c, a, msg). 0 \<le> a) cs of
       [] \<Rightarrow> (map (Setup \<circ> fst) ok, Inr ())
     | (c, a, msg) # rest \<Rightarrow> (map (Setup \<circ> fst) ok @ [Setup c, Exit_msg (msg @ [CHR 0x0A])], Inl (Exit 1)))"
proof -
  let ?ok = "takeWhile (\<lambda>(c, a, msg). 0 \<le> a) cs" and ?rest = "dropWhile (\<lambda>(c, a, msg). 0 \<le> a) cs"
  have cs: "cs = ?ok @ ?rest" by simp
  have ok: "list_all (\<lambda>(c, a, msg). 0 \<le> a) ?ok" by (auto simp: list_all_iff dest: set_takeWhileD)
  show ?thesis
  proof (cases ?rest)
    case Nil
    have e: "?ok = cs" using cs unfolding Nil append_Nil2 by (rule sym)
    show ?thesis using run_plan_ok [OF ok] unfolding Let_def Nil e by simp
  next
    case (Cons x xs)
    obtain c a msg where x: "x = (c, a, msg)" by (cases x)
    then have "a < 0" using hd_dropWhile [of "\<lambda>(c, a, msg). 0 \<le> a" cs] Cons by (auto simp: not_le)
    then show ?thesis using run_plan_fails [OF ok, of a c msg xs] cs Cons x by (simp add: Let_def)
  qed
qed

text \<open>
  C36: both configuration routines set the device up by the same calls: the device, every receive and
  every transmit queue in order, the start, the promiscuous mode. They return when no call is answered
  with a negative number; otherwise the first such call is the last one made, and the process ends with
  its message and status 1.
\<close>

theorem configure_stops_at_failure:
  "length (configure_plan A port nb_rxq nb_txq conf mpool) = nb_rxq + nb_txq + 3 \<and>
   port_configure K A port nb_rxq nb_txq conf mpool = rte_eth_dev_configure_easy K A port nb_rxq nb_txq conf mpool \<and>
   port_configure K A port nb_rxq nb_txq conf mpool =
     (let plan = configure_plan A port nb_rxq nb_txq conf mpool; ok = takeWhile (\<lambda>(c, a, msg). 0 \<le> a) plan in
      case dropWhile (\<lambda>(c, a, msg). 0 \<le> a) plan of
        [] \<Rightarrow> (map (Setup \<circ> fst) ok, Inr ())
      | (c, a, msg) # rest \<Rightarrow> (map (Setup \<circ> fst) ok @ [Setup c, Exit_msg (msg @ [CHR 0x0A])], Inl (Exit 1)))"
  unfolding Let_def
  by (intro conjI; (simp only: dpdk_configure_plan configure_is_plan)?; (rule run_plan_result [unfolded Let_def])?)
    (simp add: configure_plan_def)

text \<open>
  \<open>rte_pktmbuf_set\<close> stores the bytes and both lengths when the data room has the space for them, and
  writes past it otherwise; the segment length is cut to 16 bits.
\<close>

theorem pktmbuf_set_result:
  assumes "len \<le> length ptr" and "len < 2 ^ 32"
  shows "if data_at m + len \<le> length (room m)
    then \<exists>m'. rte_pktmbuf_set m ptr len = ret m' \<and> unat (pkt_len (desc m')) = len \<and>
      unat (data_len (desc m')) = len mod 2 ^ 16 \<and> take len (drop (data_at m) (room m')) = take len ptr \<and>
      take (data_at m) (room m') = take (data_at m) (room m) \<and>
      drop (data_at m + len) (room m') = drop (data_at m + len) (room m)
    else rte_pktmbuf_set m ptr len = stop Write_OOB"
proof -
  have l: "length (take len ptr) = len" using assms(1) by simp
  show ?thesis
    using assms l by (auto simp: rte_pktmbuf_set_def copy_in_def write_data_def data_at_def Let_def unsigned_of_nat take_bit_eq_mod)
qed

theorem pktmbuf_set_result_witness:
  "rte_pktmbuf_set sample_seg [1, 2, 3, 4, 5, 6, 7] 7 = stop Write_OOB"
  using pktmbuf_set_result [of 7 "[1, 2, 3, 4, 5, 6, 7]" sample_seg] by (simp add: sample_seg_def data_at_def)

text \<open>
  C32: whenever the program returns it has misused its buffers: the driver took the packet, and the
  program frees it all the same.
\<close>

theorem chained_main_double_free:
  assumes "snd (chained_main K A) = Inr r"
  shows "r = 0 \<and> held_run (fst (chained_main K A)) {} = None"
proof -
  let ?conf = "\<lparr>rx_mq_mode = ETH_MQ_RX_NONE K, max_rx_pkt_len = ETHER_MAX_LEN K, header_split = False,
    jumbo_frame = True, enable_scatter = True, ignore_offload_bitfield = False, tx_mq_mode = ETH_MQ_TX_NONE K\<rparr>"
  from assms obtain mpool p0 s0 p1 s1 p2 s2 where e: "0 \<le> ca_eal A" "ca_pool A = Some mpool" "ca_ntx A = 1" "r = 0"
    and c: "snd (rte_eth_dev_configure_easy K (ca_dev A) 0 1 1 ?conf mpool) = Inr ()"
    and a: "snd (rte_pktmbuf_alloc_set (ca_alloc A 0) (replicate 1000 0x11) 1000) = Inr (p0, s0)"
      "snd (rte_pktmbuf_alloc_set (ca_alloc A 1) (replicate 1000 0x22) 1000) = Inr (p1, s1)"
      "snd (rte_pktmbuf_alloc_set (ca_alloc A 2) (replicate 1000 0x33) 1000) = Inr (p2, s2)"
    unfolding chained_main_def Let_def
    by (auto split: if_splits option.splits elim!: snd_io_bind_InrE)
  have "held_run (fst (rte_eth_dev_configure_easy K (ca_dev A) 0 1 1 ?conf mpool)) H = Some H" for H
    using keeps_plan [of "configure_plan (ca_dev A) 0 1 1 ?conf mpool" H] c
    by (simp add: keeps_def dpdk_configure_plan)
  then show ?thesis
    using e c a alloc_set_returns [OF a(1)] alloc_set_returns [OF a(2)] alloc_set_returns [OF a(3)]
    by (simp add: chained_main_def Let_def held_run_append)
qed

text \<open>A run on three buffers in which everything succeeds.\<close>

definition chain_seg :: seg where
  "chain_seg = sample_seg\<lparr>room := replicate 2048 0\<rparr>"

definition chain_run :: chain_answers where
  "chain_run = \<lparr>ca_eal = 0, ca_pool = Some 1, ca_dev = pa_dev good_port, ca_alloc = (\<lambda>i. Some (i, chain_seg)),
     ca_linearize = - 1, ca_pkt_len = 3000, ca_ntx = 1\<rparr>"

theorem chained_main_double_free_witness:
  "held_run (fst (chained_main some_consts chain_run)) {} = None"
proof -
  have "\<exists>s. snd (rte_pktmbuf_alloc_set (Some (i, chain_seg)) (replicate 1000 b) 1000) = Inr (i, s)" for i b
    by (simp add: rte_pktmbuf_alloc_set_def copy_in_def write_data_def chain_seg_def sample_seg_def data_at_def Let_def)
  then obtain f where f: "snd (rte_pktmbuf_alloc_set (Some (i, chain_seg)) (replicate 1000 b) 1000) = Inr (i, f i b)" for i b
    by metis
  have "snd (chained_main some_consts chain_run) = Inr 0"
    by (simp add: chained_main_def chain_run_def rte_eth_dev_configure_easy_def checked_def good_port_def Let_def f)
  from chained_main_double_free [OF this] show ?thesis by blast
qed

end
