(* ===== verification/Reassembly.thy ===== *)
theory Reassembly
  imports Port
begin

text \<open>
  \<open>ip_reassembly/pcapw.h\<close> and \<open>ip_reassembly/main.c\<close>: packets of a capture file are copied into
  buffers and handed to the IPv4 reassembly. The capture, the reassembly and the clock are the
  environment's.
\<close>

section \<open>The code\<close>

text \<open>
  The answers of one \<open>recvpkt\<close>: what \<open>pcap_next\<close> gives, the length in the packet's header and the
  captured bytes, or NULL, when the header keeps what the stack held; the buffer; the result of the
  reassembly.
\<close>

record recv_answers =
  ra_next :: "(u32 \<times> u8 list) option"
  ra_junk :: u32
  ra_alloc :: "(nat \<times> seg) option"
  ra_mo :: "nat option"

definition pcapw_recv :: "recv_answers \<Rightarrow> (u64 \<times> u8 list option) prog" where
  "pcapw_recv A =
     io_bind (call Pcap_next) (\<lambda>_.
       case ra_next A of
         None \<Rightarrow> ret (ucast (ra_junk A), None)
       | Some (len, bs) \<Rightarrow> ret (ucast len, Some bs))"

definition memcpy_in :: "seg \<Rightarrow> u8 list option \<Rightarrow> nat \<Rightarrow> seg prog" where
  "memcpy_in s ptr len =
     (case ptr of
        None \<Rightarrow> if len = 0 then ret s else stop Null_Deref
      | Some bs \<Rightarrow> if length bs < len then stop Read_OOB else write_data s (take len bs))"

definition recvpkt :: "(u8 list \<Rightarrow> bool) \<Rightarrow> recv_answers \<Rightarrow> (nat \<times> seg) prog" where
  "recvpkt rte_ipv4_frag_pkt_is_fragmented A =
     io_bind (pcapw_recv A) (\<lambda>(len, ptr).
     io_bind (call (Alloc (map_option fst (ra_alloc A)))) (\<lambda>_.
     case ra_alloc A of
       None \<Rightarrow> stop Null_Deref
     | Some (m, s) \<Rightarrow>
         io_bind (memcpy_in s ptr (unat len)) (\<lambda>s.
         let s = set_lens (ucast len) (ucast len) s in
         io_bind (load16 (room s) (data_at s + 12)) (\<lambda>ether_type.
         if ether_type = htons 0x0800 then
           let ip_hdr = drop (data_at s + 14) (room s) in
           if rte_ipv4_frag_pkt_is_fragmented ip_hdr then
             let s = s\<lparr>desc := set_l3_len 20 (set_l2_len 14 (desc s))\<rparr> in
             io_bind (call (Reassemble m (ra_mo A))) (\<lambda>_.
             case ra_mo A of
               None \<Rightarrow> ret (m, s)
             | Some mo \<Rightarrow>
                 io_bind (call (Out Std_out (''reassembled'' @ [CHR 0x0A]))) (\<lambda>_.
                 io_bind (call (Dump mo 0)) (\<lambda>_. ret (m, s))))
           else ret (m, s)
         else ret (m, s)))))"

definition max_flow_ttl :: "u32 \<Rightarrow> u32" where
  "max_flow_ttl MS_PER_S = 3600 * MS_PER_S"

text \<open>\<open>MS_PER_S\<close> is a constant of DPDK, the number of milliseconds in a second.\<close>

definition frag_cycles :: "u64 \<Rightarrow> u32 \<Rightarrow> u64" where
  "frag_cycles hz MS_PER_S = (hz + ucast MS_PER_S - 1) div ucast MS_PER_S * ucast (max_flow_ttl MS_PER_S)"

definition pcapw_open_offline :: "string \<Rightarrow> bool \<Rightarrow> string \<Rightarrow> unit prog" where
  "pcapw_open_offline filepath handle errbuf =
     io_bind (setup_call (Pcap_open filepath handle)) (\<lambda>_.
       if \<not> handle then io_bind (call (Out Std_err (''pcap_open_offline: '' @ errbuf))) (\<lambda>_. stop (Exit 1))
       else ret ())"

definition pcapw_close :: "unit prog" where
  "pcapw_close = setup_call Pcap_close"

record reasm_answers =
  rm_eal :: int
  rm_pool :: "nat option"
  rm_hz :: u64
  rm_tbl :: "nat option"
  rm_open :: bool
  rm_errbuf :: string
  rm_recv :: "nat \<Rightarrow> recv_answers"

definition reasm_main :: "dpdk_consts \<Rightarrow> u32 \<Rightarrow> (u8 list \<Rightarrow> bool) \<Rightarrow> reasm_answers \<Rightarrow> int prog" where
  "reasm_main K MS_PER_S fragmented A =
     (if rm_eal A < 0 then rte_exit ''Invalid EAL parameters''
      else io_bind (setup_call (Pool_create ''mp'' 8192 0 (RTE_MBUF_DEFAULT_BUF_SIZE (RTE_PKTMBUF_HEADROOM K)) (rm_pool A))) (\<lambda>_.
      case rm_pool A of
        None \<Rightarrow> rte_exit ''Invalid MP parameters''
      | Some mpool \<Rightarrow>
          let max_flow_num = 0x1000; bucket_entries = 16 in
          io_bind (setup_call (Frag_table_create max_flow_num bucket_entries max_flow_num
            (frag_cycles (rm_hz A) MS_PER_S) (rm_tbl A))) (\<lambda>_.
          case rm_tbl A of
            None \<Rightarrow> rte_exit ''rte_ip_frag_table_create''
          | Some tbl \<Rightarrow>
              io_bind (pcapw_open_offline ''in.pcap'' (rm_open A) (rm_errbuf A)) (\<lambda>_.
              io_bind (io_each (\<lambda>i. io_bind (recvpkt fragmented (rm_recv A i)) (\<lambda>_. ret ())) [0..<7]) (\<lambda>_.
              io_bind (setup_call (Frag_table_destroy tbl)) (\<lambda>_.
              io_bind (setup_call (Pool_free mpool)) (\<lambda>_.
              io_bind pcapw_close (\<lambda>_. ret 0))))))))"


section \<open>One packet\<close>

text \<open>
  What of the buffers is left with \<open>recvpkt\<close> when it returns: the reassembled packet, nothing when the
  fragment is waiting in the table, the buffer itself when it was no fragment.
\<close>

definition is_fragment :: "(u8 list \<Rightarrow> bool) \<Rightarrow> seg \<Rightarrow> bool" where
  "is_fragment fragmented s \<longleftrightarrow>
     take 2 (drop (data_at s + 12) (room s)) = [0x08, 0x00] \<and> fragmented (drop (data_at s + 14) (room s))"

lemma fst_memcpy_in [simp]: "fst (memcpy_in s ptr len) = []"
  by (simp add: memcpy_in_def split: option.splits)

lemma memcpy_in_cases:
  "memcpy_in s (Some bs) len =
     (if length bs < len then stop Read_OOB else if length (room s) < data_at s + len then stop Write_OOB
      else ret (s\<lparr>room := take (data_at s) (room s) @ take len bs @ drop (data_at s + len) (room s)\<rparr>))"
  by (simp add: memcpy_in_def write_data_def min_def)


lemma frag_ether_type: "(of_nat (le_nat [a, b]) :: u16) = htons 0x0800 \<longleftrightarrow> [a, b] = [0x08, 0x00]"
proof -
  have "htons 0x0800 = of_nat (le_nat [0x08, 0x00])" by (simp add: htons_def)
  then show ?thesis using le_nat_word_inject [of "[a, b]" "[0x08, 0x00]", where 'a = 16] by simp
qed

definition hand_over :: "recv_answers \<Rightarrow> nat \<Rightarrow> call list" where
  "hand_over A m = Reassemble m (ra_mo A) #
     (case ra_mo A of None \<Rightarrow> [] | Some mo \<Rightarrow> [Out Std_out (''reassembled'' @ [CHR 0x0A]), Dump mo 0])"

text \<open>\<open>recvpkt\<close> behind the copy.\<close>

definition filled :: "(u8 list \<Rightarrow> bool) \<Rightarrow> seg \<Rightarrow> u64 \<Rightarrow> seg" where
  "filled fragmented s len =
     (let s = set_lens (ucast len) (ucast len) s in
      if is_fragment fragmented s then s\<lparr>desc := set_l3_len 20 (set_l2_len 14 (desc s))\<rparr> else s)"

lemma is_fragment_filled: "is_fragment fragmented (filled fragmented s len) = is_fragment fragmented s"
  and room_filled [simp]: "room (filled fragmented s len) = room s" "data_at (filled fragmented s len) = data_at s"
  by (simp_all add: filled_def Let_def is_fragment_def data_at_def set_lens_def set_l2_len_def set_l3_len_def)

lemma filled_lens:
  "pkt_len (desc (filled fragmented s (ucast len))) = len"
  "data_len (desc (filled fragmented s (ucast len))) = ucast len"
  "is_fragment fragmented s \<Longrightarrow> l2_len (desc (filled fragmented s (ucast len))) = 14"
  "is_fragment fragmented s \<Longrightarrow> l3_len (desc (filled fragmented s (ucast len))) = 20"
proof -
  have "(ucast (ucast (len :: u32) :: u64) :: u32) = len" "(ucast (ucast len :: u64) :: u16) = ucast len"
    by (intro bit_eqI; auto simp: bit_simps)+
  then show "pkt_len (desc (filled fragmented s (ucast len))) = len"
    "data_len (desc (filled fragmented s (ucast len))) = ucast len"
    by (simp_all add: filled_def Let_def set_lens_def set_l2_len_def set_l3_len_def)
  show "l2_len (desc (filled fragmented s (ucast len))) = 14" "l3_len (desc (filled fragmented s (ucast len))) = 20"
    if "is_fragment fragmented s"
    using that is_fragment_filled [of fragmented s "ucast len"]
    by (simp_all add: filled_def Let_def is_fragment_def data_at_def set_lens_def set_l2_len_def set_l3_len_def l2_len_def
        l3_len_def bf_get_set_same bf_get_set_other)
qed

lemma recvpkt_run:
  assumes "ra_alloc A = Some (m, s)" and "snd (memcpy_in s ptr (unat len)) = Inr s1"
    and "pcapw_recv A = ([Pcap_next], Inr (len, ptr))" and "data_at s1 + 14 \<le> length (room s1)"
  shows "recvpkt fragmented A =
    ([Pcap_next, Alloc (Some m)] @ (if is_fragment fragmented s1 then hand_over A m else []),
     Inr (m, filled fragmented s1 len))"
proof -
  obtain a b where ab: "take 2 (drop (data_at s1 + 12) (room s1)) = [a, b]"
    using list2 [of "take 2 (drop (data_at s1 + 12) (room s1))"] assms(4) by auto
  have m1: "memcpy_in s ptr (unat len) = ret s1" using assms(2) by (simp add: ret_def prod_eq_iff)
  have "load16 (room s1) (data_at s1 + 12) = (ret (of_nat (le_nat [a, b])) :: u16 prog)"
    using assms(4) by (simp add: load16_def load_def ab del: le_nat.simps)
  then show ?thesis
    unfolding recvpkt_def assms(3)
    by (auto simp: io_bind_def call_def ret_def assms(1) m1 [unfolded ret_def] frag_ether_type ab is_fragment_def filled_def
        hand_over_def Let_def simp del: le_nat.simps split: option.splits)
qed


lemma recvpkt_returns:
  assumes "snd (recvpkt fragmented A) = Inr r"
  obtains m s s1 len where "ra_alloc A = Some (m, s)"
    and "recvpkt fragmented A =
      ([Pcap_next, Alloc (Some m)] @ (if is_fragment fragmented s1 then hand_over A m else []),
       Inr (m, filled fragmented s1 len))"
proof -
  obtain len ptr where p: "pcapw_recv A = ([Pcap_next], Inr (len, ptr))"
    by (cases "ra_next A") (auto simp: pcapw_recv_def io_bind_def call_def ret_def)
  from assms obtain m s s1 where a: "ra_alloc A = Some (m, s)" and c: "snd (memcpy_in s ptr (unat len)) = Inr s1"
    and l: "\<exists>v :: u16. snd (load16 (room s1) (data_at s1 + 12) :: u16 prog) = Inr v"
    unfolding recvpkt_def p
    by (auto simp: Let_def split: option.splits elim!: snd_io_bind_InrE)
  from l have "data_at s1 + 14 \<le> length (room s1)"
    by (auto simp: load16_def load_def split: if_splits)
  from that [OF a recvpkt_run [OF a c p this]] show thesis .
qed

section \<open>No buffer is freed\<close>

definition frees_nothing :: "'a prog \<Rightarrow> bool" where
  "frees_nothing m \<longleftrightarrow> (\<forall>q. Free q \<notin> set (fst m))"

lemma frees_nothing_bind: "frees_nothing m \<Longrightarrow> (\<And>a. frees_nothing (f a)) \<Longrightarrow> frees_nothing (io_bind m f)"
  by (auto simp: frees_nothing_def io_bind_def split: sum.splits)

lemma frees_nothing_basic:
  "frees_nothing (ret a)" "frees_nothing (stop e)" "frees_nothing (rte_exit msg)" "frees_nothing (memcpy_in s ptr len)"
  "frees_nothing (load16 b i)" "(\<forall>q. c \<noteq> Free q) \<Longrightarrow> frees_nothing (call c)"
  by (auto simp: frees_nothing_def)

lemma frees_nothing_each: "(\<And>x. frees_nothing (f x)) \<Longrightarrow> frees_nothing (io_each f xs)"
  by (induction xs) (auto intro: frees_nothing_basic frees_nothing_bind)

lemma frees_nothing_if: "frees_nothing m \<Longrightarrow> frees_nothing n \<Longrightarrow> frees_nothing (if b then m else n)"
  and frees_nothing_option:
    "frees_nothing m \<Longrightarrow> (\<And>x. frees_nothing (f x)) \<Longrightarrow> frees_nothing (case y of None \<Rightarrow> m | Some x \<Rightarrow> f x)"
  by (simp_all split: option.splits)

lemma frees_nothing_recvpkt: "frees_nothing (recvpkt fragmented A)"
  unfolding recvpkt_def pcapw_recv_def Let_def
  by (intro frees_nothing_bind frees_nothing_basic; auto intro!: frees_nothing_bind frees_nothing_basic split: option.splits prod.splits)

section \<open>What is left behind\<close>

text \<open>
  The buffers one \<open>recvpkt\<close> leaves with the program, and what the pool promises: a buffer that was not
  given back is not given out again.
\<close>

definition left_behind :: "(u8 list \<Rightarrow> bool) \<Rightarrow> recv_answers \<Rightarrow> nat set" where
  "left_behind fragmented A =
     (case snd (recvpkt fragmented A) of
        Inl e \<Rightarrow> {}
      | Inr (m, s) \<Rightarrow> if is_fragment fragmented s then set_option (ra_mo A) else {m})"

definition fresh_buffers :: "(u8 list \<Rightarrow> bool) \<Rightarrow> (nat \<Rightarrow> recv_answers) \<Rightarrow> nat \<Rightarrow> bool" where
  "fresh_buffers fragmented A n \<longleftrightarrow>
     list_all (\<lambda>i. list_all (\<lambda>j. set_option (map_option fst (ra_alloc (A i))) \<inter> left_behind fragmented (A j) = {}) [0..<i]) [0..<n]"

lemma recvpkt_held:
  assumes "snd (recvpkt fragmented A) = Inr r" and "set_option (map_option fst (ra_alloc A)) \<inter> H = {}"
  shows "held_run (fst (recvpkt fragmented A)) H = Some (H \<union> left_behind fragmented A)"
  by (rule recvpkt_returns [OF assms(1)])
    (use assms(2) in \<open>auto simp: left_behind_def is_fragment_filled hand_over_def split: option.splits\<close>)

lemma recvpkts_held:
  assumes "fresh_buffers fragmented A n"
    and "snd (io_each (\<lambda>i. io_bind (recvpkt fragmented (A i)) (\<lambda>_. ret ())) [0..<n]) = Inr ()"
  shows "held_run (fst (io_each (\<lambda>i. io_bind (recvpkt fragmented (A i)) (\<lambda>_. ret ())) [0..<n])) {} =
    Some (\<Union>i\<in>{..<n}. left_behind fragmented (A i))"
  using assms
proof (induction n)
  case (Suc n)
  let ?f = "\<lambda>i. io_bind (recvpkt fragmented (A i)) (\<lambda>_. ret ())" and ?H = "\<Union>i\<in>{..<n}. left_behind fragmented (A i)"
  have e: "io_each ?f [0..<Suc n] = io_seq (io_each ?f [0..<n]) (?f n)" by (simp add: io_each_append)
  from Suc.prems(2) obtain r where 1: "snd (io_each ?f [0..<n]) = Inr ()" and 2: "snd (recvpkt fragmented (A n)) = Inr r"
    unfolding e by (auto elim!: snd_io_bind_InrE)
  have f: "fresh_buffers fragmented A n" and d: "set_option (map_option fst (ra_alloc (A n))) \<inter> ?H = {}"
    using Suc.prems(1) by (auto simp: fresh_buffers_def list_all_iff)
  have "held_run (fst (recvpkt fragmented (A n))) ?H = Some (?H \<union> left_behind fragmented (A n))"
    by (rule recvpkt_held [OF 2 d])
  then show ?case
    using Suc.IH [OF f 1] 1 2 by (simp add: io_each_append held_run_append lessThan_Suc Un_commute)
qed simp

section \<open>Properties\<close>

text \<open>
  C30: a captured packet that its header does not overstate and that fits the buffer is copied into it
  and recorded with its length (the segment length cut to 16 bits); an IPv4 fragment is handed to the
  reassembly with its header lengths set. A packet whose header claims more bytes than were captured is
  read past its end, one longer than the buffer is written past the buffer's end.
\<close>

theorem recvpkt_result:
  assumes "ra_next A = Some (len, bs)" and "ra_alloc A = Some (m, s)"
    and "data_at s + 14 \<le> length (room s)"
  shows "if length bs < unat len then snd (recvpkt fragmented A) = Inl Read_OOB
    else if length (room s) < data_at s + unat len then snd (recvpkt fragmented A) = Inl Write_OOB
    else \<exists>s'. recvpkt fragmented A =
        ([Pcap_next, Alloc (Some m)] @ (if is_fragment fragmented s' then hand_over A m else []), Inr (m, s')) \<and>
      take (unat len) (drop (data_at s') (room s')) = take (unat len) bs \<and>
      pkt_len (desc s') = len \<and> data_len (desc s') = ucast len \<and>
      (is_fragment fragmented s' \<longrightarrow> l2_len (desc s') = 14 \<and> l3_len (desc s') = 20)"
proof -
  have p: "pcapw_recv A = ([Pcap_next], Inr (ucast len, Some bs))"
    using assms(1) by (simp add: pcapw_recv_def io_bind_def call_def ret_def)
  have u: "unat (ucast len :: u64) = unat len" by (rule unat_ucast_up) simp
  consider "length bs < unat len" | "\<not> length bs < unat len" "length (room s) < data_at s + unat len"
    | "unat len \<le> length bs" "data_at s + unat len \<le> length (room s)" by linarith
  then show ?thesis
  proof cases
    case 3
    define s1 where "s1 = s\<lparr>room := take (data_at s) (room s) @ take (unat len) bs @ drop (data_at s + unat len) (room s)\<rparr>"
    have s1: "data_at s1 = data_at s" "length (room s1) = length (room s)"
      "take (unat len) (drop (data_at s1) (room s1)) = take (unat len) bs"
      using 3 by (simp_all add: s1_def data_at_def)
    have c: "snd (memcpy_in s (Some bs) (unat (ucast len :: u64))) = Inr s1"
      unfolding u using 3 by (simp add: memcpy_in_cases s1_def)
    have f: "pkt_len (desc (filled fragmented s1 (ucast len))) = len"
      "data_len (desc (filled fragmented s1 (ucast len))) = ucast len"
      "is_fragment fragmented s1 \<Longrightarrow> l2_len (desc (filled fragmented s1 (ucast len))) = 14"
      "is_fragment fragmented s1 \<Longrightarrow> l3_len (desc (filled fragmented s1 (ucast len))) = 20"
      by (simp_all add: filled_lens)
    have "recvpkt fragmented A =
        ([Pcap_next, Alloc (Some m)] @ (if is_fragment fragmented s1 then hand_over A m else []),
         Inr (m, filled fragmented s1 (ucast len)))"
      using recvpkt_run [OF assms(2) c p, of fragmented] assms(3) s1 by simp
    with 3 s1 f show ?thesis
      by (auto simp: is_fragment_filled intro!: exI [of _ "filled fragmented s1 (ucast len)"])
  qed (simp_all add: recvpkt_def p assms(2) memcpy_in_cases u io_bind_def call_def stop_def)
qed


definition capture :: recv_answers where
  "capture = \<lparr>ra_next = Some (18, replicate 12 0 @ [0x08, 0x00, 0x45, 0, 0, 0]), ra_junk = 0,
     ra_alloc = Some (7, sample_seg\<lparr>room := replicate 2048 0\<rparr>), ra_mo = None\<rparr>"

theorem recvpkt_result_witness:
  "snd (recvpkt (\<lambda>_. True) (capture\<lparr>ra_next := Some (60, [1, 2, 3])\<rparr>)) = Inl Read_OOB"
  using recvpkt_result [of "capture\<lparr>ra_next := Some (60, [1, 2, 3])\<rparr>" 60 "[1, 2, 3]" 7 "sample_seg\<lparr>room := replicate 2048 0\<rparr>"]
  by (simp add: capture_def sample_seg_def data_at_def)

text \<open>
  \<open>recvpkt\<close> frees no buffer: when it returns, the packet that was not a fragment, or the one that
  was reassembled, is still held by the program, which keeps no pointer to it.
\<close>

theorem recvpkt_leaks:
  assumes "snd (recvpkt fragmented A) = Inr (m, s)"
  shows "held_run (fst (recvpkt fragmented A)) {} =
    Some (if is_fragment fragmented s then set_option (ra_mo A) else {m})"
  by (rule recvpkt_returns [OF assms])
    (use assms in \<open>auto simp: is_fragment_filled hand_over_def split: option.splits\<close>)

lemma replicate_2: "replicate 2 x = [x, x]"
  by (simp add: numeral_2_eq_2)

text \<open>The packets of \<open>capture\<close> in buffer after buffer; none of them is a fragment.\<close>

definition captures :: "nat \<Rightarrow> recv_answers" where
  "captures i = capture\<lparr>ra_alloc := Some (i, sample_seg\<lparr>room := replicate 2048 0\<rparr>)\<rparr>"

lemma captures_run: "\<exists>s. recvpkt (\<lambda>_. False) (captures i) = ([Pcap_next, Alloc (Some i)], Inr (i, s))"
proof -
  let ?s = "sample_seg\<lparr>room := replicate 2048 0\<rparr>" and ?p = "replicate 12 0 @ [0x08, 0x00, 0x45, 0, 0, (0 :: u8)]"
  have p: "pcapw_recv (captures i) = ([Pcap_next], Inr (18, Some ?p))"
    by (simp add: pcapw_recv_def captures_def capture_def io_bind_def call_def ret_def)
  have "memcpy_in ?s (Some ?p) (unat (18 :: u64)) = ret (?s\<lparr>room := [0, 0] @ ?p @ replicate 2028 0\<rparr>)"
    by (simp add: memcpy_in_cases sample_seg_def data_at_def replicate_2)
  then show ?thesis
    using recvpkt_run [OF _ _ p, of i ?s "?s\<lparr>room := [0, 0] @ ?p @ replicate 2028 0\<rparr>" "\<lambda>_. False"]
    by (auto simp: is_fragment_def captures_def sample_seg_def data_at_def)
qed

lemma captures_left: "left_behind (\<lambda>_. False) (captures i) = {i}"
  using captures_run [of i] by (auto simp: left_behind_def is_fragment_def)

theorem recvpkt_leaks_witness:
  "held_run (fst (recvpkt (\<lambda>_. False) (captures 7))) {} = Some {7}"
proof -
  obtain s where r: "recvpkt (\<lambda>_. False) (captures 7) = ([Pcap_next, Alloc (Some 7)], Inr (7, s))"
    using captures_run by blast
  then show ?thesis
    using recvpkt_leaks [of "\<lambda>_. False" "captures 7" 7 s] by (simp add: is_fragment_def)
qed

text \<open>
  C31: when the program ends normally it still holds every buffer it was ever left with: each of the seven
  packets that was no fragment and each packet the reassembly completed, at the moment it frees the pool
  they belong to.
\<close>

theorem reasm_main_leaks:
  assumes "snd (reasm_main K MS_PER_S fragmented A) = Inr r" and "fresh_buffers fragmented (rm_recv A) 7"
  shows "held_run (fst (reasm_main K MS_PER_S fragmented A)) {} =
      Some (\<Union>i\<in>{..<7}. left_behind fragmented (rm_recv A i)) \<and>
    r = 0 \<and> (\<exists>pool. rm_pool A = Some pool \<and> Setup (Pool_free pool) \<in> set (fst (reasm_main K MS_PER_S fragmented A)))"
proof -
  let ?each = "io_each (\<lambda>i. io_bind (recvpkt fragmented (rm_recv A i)) (\<lambda>_. ret ())) [0..<7]"
  from assms(1) obtain pool tbl where a: "\<not> rm_eal A < 0" "rm_pool A = Some pool" "rm_tbl A = Some tbl" "rm_open A"
    by (auto simp: reasm_main_def Let_def pcapw_open_offline_def split: if_splits option.splits)
  with assms(1) have s: "snd ?each = Inr ()" and r: "r = 0"
    by (auto simp: reasm_main_def Let_def pcapw_open_offline_def pcapw_close_def
        elim!: snd_io_bind_InrE simp del: upt_conv_Cons)
  have "fst (reasm_main K MS_PER_S fragmented A) =
      map Setup [Pool_create ''mp'' 8192 0 (RTE_MBUF_DEFAULT_BUF_SIZE (RTE_PKTMBUF_HEADROOM K)) (Some pool),
        Frag_table_create 0x1000 16 0x1000 (frag_cycles (rm_hz A) MS_PER_S) (Some tbl), Pcap_open ''in.pcap'' True] @
      fst ?each @ map Setup [Frag_table_destroy tbl, Pool_free pool, Pcap_close]"
    using a s by (simp add: reasm_main_def pcapw_open_offline_def pcapw_close_def Let_def)
  then show ?thesis
    using recvpkts_held [OF assms(2) s] a(2) r by (simp add: held_run_append)
qed

definition seven_packets :: reasm_answers where
  "seven_packets = \<lparr>rm_eal = 0, rm_pool = Some 1, rm_hz = 1000, rm_tbl = Some 2, rm_open = True, rm_errbuf = [], rm_recv = captures\<rparr>"

theorem reasm_main_leaks_witness:
  "held_run (fst (reasm_main some_consts 1000 (\<lambda>_. False) seven_packets)) {} = Some {0, 1, 2, 3, 4, 5, 6}"
proof -
  have f: "fresh_buffers (\<lambda>_. False) (rm_recv seven_packets) 7"
    by (auto simp: fresh_buffers_def seven_packets_def captures_left list_all_iff) (auto simp: captures_def)
  have "snd (io_each (\<lambda>i. io_bind (recvpkt (\<lambda>_. False) (captures i)) (\<lambda>_. ret ())) [0..<7]) = Inr ()"
    by (rule snd_io_each) (metis captures_run snd_conv snd_io_bind_Inr snd_ret)
  then have "snd (reasm_main some_consts 1000 (\<lambda>_. False) seven_packets) = Inr 0"
    by (simp add: reasm_main_def seven_packets_def pcapw_open_offline_def pcapw_close_def Let_def snd_io_bind del: upt_conv_Cons)
  from reasm_main_leaks [OF this f] show ?thesis
    by (simp add: seven_packets_def captures_left) (auto simp: lessThan_nat_numeral)
qed

lemma unat_times:
  assumes "unat (x :: u64) = n" and "n * 3600000 < 2 ^ 64"
  shows "unat (x * 3600000) = n * 3600000"
  using assms by (subst unat_mult_lem [THEN iffD1]) simp_all

text \<open>
  Whatever the capture holds, the program hands no buffer back to the pool before it ends.
\<close>

theorem reasm_main_frees_nothing: "frees_nothing (reasm_main K MS_PER_S fragmented A)"
  unfolding reasm_main_def pcapw_open_offline_def pcapw_close_def Let_def
  by (intro frees_nothing_if frees_nothing_option frees_nothing_bind frees_nothing_each frees_nothing_recvpkt frees_nothing_basic)
    simp_all

text \<open>
  The time a fragment is kept is computed without overflow for any clock below 2 to the 52 hertz,
  and is never shorter than the 3600 seconds it stands for, nor longer by more than 3600 thousand ticks.
\<close>

theorem frag_cycles_bound:
  assumes "unat hz \<le> 2 ^ 52"
  shows "unat (frag_cycles hz 1000) = (unat hz + 999) div 1000 * 3600000 \<and>
    3600 * unat hz \<le> unat (frag_cycles hz 1000) \<and> unat (frag_cycles hz 1000) < 3600 * unat hz + 3600000"
proof -
  have k: "(ucast (max_flow_ttl 1000) :: u64) = 3600000" by (simp add: max_flow_ttl_def)
  define n where "n = (unat hz + 999) div 1000"
  have n: "1000 * n \<le> unat hz + 999" "unat hz < 1000 * n + 1"
    using div_mult_mod_eq [of "unat hz + 999" 1000] mod_less_divisor [of 1000 "unat hz + 999"]
    unfolding n_def by linarith+
  have c: "unat (hz + 999) = unat hz + 999"
    using assms unat_plus [of hz 999] by simp
  have q: "unat ((hz + 999) div 1000) = n" unfolding n_def unat_div c by simp
  have "unat hz \<le> 4503599627370496" using assms by simp
  with n(1) have "n * 3600000 < 18446744073709551616" by linarith
  then have small: "n * 3600000 < 2 ^ 64" by simp
  have u: "(ucast (1000 :: u32) :: u64) = 1000" by simp
  have d: "hz + 1000 - 1 = hz + 999" by (simp add: add_diff_eq [symmetric])
  have "unat (frag_cycles hz 1000) = n * 3600000"
    unfolding frag_cycles_def k u d by (rule unat_times [OF q small])
  then show ?thesis using n unfolding n_def [symmetric] by linarith
qed

theorem frag_cycles_bound_witness:
  "unat (frag_cycles 2400000000 1000) = 8640000000000"
  using frag_cycles_bound [of 2400000000] by simp

end
