(* ===== verification/Yoda.thy ===== *)
theory Yoda
  imports Mbuf
begin

text \<open>
  \<open>yoda/main.cc\<close>: the data of a software router that is only begun, and a \<open>main\<close> that loops for ever.
  The file is C++, so the structure without members has one byte. The sizes are those of the x86-64 ABI.
\<close>

section \<open>The code\<close>

definition INTERFACE_NAME_LEN :: nat where
  "INTERFACE_NAME_LEN = 16"

definition MAX_INTERFACES :: nat where
  "MAX_INTERFACES = 256"

datatype interface_type = PHYSICAL | VLAN | VXLAN | GRE

fun interface_type_value :: "interface_type \<Rightarrow> nat" where
  "interface_type_value PHYSICAL = 0"
| "interface_type_value VLAN = 1"
| "interface_type_value VXLAN = 2"
| "interface_type_value GRE = 3"

record interface_s =
  interface_name :: string
  interface_pid :: u16
  interface_kind :: interface_type

datatype fib_s = Fib

record yoda_info_s =
  interfaces :: "interface_s list"
  fib :: fib_s

text \<open>
  The members with their size and alignment, as in \<open>layout\<close>. A structure is as aligned as its most
  aligned member, and its size is a multiple of that.
\<close>

fun layout_end :: "nat \<Rightarrow> (string \<times> nat \<times> nat) list \<Rightarrow> nat" where
  "layout_end off [] = off"
| "layout_end off ((f, sz, al) # fs) = layout_end (align_up off al + sz) fs"

definition struct_align :: "(string \<times> nat \<times> nat) list \<Rightarrow> nat" where
  "struct_align ms = fold (\<lambda>(f, sz, al). max al) ms 1"

definition struct_size :: "(string \<times> nat \<times> nat) list \<Rightarrow> nat" where
  "struct_size ms = align_up (layout_end 0 ms) (struct_align ms)"

definition interface_members :: "(string \<times> nat \<times> nat) list" where
  "interface_members = [(''name'', INTERFACE_NAME_LEN, 1), (''pid'', 2, 2), (''type'', 4, 4)]"

definition interface_size :: nat where
  "interface_size = struct_size interface_members"

definition yoda_info_members :: "(string \<times> nat \<times> nat) list" where
  "yoda_info_members =
     [(''interfaces'', MAX_INTERFACES * interface_size, struct_align interface_members), (''fib'', 1, 1)]"

text \<open>
  \<open>main\<close>: \<open>info\<close> is what the uninitialised structure holds. The value \<open>None\<close> is a call that does not
  return.
\<close>

partial_function (option) yoda_loop :: "yoda_info_s \<Rightarrow> int option" where
  "yoda_loop info = yoda_loop info"

definition yoda_main :: "int \<Rightarrow> string list \<Rightarrow> yoda_info_s \<Rightarrow> int option" where
  "yoda_main argc argv info = yoda_loop info"

section \<open>Sizes and the loop\<close>

lemma yoda_sizes:
  "layout 0 interface_members = [(''name'', 0), (''pid'', 16), (''type'', 20)]"
  "interface_size = 24"
  "struct_size yoda_info_members = 6148"
  by (simp_all add: interface_members_def interface_size_def yoda_info_members_def struct_size_def struct_align_def
      align_up_def INTERFACE_NAME_LEN_def MAX_INTERFACES_def)

lemma interface_type_value_inj: "interface_type_value a = interface_type_value b \<longleftrightarrow> a = b"
  by (cases a; cases b) simp_all

lemma yoda_loop_never: "yoda_loop info = Some r \<Longrightarrow> False"
  by (rule yoda_loop.raw_induct [of "\<lambda>_ _. False"])

lemma yoda_main_never_returns: "yoda_main argc argv info = None"
  using yoda_loop_never by (cases "yoda_loop info") (auto simp: yoda_main_def)

end
