(* ===== verification/Spec2Isabelle.thy ===== *)
theory Spec2Isabelle
  imports Dump_Within Tests Bpf_Checksum Yak_Ends Yak_Main Chained Reassembly Yoda
begin

text \<open>
  hspp is a collection of small C programs about packets: \<open>yalin\<close>, a monitor that prints the messages of
  the kernel's routing socket, and four programs on DPDK: \<open>yak\<close>, which joins Ethernet ports to TAP
  interfaces, \<open>bpf\<close>, which loads an eBPF program, \<open>chained_mbuf\<close>, which sends a packet of several
  segments, and \<open>ip_reassembly\<close>, which replays a capture file. \<open>yoda\<close> is the beginning of a router in C++.
  This development models all six.

  The programs are functions that run in one effect type (\<open>Prelude\<close>): the list of what they did, and
  either a fault or a value. For \<open>yalin\<close> and \<open>bpf\<close> what is done is text on a stream, for the DPDK programs
  it is a call of the library or the system. Faults are a read or write beyond an object, a dereferenced
  NULL, a failed \<open>assert\<close>, \<open>exit\<close>, \<open>abort\<close>, and a loop that does not end. Machine integers are words;
  where C compares or converts signed and unsigned operands the conversion is written out. Memory is a
  list of bytes and an offset into it, character arrays have a fixed length, C strings end at the first
  NUL (\<open>CString\<close>, with the \<open>printf\<close> formats the programs use).

  The theories and what they model:

  \<^item> \<open>Hexdump\<close>, \<open>Dump_Text\<close>: \<open>yalin/yalin/hexdump.h\<close>. Both dump routines; what they print, and that the
    dumped bytes can be read back from it. The two loops share the locale of a row printer.
  \<^item> \<open>Uapi\<close>: the constants and the message macros of the kernel's headers, as a parameter \<open>uapi\<close> with the
    values Linux has as an instance, and the accessors of the structures in memory.
  \<^item> \<open>Names\<close>: \<open>yalin/yalin/types.h\<close> and \<open>filter.h\<close>. The five naming functions.
  \<^item> \<open>Flags\<close>: \<open>yalin/yalin/flags.h\<close>. The flag printers, on arrays that can overflow.
  \<^item> \<open>Rtattr\<close>: \<open>yalin/yalin/rtattr.h\<close> up to line 139. The accessors of an attribute, the step to the next
    one with its signed and unsigned lengths, the readers (locale \<open>attr_reader\<close>).
  \<^item> \<open>Linkinfo\<close>, \<open>Rta_Str\<close>: the rest of \<open>rtattr.h\<close>. The nested VLAN attributes and \<open>rta_to_str\<close> with all
    its branches.
  \<^item> \<open>Dump\<close>: \<open>yalin/yalin/dump.h\<close>. The four message bodies, their attribute loops and the dispatch.
  \<^item> \<open>Dump_Local\<close>: how far a dump looks. One relation between a run on a block of memory and the run on a
    longer one, carried through every routine that reads memory. \<open>Dump_Shift\<close>: the same for a run on a
    message that lies further on in the memory. \<open>Dump_Within\<close>: which attributes, and so which address
    messages, are printed from their own bytes.
  \<^item> \<open>Monitor\<close>: \<open>yalin/yalin/socket.h\<close>, \<open>request.h\<close> and \<open>yalin/main.c\<close>. The life of the socket, the receive
    loop for any handler (locale \<open>msg_handler\<close>), the program. \<open>Monitor_Run\<close>: what the program prints on
    any sequence of deliveries, and \<open>yalin/test/monitor.c\<close>.
  \<^item> \<open>Tests\<close>: the two programs of \<open>yalin/test\<close> that analyse an attribute.
  \<^item> \<open>Mbuf\<close>: \<open>bpf/code/mbuf.h\<close>. The offload flags, the packet descriptor with its unions and bit fields,
    its layout in memory.
  \<^item> \<open>Bpf\<close>: \<open>bpf/code/t1.c\<close>, \<open>t2.c\<close>, \<open>t3.c\<close>, \<open>bpf/bpf.h\<close>, \<open>bpf/main.c\<close>. The three eBPF programs on an
    address space (locale \<open>saddr_rewriter\<close>), the loader. \<open>Bpf_Checksum\<close>: the IPv4 header checksum a
    receiver computes, on the rewritten packets.
  \<^item> \<open>Dpdk\<close>: the calls of the DPDK programs, the packet buffers, and the documented contract of the calls:
    \<open>held_step\<close> says which buffers a thread owns after a call, and has no result when the thread used one
    that was not its own. The locale \<open>packet_job\<close> is the contract of a thread's round.
  \<^item> \<open>Tap\<close>, \<open>Port\<close>, \<open>Yak\<close>: \<open>yak/tap.c\<close>, \<open>yak/port.c\<close>, \<open>yak/main.c\<close>. \<open>Yak_Own\<close>: the two threads and the
    driver as a labelled step relation, one call a step, and the invariant of where the buffers are.
  \<^item> \<open>Traces\<close>, \<open>Yak_Trace\<close>: traces of a step relation and the contract of a queue (locale \<open>queue\<close>; two in a
    row are one, locale \<open>two_queues\<close>), which the ring of a port and the forwarding thread fulfil.
  \<^item> \<open>Yak_Data\<close>, \<open>Yak_Ends\<close>: the step relation together with the memory of the buffers. What \<open>tap_recv\<close> writes
    and the threads read happens at its step, the driver and the pool may change what they own at any
    time, and the same two locales are fulfilled by the contents; the way from the device to the interface
    is a third queue.
  \<^item> \<open>Yak_Main\<close>: \<open>main\<close> and the TAP thread as a whole.
  \<^item> \<open>Chained\<close>: \<open>chained_mbuf/dpdk.h\<close> and \<open>main.c\<close>. \<open>Reassembly\<close>: \<open>ip_reassembly/pcapw.h\<close> and \<open>main.c\<close>.
  \<^item> \<open>Yoda\<close>: \<open>yoda/main.cc\<close>, its data with their layout and its endless loop.

  What the theorems show. For \<open>yalin\<close>: the loops over messages and attributes visit what is there, in
  order, and every dump of a message ends on any memory, which rests on measures (the bytes left in the
  block) and not on fuel; the text of each kind of attribute and flag; the sizes from which the local
  arrays overflow; the inputs on which the lengths wrap around and the loops read behind a message; that
  the whole monitor dumps every message of every datagram once and in order, and prints of a message
  nothing but what its own bytes give, as long as the dump stays within them (those of link messages do
  not, those of address messages do when every payload is as long as its type is read); that a message of
  length zero is handled for ever. For \<open>bpf\<close>: the exact effect of the address rewriters on memory, that
  one undoes the other, that the packets have a wrong checksum in between, the flags and bit fields of the
  descriptor. For \<open>yak\<close>: under every interleaving every buffer is in one place, no thread uses a buffer it
  does not own, the forwarding thread loses none; frames go from the TAP interface to the device and, as
  long as every packet comes in one segment, from the device to the interface byte for byte, once each and
  in order, and what the forwarding thread writes is what the buffer holds (what \<open>tap_send\<close> makes of a
  packet of more segments is shown for itself); with the sizes of \<open>port_alloc\<close> a ring has room for its
  port's whole pool and never refuses a frame, but the pool can come to wait in the ring as a whole, and
  then the TAP thread dereferences NULL; this thread serves the ports in lockstep and waits for ever at
  the port on which nothing arrives any more; what the program holds when it runs. For \<open>chained_mbuf\<close> and
  \<open>ip_reassembly\<close>: what is copied, how the device is set up, and which buffers are freed twice or not at
  all.

  Parameters. The kernel's answers (\<open>answers\<close>, \<open>recv\<close>, \<open>tapif_answers\<close>), those of DPDK (\<open>fwd_answers\<close>,
  \<open>port_answers\<close>, \<open>chain_answers\<close>, \<open>reasm_answers\<close>, \<open>dpdk_bpf\<close>), of the capture library (\<open>recv_answers\<close>)
  and the constants of their headers are arguments of the definitions. Hypotheses about them state
  documented behaviour: \<open>uapi_macros_ok\<close> (the alignment and message macros), \<open>read_ok\<close> (a read stores as
  many bytes as it says), \<open>fresh_seg\<close> (the data of a new buffer begins inside it), \<open>good_round\<close> (a burst
  holds no buffer twice), \<open>agrees\<close> (a buffer that is taken over holds what its round says it holds),
  \<open>enabled\<close> (only a free buffer is allocated, a ring refuses an enqueue exactly when it is full, the head
  of a ring is dequeued), \<open>pools_ok\<close> and \<open>from_pool\<close> (a pool has as many buffers as it was created with
  and an allocation answers with one of them), \<open>arrived\<close> (what a \<open>read\<close> that returns has stored),
  \<open>unscattered\<close> (the driver delivers packets of one segment: this one is not documented but depends on the
  traffic), \<open>fresh_buffers\<close> (a buffer that was not given back is not given out again). Loops that run for
  ever are modelled for any finite number of datagrams or rounds; the loop of \<open>Yak_Own\<close> is unbounded, and
  that of \<open>yoda\<close> has no value. A \<open>read\<close> or \<open>recvmsg\<close> for which nothing arrives any more leaves the thread
  waiting, and this is the result of the run. The inner loop of \<open>netlink_listen\<close> is modelled twice: as it
  is written, for any number of iterations (\<open>msg_iterate\<close>), and run to its end (\<open>msg_loop\<close>), where the
  fault \<open>Diverge\<close>, found by the test that a step is zero, stands for a loop that does not end; the two are
  proved to agree. The attribute loop of \<open>Dump\<close> has the same test, and its fault is shown never to occur.

  Not modelled: the makefiles; the contents that \<open>rte_pktmbuf_dump\<close> prints and the rearrangement of
  segments by \<open>rte_pktmbuf_chain\<close> and \<open>rte_pktmbuf_linearize\<close>, which are the library's; the creation of
  the threads beyond its two answers; the prototypes in \<open>mbuf.h\<close> that have no body there. The layouts of
  the kernel's structures are those of the x86-64 ABI, integers are little endian.
\<close>

end
